(* ===== verification/Touche_Prelude.thy ===== *)
theory Touche_Prelude
  imports Main "HOL-Library.Word"
begin

text \<open>
  Shared vocabulary of the development: bytes, the errors and results of \<^verbatim>\<open>std::io\<close>,
  sequencing of fallible state-passing operations, number formatting, and the list lemmas
  that the component theories use.

  A byte (\<^verbatim>\<open>u8\<close>) is a \<^typ>\<open>char\<close>, the 256-element type of the library, so that the
  literal \<^term>\<open>''abc''\<close> is the byte string \<^verbatim>\<open>b"abc"\<close>.  Lengths (\<^verbatim>\<open>usize\<close>, \<^verbatim>\<open>u64\<close>) are
  natural numbers: the code only compares them, subtracts with \<^verbatim>\<open>checked_sub\<close> and converts
  between the two widths, which is the identity on the 64-bit targets considered here.
\<close>

named_theorems io_simps \<open>unfolding rules of the fallible state-passing combinators\<close>
named_theorems stream_simps \<open>behaviour of the reading operations on fault-free streams\<close>

section \<open>Bytes\<close>

type_synonym byte = char
type_synonym bytes = "char list"

abbreviation CR :: byte where "CR \<equiv> CHR 0x0D"
abbreviation LF :: byte where "LF \<equiv> CHR 0x0A"

definition crlf :: bytes where
  "crlf = [CR, LF]"

lemma crlf_simps [simp]: "crlf \<noteq> []" "length crlf = 2" "LF \<in> set crlf"
  by (simp_all add: crlf_def)

section \<open>Results\<close>

text \<open>
  \<^verbatim>\<open>std::io::Error\<close>: the kinds the code meets, and errors built with
  \<^verbatim>\<open>io::Error::new(ErrorKind::Other, msg)\<close>.  A \<^verbatim>\<open>panic!\<close> (from \<^verbatim>\<open>unwrap\<close> or
  \<^verbatim>\<open>unreachable!\<close>) is a result of its own, so that its absence can be stated.
\<close>

datatype io_error =
    Interrupted
  | UnexpectedEof
  | BrokenPipe
  | OsError nat
  | Other string

datatype (set_res: 'a) res = Ok 'a | Err io_error | Panic

definition is_ok :: "'a res \<Rightarrow> bool" where
  "is_ok r \<longleftrightarrow> (case r of Ok _ \<Rightarrow> True | _ \<Rightarrow> False)"

lemma is_ok_simps [simp]: "is_ok (Ok a)" "\<not> is_ok (Err e)" "\<not> is_ok Panic"
  by (simp_all add: is_ok_def)

lemma is_okE: "is_ok r \<Longrightarrow> (\<And>a. r = Ok a \<Longrightarrow> P) \<Longrightarrow> P"
  by (cases r) auto

lemma map_res_iff [simp]:
  "map_res f r = Panic \<longleftrightarrow> r = Panic"
  "map_res f r = Err e \<longleftrightarrow> r = Err e"
  "map_res f r = Ok b \<longleftrightarrow> (\<exists>a. r = Ok a \<and> b = f a)"
  by (cases r; auto)+

section \<open>Fallible state-passing operations\<close>

text \<open>
  An operation on a state \<open>'s\<close> returns a result and the new state; \<open>act_bind\<close> is the
  \<^verbatim>\<open>?\<close> operator: an error or a panic ends the sequence and keeps the state reached so far.
\<close>

type_synonym ('s, 'a) act = "'s \<Rightarrow> 'a res \<times> 's"

definition act_return :: "'a \<Rightarrow> ('s, 'a) act" where
  "act_return a = (\<lambda>s. (Ok a, s))"

definition act_fail :: "io_error \<Rightarrow> ('s, 'a) act" where
  "act_fail e = (\<lambda>s. (Err e, s))"

definition act_bind :: "('s, 'a) act \<Rightarrow> ('a \<Rightarrow> ('s, 'b) act) \<Rightarrow> ('s, 'b) act" where
  "act_bind m f = (\<lambda>s. case m s of
     (Ok a, s') \<Rightarrow> f a s'
   | (Err e, s') \<Rightarrow> (Err e, s')
   | (Panic, s') \<Rightarrow> (Panic, s'))"

definition act_then :: "('s, 'a) act \<Rightarrow> ('s, 'b) act \<Rightarrow> ('s, 'b) act" where
  "act_then m k = act_bind m (\<lambda>_. k)"

declare act_return_def [io_simps] act_fail_def [io_simps] act_bind_def [io_simps]
  act_then_def [io_simps]

lemma act_bind_eq_Ok:
  "act_bind m f s = (Ok b, s'') \<longleftrightarrow> (\<exists>a s'. m s = (Ok a, s') \<and> f a s' = (Ok b, s''))"
  by (auto simp: act_bind_def split: prod.splits res.splits)

lemma act_bind_return [simp]: "act_bind (act_return a) f = f a"
  by (rule ext) (simp add: act_bind_def act_return_def)

lemma act_bind_assoc: "act_bind (act_bind m f) g = act_bind m (\<lambda>a. act_bind (f a) g)"
  by (rule ext) (simp add: act_bind_def split: prod.splits res.splits)

section \<open>Number formatting\<close>

text \<open>\<^verbatim>\<open>format!("{:x}", n)\<close>: lower-case hexadecimal without a prefix.\<close>

definition hex_digit :: "nat \<Rightarrow> byte" where
  "hex_digit d = (if d < 10 then char_of (48 + d) else char_of (87 + d))"

fun hex :: "nat \<Rightarrow> bytes" where
  "hex n = (if n < 16 then [hex_digit n] else hex (n div 16) @ [hex_digit (n mod 16)])"

declare hex.simps [simp del]

text \<open>\<^verbatim>\<open>Display\<close> of an unsigned integer.\<close>

fun dec :: "nat \<Rightarrow> bytes" where
  "dec n = (if n < 10 then [char_of (48 + n)] else dec (n div 10) @ [char_of (48 + n mod 10)])"

declare dec.simps [simp del]

definition hex_value :: "byte \<Rightarrow> nat option" where
  "hex_value c = (let n = of_char c :: nat in
     if 48 \<le> n \<and> n \<le> 57 then Some (n - 48)
     else if 97 \<le> n \<and> n \<le> 102 then Some (n - 87)
     else if 65 \<le> n \<and> n \<le> 70 then Some (n - 55)
     else None)"

lemma hex_digit_value [simp]: "d < 16 \<Longrightarrow> hex_value (hex_digit d) = Some d"
  by (simp add: hex_value_def hex_digit_def)

lemma of_char_hex_digit: "d < 16 \<Longrightarrow> of_char (hex_digit d) = (if d < 10 then 48 + d else 87 + d)"
  by (simp add: hex_digit_def)

lemma hex_digit_not_eol: "d < 16 \<Longrightarrow> hex_digit d \<noteq> LF \<and> hex_digit d \<noteq> CR"
  using of_char_hex_digit [of d] by (auto split: if_splits)

lemma hex_not_Nil [simp]: "hex n \<noteq> []"
  by (subst hex.simps) simp

lemma hex_chars: "c \<in> set (hex n) \<Longrightarrow> \<exists>d < 16. c = hex_digit d"
proof (induction n rule: hex.induct)
  case (1 n)
  show ?case
  proof (cases "n < 16")
    case True
    with "1.prems" show ?thesis by (subst (asm) hex.simps) auto
  next
    case False
    from "1.prems" False have "c \<in> set (hex (n div 16)) \<or> c = hex_digit (n mod 16)"
      by (subst (asm) hex.simps) auto
    moreover have "n mod 16 < 16" by simp
    ultimately show ?thesis using "1.IH" [OF False] by blast
  qed
qed

lemma LF_notin_hex [simp]: "LF \<notin> set (hex n)"
  using hex_chars hex_digit_not_eol by metis

section \<open>Sums\<close>

fun isr :: "'a + 'b \<Rightarrow> bool" where
  "isr (Inl _) = False"
| "isr (Inr _) = True"

section \<open>Checked subtraction\<close>

text \<open>\<^verbatim>\<open>usize::checked_sub\<close>.\<close>

definition checked_sub :: "nat \<Rightarrow> nat \<Rightarrow> nat option" where
  "checked_sub a b = (if b \<le> a then Some (a - b) else None)"

section \<open>Splitting at a delimiter\<close>

text \<open>The prefix of \<open>bs\<close> up to and including the first \<open>d\<close>.\<close>

definition upto_delim :: "byte \<Rightarrow> bytes \<Rightarrow> bytes" where
  "upto_delim d bs = take (Suc (length (takeWhile (\<lambda>b. b \<noteq> d) bs))) bs"

lemma upto_delim_simps [simp]:
  "upto_delim d [] = []"
  "upto_delim d (b # bs) = b # (if b = d then [] else upto_delim d bs)"
  by (auto simp: upto_delim_def)

lemma upto_delim_append:
  "upto_delim d (xs @ ys) = (if d \<in> set xs then upto_delim d xs else xs @ upto_delim d ys)"
  by (induction xs) auto

lemma upto_delim_notin [simp]: "d \<notin> set bs \<Longrightarrow> upto_delim d bs = bs"
  by (induction bs) auto

lemma upto_delim_prefix: "upto_delim d bs @ drop (length (upto_delim d bs)) bs = bs"
  by (induction bs) auto

lemma take_upto_delim: "take (length (upto_delim d bs)) bs = upto_delim d bs"
  by (induction bs) auto

lemma length_upto_delim_le [simp]: "length (upto_delim d bs) \<le> length bs"
  by (induction bs) auto

lemma upto_delim_Nil_iff [simp]: "upto_delim d bs = [] \<longleftrightarrow> bs = []"
  by (cases bs) auto

section \<open>Lists\<close>

lemma takeWhile_all [simp]: "(\<And>x. x \<in> set xs \<Longrightarrow> P x) \<Longrightarrow> takeWhile P xs = xs"
  by (simp add: takeWhile_eq_all_conv)

lemma drop_append_length [simp]: "drop (length xs) (xs @ ys) = ys"
  by simp

lemma sum_list_map_Suc_mono: "sum_list (map f xs) \<le> sum_list (map (\<lambda>x. Suc (f x)) xs)"
  by (induction xs) auto

end
