(* ===== verification/Io_Streams.thy ===== *)
theory Io_Streams
  imports Touche_Prelude
begin

text \<open>
  The part of \<^verbatim>\<open>std::io\<close> that the library is written against.

  A readable source (a socket behind a \<^verbatim>\<open>BufReader\<close>, a \<^verbatim>\<open>File\<close>, a \<^verbatim>\<open>Cursor\<close>) is the
  script of what its successive reads deliver: a list of events, each a block of bytes
  (a block of no bytes is a read that reports end of file) or a fault.  After the script
  the source is at end of file.  How the peer's bytes are cut into blocks is arbitrary, so a
  theorem over all scripts covers every segmentation the network may choose.

  A writer collects what it accepts and may break after a given number of bytes.
\<close>

section \<open>Sources\<close>

datatype event = Avail bytes | Fault io_error

type_synonym stream = "event list"

text \<open>What is left of a block goes back to the front of the script.\<close>

definition push_back :: "bytes \<Rightarrow> stream \<Rightarrow> stream" where
  "push_back bs s = (if bs = [] then s else Avail bs # s)"

text \<open>\<^verbatim>\<open>BufRead::fill_buf\<close> and \<^verbatim>\<open>BufRead::consume\<close>.\<close>

fun fill_buf :: "stream \<Rightarrow> bytes res \<times> stream" where
  "fill_buf [] = (Ok [], [])"
| "fill_buf (Avail bs # s) = (if bs = [] then (Ok [], s) else (Ok bs, Avail bs # s))"
| "fill_buf (Fault e # s) = (Err e, s)"

fun consume :: "nat \<Rightarrow> stream \<Rightarrow> stream" where
  "consume n (Avail bs # s) = (if n = 0 then Avail bs # s else push_back (drop n bs) s)"
| "consume n s = s"

text \<open>\<^verbatim>\<open>Read::read\<close> with a buffer of \<open>n\<close> bytes.\<close>

fun read :: "nat \<Rightarrow> stream \<Rightarrow> bytes res \<times> stream" where
  "read n [] = (Ok [], [])"
| "read n (Avail bs # s) = (Ok (take n bs), push_back (drop n bs) s)"
| "read n (Fault e # s) = (Err e, s)"

text \<open>\<^verbatim>\<open>io::Take::read\<close>: at most \<open>l\<close> more bytes, and no read at all once \<open>l\<close> is 0.\<close>

definition take_read :: "nat \<Rightarrow> nat \<Rightarrow> stream \<Rightarrow> bytes res \<times> nat \<times> stream" where
  "take_read n l s =
     (if l = 0 then (Ok [], 0, s)
      else case read (min n l) s of
        (Ok bs, s') \<Rightarrow> (Ok bs, l - length bs, s')
      | (r, s') \<Rightarrow> (r, l, s'))"

text \<open>
  \<^verbatim>\<open>BufRead::read_until\<close>: appends to \<open>buf\<close> and returns how many bytes were appended;
  interrupted reads are retried, and on an error the bytes read so far stay in \<open>buf\<close>.
\<close>

fun read_until :: "byte \<Rightarrow> bytes \<Rightarrow> stream \<Rightarrow> nat res \<times> bytes \<times> stream" where
  "read_until d buf [] = (Ok 0, buf, [])"
| "read_until d buf (Fault e # s) =
     (if e = Interrupted then read_until d buf s else (Err e, buf, s))"
| "read_until d buf (Avail bs # s) =
     (if bs = [] then (Ok 0, buf, s)
      else if d \<in> set bs then
        (let line = upto_delim d bs
         in (Ok (length line), buf @ line, push_back (drop (length line) bs) s))
      else (case read_until d (buf @ bs) s of
          (Ok n, buf', s') \<Rightarrow> (Ok (length bs + n), buf', s')
        | (r, buf', s') \<Rightarrow> (r, buf', s')))"

text \<open>\<^verbatim>\<open>Read::read_exact\<close> into a buffer of \<open>n\<close> bytes.\<close>

fun read_exact :: "nat \<Rightarrow> stream \<Rightarrow> bytes res \<times> stream" where
  "read_exact n [] = (if n = 0 then (Ok [], []) else (Err UnexpectedEof, []))"
| "read_exact n (Fault e # s) =
     (if n = 0 then (Ok [], Fault e # s)
      else if e = Interrupted then read_exact n s else (Err e, s))"
| "read_exact n (Avail bs # s) =
     (if n = 0 then (Ok [], Avail bs # s)
      else if bs = [] then (Err UnexpectedEof, s)
      else if n \<le> length bs then (Ok (take n bs), push_back (drop n bs) s)
      else (case read_exact (n - length bs) s of
          (Ok r, s') \<Rightarrow> (Ok (bs @ r), s')
        | (r, s') \<Rightarrow> (r, s')))"

text \<open>\<^verbatim>\<open>Read::read_to_end\<close>, plain and through \<^verbatim>\<open>Read::take(l)\<close>.\<close>

fun read_to_end :: "stream \<Rightarrow> bytes res \<times> stream" where
  "read_to_end [] = (Ok [], [])"
| "read_to_end (Fault e # s) = (if e = Interrupted then read_to_end s else (Err e, s))"
| "read_to_end (Avail bs # s) =
     (if bs = [] then (Ok [], s)
      else (case read_to_end s of
          (Ok r, s') \<Rightarrow> (Ok (bs @ r), s')
        | (r, s') \<Rightarrow> (r, s')))"

fun take_read_to_end :: "nat \<Rightarrow> stream \<Rightarrow> bytes res \<times> stream" where
  "take_read_to_end l [] = (Ok [], [])"
| "take_read_to_end l (Fault e # s) =
     (if l = 0 then (Ok [], Fault e # s)
      else if e = Interrupted then take_read_to_end l s else (Err e, s))"
| "take_read_to_end l (Avail bs # s) =
     (if l = 0 then (Ok [], Avail bs # s)
      else if bs = [] then (Ok [], s)
      else if l \<le> length bs then (Ok (take l bs), push_back (drop l bs) s)
      else (case take_read_to_end (l - length bs) s of
          (Ok r, s') \<Rightarrow> (Ok (bs @ r), s')
        | (r, s') \<Rightarrow> (r, s')))"

section \<open>Size of a source\<close>

fun event_bytes :: "event \<Rightarrow> bytes" where
  "event_bytes (Avail bs) = bs"
| "event_bytes (Fault e) = []"

text \<open>Every event counts one more than its bytes, so reading always makes the script smaller.\<close>

fun event_size :: "event \<Rightarrow> nat" where
  "event_size (Avail bs) = Suc (length bs)"
| "event_size (Fault e) = 1"

definition stream_size :: "stream \<Rightarrow> nat" where
  "stream_size s = sum_list (map event_size s)"

lemma stream_size_simps [simp]:
  "stream_size [] = 0"
  "stream_size (e # s) = event_size e + stream_size s"
  by (simp_all add: stream_size_def)

lemma stream_size_push_back [simp]:
  "stream_size (push_back bs s) = (if bs = [] then stream_size s else Suc (length bs) + stream_size s)"
  by (simp add: push_back_def)

lemma read_size: "read n s = (r, s') \<Longrightarrow> stream_size s' \<le> stream_size s"
  by (induction n s rule: read.induct) (auto split: if_splits)

lemma read_less: "read n s = (Ok bs, s') \<Longrightarrow> bs \<noteq> [] \<Longrightarrow> stream_size s' < stream_size s"
  by (induction n s rule: read.induct) (auto split: if_splits)

lemma read_Err_less: "read n s = (Err e, s') \<Longrightarrow> stream_size s' < stream_size s"
  by (induction n s rule: read.induct) auto

lemma read_length: "read n s = (Ok bs, s') \<Longrightarrow> length bs \<le> n"
  by (induction n s rule: read.induct) auto

lemma read_not_Panic [simp]: "read n s \<noteq> (Panic, s')"
  by (cases "(n, s)" rule: read.cases) auto

text \<open>
  All the facts about \<open>read_until\<close> that its callers need, by one induction over the script:
  it never panics, never enlarges the source, and a non-zero count means that it made the
  source smaller and appended that many bytes.
\<close>

lemma read_until_facts:
  "read_until d buf s = (r, buf', s') \<Longrightarrow>
     r \<noteq> Panic \<and> stream_size s' \<le> stream_size s \<and>
     (\<forall>n. r = Ok n \<longrightarrow> length buf' = length buf + n \<and> (n \<noteq> 0 \<longrightarrow> stream_size s' < stream_size s))"
proof (induction s arbitrary: buf r buf' s')
  case Nil
  then show ?case by auto
next
  case (Cons e s)
  obtain r1 b1 s1 where rec: "read_until d (buf @ event_bytes e) s = (r1, b1, s1)"
    by (metis prod_cases3)
  note IH = Cons.IH [OF rec]
  show ?case
  proof (cases e)
    case (Fault err)
    with Cons.prems rec IH show ?thesis by (auto split: if_splits)
  next
    case (Avail bs)
    show ?thesis
    proof (cases "bs = [] \<or> d \<in> set bs")
      case True
      with Cons.prems Avail show ?thesis by (auto simp: Let_def split: if_splits)
    next
      case False
      with Cons.prems Avail rec IH show ?thesis by (cases r1) auto
    qed
  qed
qed

lemma read_until_size: "read_until d buf s = (r, buf', s') \<Longrightarrow> stream_size s' \<le> stream_size s"
  by (drule read_until_facts) simp

lemma read_until_less:
  "read_until d buf s = (Ok n, buf', s') \<Longrightarrow> n \<noteq> 0 \<Longrightarrow> stream_size s' < stream_size s"
  by (drule read_until_facts) simp

lemma read_until_count: "read_until d buf s = (Ok n, buf', s') \<Longrightarrow> length buf' = length buf + n"
  by (drule read_until_facts) simp

lemma read_until_not_Panic [simp]: "read_until d buf s \<noteq> (Panic, buf', s')"
  by (auto dest: read_until_facts)

lemma read_exact_facts:
  "read_exact n s = (r, s') \<Longrightarrow>
     r \<noteq> Panic \<and> stream_size s' \<le> stream_size s \<and> (\<forall>bs. r = Ok bs \<longrightarrow> length bs = n)"
proof (induction s arbitrary: n r s')
  case Nil
  then show ?case by (auto split: if_splits)
next
  case (Cons e s)
  obtain r1 s1 where rec: "read_exact (n - length (event_bytes e)) s = (r1, s1)"
    by (metis surj_pair)
  note IH = Cons.IH [OF rec]
  show ?case
  proof (cases e)
    case (Fault err)
    with Cons.prems rec IH show ?thesis by (auto split: if_splits)
  next
    case (Avail bs)
    with Cons.prems rec IH show ?thesis by (cases r1) (auto split: if_splits)
  qed
qed

lemma read_exact_size: "read_exact n s = (r, s') \<Longrightarrow> stream_size s' \<le> stream_size s"
  by (drule read_exact_facts) simp

lemma read_exact_length: "read_exact n s = (Ok bs, s') \<Longrightarrow> length bs = n"
  by (drule read_exact_facts) simp

lemma read_exact_not_Panic [simp]: "read_exact n s \<noteq> (Panic, s')"
  by (auto dest: read_exact_facts)

lemma read_to_end_facts:
  "read_to_end s = (r, s') \<Longrightarrow> r \<noteq> Panic \<and> stream_size s' \<le> stream_size s"
proof (induction s arbitrary: r s')
  case (Cons e s)
  obtain r1 s1 where rec: "read_to_end s = (r1, s1)" by (metis surj_pair)
  with Cons.prems Cons.IH [OF rec] show ?case
    by (cases e; cases r1) (auto split: if_splits)
qed auto

lemma take_read_to_end_facts:
  "take_read_to_end l s = (r, s') \<Longrightarrow>
     r \<noteq> Panic \<and> stream_size s' \<le> stream_size s \<and> (\<forall>bs. r = Ok bs \<longrightarrow> length bs \<le> l)"
proof (induction s arbitrary: l r s')
  case Nil
  then show ?case by auto
next
  case (Cons e s)
  obtain r1 s1 where rec: "take_read_to_end (l - length (event_bytes e)) s = (r1, s1)"
    by (metis surj_pair)
  note IH = Cons.IH [OF rec]
  show ?case
  proof (cases e)
    case (Fault err)
    with Cons.prems rec IH show ?thesis by (auto split: if_splits)
  next
    case (Avail bs)
    with Cons.prems rec IH show ?thesis by (cases r1) (auto split: if_splits)
  qed
qed

lemma read_to_end_size: "read_to_end s = (r, s') \<Longrightarrow> stream_size s' \<le> stream_size s"
  by (drule read_to_end_facts) simp

lemma take_read_to_end_size: "take_read_to_end l s = (r, s') \<Longrightarrow> stream_size s' \<le> stream_size s"
  by (drule take_read_to_end_facts) simp

lemma take_read_to_end_length: "take_read_to_end l s = (Ok bs, s') \<Longrightarrow> length bs \<le> l"
  by (drule take_read_to_end_facts) simp

section \<open>Fault-free sources\<close>

text \<open>
  A quiet source only delivers non-empty blocks.  On quiet sources every reading operation
  is a function of the bytes alone, whatever the block boundaries are; \<open>advance n s\<close> is
  the source after its first \<open>n\<close> bytes.
\<close>

fun is_data :: "event \<Rightarrow> bool" where
  "is_data (Avail bs) \<longleftrightarrow> bs \<noteq> []"
| "is_data (Fault e) \<longleftrightarrow> False"

definition quiet :: "stream \<Rightarrow> bool" where
  "quiet s \<longleftrightarrow> list_all is_data s"

definition bytes_of :: "stream \<Rightarrow> bytes" where
  "bytes_of s = concat (map event_bytes s)"

fun advance :: "nat \<Rightarrow> stream \<Rightarrow> stream" where
  "advance n [] = []"
| "advance n (e # s) =
     (if n = 0 then e # s
      else if n < length (event_bytes e) then Avail (drop n (event_bytes e)) # s
      else advance (n - length (event_bytes e)) s)"

lemma quiet_simps [simp]:
  "quiet []"
  "quiet (Avail bs # s) \<longleftrightarrow> bs \<noteq> [] \<and> quiet s"
  "\<not> quiet (Fault e # s)"
  by (simp_all add: quiet_def)

lemma bytes_of_simps [simp]:
  "bytes_of [] = []"
  "bytes_of (Avail bs # s) = bs @ bytes_of s"
  "bytes_of (Fault e # s) = bytes_of s"
  by (simp_all add: bytes_of_def)

lemma quiet_push_back [simp]: "quiet (push_back bs s) \<longleftrightarrow> quiet s"
  by (simp add: push_back_def)

lemma bytes_of_push_back [simp]: "bytes_of (push_back bs s) = bs @ bytes_of s"
  by (simp add: push_back_def)

lemma quiet_Nil_iff: "quiet s \<Longrightarrow> bytes_of s = [] \<longleftrightarrow> s = []"
  by (cases s rule: fill_buf.cases) auto

lemma advance_0 [simp]: "advance 0 s = s"
  by (cases s) auto

lemma quiet_advance [simp]: "quiet s \<Longrightarrow> quiet (advance n s)"
proof (induction n s rule: advance.induct)
  case (2 n e s)
  then show ?case by (cases e) auto
qed simp

lemma bytes_of_advance [simp]: "quiet s \<Longrightarrow> bytes_of (advance n s) = drop n (bytes_of s)"
proof (induction n s rule: advance.induct)
  case (2 n e s)
  then show ?case by (cases e) auto
qed simp

lemma advance_append_first:
  "quiet s \<Longrightarrow> bs \<noteq> [] \<Longrightarrow> n \<le> length bs \<Longrightarrow>
     advance n (Avail bs # s) = push_back (drop n bs) s"
  by (auto simp: push_back_def)

lemma advance_advance: "quiet s \<Longrightarrow> advance m (advance n s) = advance (m + n) s"
proof (induction n s rule: advance.induct)
  case (2 n e s)
  then show ?case
    by (cases e) (auto simp: add.commute)
qed simp

lemma stream_size_advance: "stream_size (advance n s) \<le> stream_size s"
proof (induction n s rule: advance.induct)
  case (2 n e s)
  then show ?case by (cases e) auto
qed simp

lemma read_until_quiet [stream_simps]:
  "quiet s \<Longrightarrow>
     read_until d buf s =
       (Ok (length (upto_delim d (bytes_of s))), buf @ upto_delim d (bytes_of s),
        advance (length (upto_delim d (bytes_of s))) s)"
proof (induction d buf s rule: read_until.induct)
  case (3 d buf bs s)
  show ?case
  proof (cases "d \<in> set bs")
    case True
    with 3 show ?thesis
      by (simp add: Let_def upto_delim_append advance_append_first del: advance.simps)
  next
    case False
    with 3 show ?thesis
      by (simp add: upto_delim_append)
  qed
qed simp_all

lemma read_exact_quiet [stream_simps]:
  "quiet s \<Longrightarrow>
     read_exact n s =
       (if n \<le> length (bytes_of s) then (Ok (take n (bytes_of s)), advance n s)
        else (Err UnexpectedEof, []))"
proof (induction n s rule: read_exact.induct)
  case (3 n bs s)
  then show ?case
    by (auto simp: push_back_def)
qed simp_all

lemma read_to_end_quiet [stream_simps]:
  "quiet s \<Longrightarrow> read_to_end s = (Ok (bytes_of s), [])"
  by (induction s rule: read_to_end.induct) auto

lemma take_read_to_end_quiet [stream_simps]:
  "quiet s \<Longrightarrow> take_read_to_end l s = (Ok (take l (bytes_of s)), advance l s)"
proof (induction l s rule: take_read_to_end.induct)
  case (3 l bs s)
  then show ?case
    by (auto simp: push_back_def)
qed simp_all

section \<open>Writers\<close>

text \<open>
  \<open>w_out\<close> is everything accepted so far, \<open>w_flushed\<close> how much of it an explicit
  \<^verbatim>\<open>flush\<close> has pushed to the peer, and \<open>w_cap\<close> how many more bytes the peer accepts before
  the connection breaks (\<^term>\<open>None\<close>: it never does).
\<close>

record writer =
  w_out :: bytes
  w_flushed :: nat
  w_cap :: "nat option"

definition new_writer :: writer where
  "new_writer = \<lparr>w_out = [], w_flushed = 0, w_cap = None\<rparr>"

definition write_all :: "bytes \<Rightarrow> (writer, unit) act" where
  "write_all bs w =
     (case w_cap w of
        None \<Rightarrow> (Ok (), w\<lparr>w_out := w_out w @ bs\<rparr>)
      | Some k \<Rightarrow>
          if length bs \<le> k
          then (Ok (), w\<lparr>w_out := w_out w @ bs, w_cap := Some (k - length bs)\<rparr>)
          else (Err BrokenPipe, w\<lparr>w_out := w_out w @ take k bs, w_cap := Some 0\<rparr>))"

definition flush :: "(writer, unit) act" where
  "flush w =
     (if w_cap w = Some 0 then (Err BrokenPipe, w)
      else (Ok (), w\<lparr>w_flushed := length (w_out w)\<rparr>))"

text \<open>A writer whose peer never breaks accepts everything.\<close>

lemma write_all_healthy [simp]:
  "w_cap w = None \<Longrightarrow> write_all bs w = (Ok (), w\<lparr>w_out := w_out w @ bs\<rparr>)"
  by (simp add: write_all_def)

lemma flush_healthy [simp]:
  "w_cap w = None \<Longrightarrow> flush w = (Ok (), w\<lparr>w_flushed := length (w_out w)\<rparr>)"
  by (simp add: flush_def)

lemma write_all_not_Panic: "write_all bs w \<noteq> (Panic, w')"
  by (auto simp: write_all_def split: option.splits)

lemma flush_not_Panic: "flush w \<noteq> (Panic, w')"
  by (auto simp: flush_def)

lemma write_all_extends: "write_all bs w = (r, w') \<Longrightarrow> \<exists>x. w_out w' = w_out w @ x"
  by (auto simp: write_all_def split: option.splits if_splits)

lemma write_all_Ok: "write_all bs w = (Ok (), w') \<Longrightarrow> w_out w' = w_out w @ bs"
  by (auto simp: write_all_def split: option.splits if_splits)

end
