(* ===== verification/Crates.thy ===== *)
theory Crates
  imports Io_Streams
begin

text \<open>
  The third-party crates that the library calls (\<^verbatim>\<open>http\<close>, \<^verbatim>\<open>headers\<close>, \<^verbatim>\<open>httparse\<close>) are not part
  of the repository.  Every definition that uses one of their functions takes it from a
  record of type \<open>crates\<close>, so that nothing is assumed about them; what a theorem relies on
  is a named predicate on that record.

  The values of these crates are represented by what the code observes of them: a
  \<^verbatim>\<open>HeaderMap\<close> by the pairs that its \<^verbatim>\<open>iter()\<close> yields, a \<^verbatim>\<open>Method\<close> and a \<^verbatim>\<open>Uri\<close> by the text
  they print as, a \<^verbatim>\<open>StatusCode\<close> by its number.
\<close>

section \<open>Data of the http crate\<close>

type_synonym header_name = string
type_synonym header_map = "(header_name \<times> bytes) list"
type_synonym http_method = string
type_synonym uri = string
type_synonym status_code = nat

datatype version = HTTP_09 | HTTP_10 | HTTP_11 | HTTP_2 | HTTP_3

text \<open>
  \<^verbatim>\<open>http::Version\<close> derives \<^verbatim>\<open>PartialOrd\<close> in the order of its constructors.
\<close>

fun version_rank :: "version \<Rightarrow> nat" where
  "version_rank HTTP_09 = 0"
| "version_rank HTTP_10 = 1"
| "version_rank HTTP_11 = 2"
| "version_rank HTTP_2 = 3"
| "version_rank HTTP_3 = 4"

lemma version_rank_inj [simp]: "version_rank v = version_rank w \<longleftrightarrow> v = w"
  by (cases v; cases w) simp_all

instantiation version :: linorder
begin

definition less_eq_version :: "version \<Rightarrow> version \<Rightarrow> bool" where
  "v \<le> w \<longleftrightarrow> version_rank v \<le> version_rank w"

definition less_version :: "version \<Rightarrow> version \<Rightarrow> bool" where
  "v < w \<longleftrightarrow> version_rank v < version_rank w"

instance
  by standard (auto simp: less_eq_version_def less_version_def)

end

definition CONTINUE :: status_code where "CONTINUE = 100"
definition SWITCHING_PROTOCOLS :: status_code where "SWITCHING_PROTOCOLS = 101"

text \<open>\<^verbatim>\<open>StatusCode::is_success\<close>: \<^verbatim>\<open>200..300\<close> contains it.\<close>

definition is_success :: "status_code \<Rightarrow> bool" where
  "is_success c \<longleftrightarrow> 200 \<le> c \<and> c < 300"

section \<open>Data of the httparse crate\<close>

datatype httparse_error =
    HeaderName | HeaderValue | NewLine | Status | Token | TooManyHeaders | VersionError

text \<open>
  The fields of \<^verbatim>\<open>httparse::Request\<close> and \<^verbatim>\<open>httparse::Response\<close> after \<^verbatim>\<open>parse\<close>; the header
  list is the array of 64 entries that the caller passed in, unused entries being
  \<^verbatim>\<open>EMPTY_HEADER\<close>.
\<close>

record parsed_request =
  pr_method :: "bytes option"
  pr_path :: "bytes option"
  pr_version :: "nat option"
  pr_headers :: "(header_name \<times> bytes) list"

record parsed_response =
  ps_code :: "nat option"
  ps_version :: "nat option"
  ps_headers :: "(header_name \<times> bytes) list"

definition EMPTY_HEADER :: "header_name \<times> bytes" where
  "EMPTY_HEADER = ([], [])"

text \<open>\<^verbatim>\<open>Result<Status<(usize, u64)>, InvalidChunkSize>\<close> of \<^verbatim>\<open>parse_chunk_size\<close>.\<close>

datatype chunk_status = Complete nat nat | Partial | InvalidChunkSize

section \<open>The functions\<close>

record crates =
  c_parse_request :: "bytes \<Rightarrow> httparse_error + parsed_request"
  c_parse_response :: "bytes \<Rightarrow> httparse_error + parsed_response"
  c_parse_chunk_size :: "bytes \<Rightarrow> chunk_status"
  c_method_from_bytes :: "bytes \<Rightarrow> http_method option"
  c_uri_from :: "bytes \<Rightarrow> uri option"
  c_status_from_u16 :: "nat \<Rightarrow> status_code option"
  c_builder_header :: "header_name \<Rightarrow> bytes \<Rightarrow> header_map \<Rightarrow> header_map option"
  c_header_name :: "string \<Rightarrow> header_name option"
  c_header_value :: "bytes \<Rightarrow> bytes option"
  c_insert :: "header_name \<Rightarrow> bytes \<Rightarrow> header_map \<Rightarrow> header_map"
  c_remove :: "header_name \<Rightarrow> header_map \<Rightarrow> header_map"
  c_extend :: "header_map \<Rightarrow> header_map \<Rightarrow> header_map"
  c_transfer_encoding :: "header_map \<Rightarrow> unit + bool option"
    \<comment> \<open>\<open>typed_try_get::<TransferEncoding>()\<close>, seen through \<open>is_chunked()\<close>\<close>
  c_content_length :: "header_map \<Rightarrow> unit + nat option"
    \<comment> \<open>\<open>typed_try_get::<ContentLength>()\<close>\<close>
  c_connection :: "header_map \<Rightarrow> unit + (string \<Rightarrow> bool) option"
    \<comment> \<open>\<open>typed_try_get::<Connection>()\<close>, seen through \<open>contains(_)\<close>\<close>
  c_expect :: "header_map \<Rightarrow> unit + bool option"
    \<comment> \<open>\<open>typed_try_get::<Expect>()\<close>, seen through \<open>== Expect::CONTINUE\<close>\<close>
  c_date :: "header_map \<Rightarrow> unit + bytes option"
  c_insert_content_length :: "nat \<Rightarrow> header_map \<Rightarrow> header_map"
  c_insert_te_chunked :: "header_map \<Rightarrow> header_map"
  c_insert_connection_close :: "header_map \<Rightarrow> header_map"
  c_insert_date :: "bytes \<Rightarrow> header_map \<Rightarrow> header_map"
  c_version_debug :: "version \<Rightarrow> bytes"
  c_status_display :: "status_code \<Rightarrow> bytes"

text \<open>\<^verbatim>\<open>HeaderMapExt::typed_get\<close>: \<^verbatim>\<open>typed_try_get(..).unwrap_or(None)\<close>.\<close>

definition typed_get :: "unit + 'a option \<Rightarrow> 'a option" where
  "typed_get r = (case r of Inl _ \<Rightarrow> None | Inr v \<Rightarrow> v)"

lemma typed_get_simps [simp]: "typed_get (Inl e) = None" "typed_get (Inr v) = v"
  by (simp_all add: typed_get_def)

definition has_chunked :: "crates \<Rightarrow> header_map \<Rightarrow> bool" where
  "has_chunked E h = (case typed_get (c_transfer_encoding E h) of Some b \<Rightarrow> b | None \<Rightarrow> False)"

definition connection_has :: "crates \<Rightarrow> string \<Rightarrow> header_map \<Rightarrow> bool" where
  "connection_has E opt h = (case typed_get (c_connection E h) of Some f \<Rightarrow> f opt | None \<Rightarrow> False)"

definition get_content_length :: "crates \<Rightarrow> header_map \<Rightarrow> nat option" where
  "get_content_length E h = typed_get (c_content_length E h)"

definition expects_continue :: "crates \<Rightarrow> header_map \<Rightarrow> bool" where
  "expects_continue E h = (case typed_get (c_expect E h) of Some b \<Rightarrow> b | None \<Rightarrow> False)"

section \<open>What theorems may rely on\<close>

text \<open>
  \<^verbatim>\<open>parse_chunk_size\<close> on a size line: it reads the hexadecimal number (any \<^verbatim>\<open>u64\<close>) and
  reports where the line ends.
\<close>

definition chunk_size_law :: "crates \<Rightarrow> bool" where
  "chunk_size_law E \<longleftrightarrow>
     (\<forall>n < 2 ^ 64. c_parse_chunk_size E (hex n @ crlf) = Complete (length (hex n) + 2) n)"

text \<open>
  The typed inserts of the \<^verbatim>\<open>headers\<close> crate: a value inserted is the value read back, and
  inserting one header leaves the others as they were.
\<close>

definition typed_insert_law :: "crates \<Rightarrow> bool" where
  "typed_insert_law E \<longleftrightarrow>
     (\<forall>h n. c_content_length E (c_insert_content_length E n h) = Inr (Some n)
        \<and> c_transfer_encoding E (c_insert_content_length E n h) = c_transfer_encoding E h
        \<and> c_connection E (c_insert_content_length E n h) = c_connection E h)
   \<and> (\<forall>h. c_transfer_encoding E (c_insert_te_chunked E h) = Inr (Some True)
        \<and> c_content_length E (c_insert_te_chunked E h) = c_content_length E h
        \<and> c_connection E (c_insert_te_chunked E h) = c_connection E h)
   \<and> (\<forall>h. connection_has E ''close'' (c_insert_connection_close E h)
        \<and> c_content_length E (c_insert_connection_close E h) = c_content_length E h
        \<and> c_transfer_encoding E (c_insert_connection_close E h) = c_transfer_encoding E h)"

text \<open>\<^verbatim>\<open>HeaderMap::remove\<close> of one header leaves the typed view of the others unchanged.\<close>

definition remove_te_law :: "crates \<Rightarrow> bool" where
  "remove_te_law E \<longleftrightarrow>
     (\<forall>h. c_transfer_encoding E (c_remove E ''transfer-encoding'' h) = Inr None
        \<and> c_content_length E (c_remove E ''transfer-encoding'' h) = c_content_length E h
        \<and> c_connection E (c_remove E ''transfer-encoding'' h) = c_connection E h)"

text \<open>An empty \<^verbatim>\<open>HeaderMap\<close> has no typed headers.\<close>

definition empty_headers_law :: "crates \<Rightarrow> bool" where
  "empty_headers_law E \<longleftrightarrow> c_transfer_encoding E [] = Inr None \<and> c_content_length E [] = Inr None"

text \<open>A \<^verbatim>\<open>HeaderMap\<close> with nothing but the date has no other typed header.\<close>

definition date_law :: "crates \<Rightarrow> bool" where
  "date_law E \<longleftrightarrow> typed_get (c_date E []) = None \<and>
     (\<forall>now. c_transfer_encoding E (c_insert_date E now []) = Inr None
        \<and> c_content_length E (c_insert_date E now []) = Inr None
        \<and> c_connection E (c_insert_date E now []) = Inr None)"

end
