(* ===== verification/Iterators.thy ===== *)
theory Iterators
  imports Touche_Prelude
begin

text \<open>
  The contract of \<^verbatim>\<open>std::iter::Iterator\<close> as the library uses it.  \<open>nxt\<close> is \<^verbatim>\<open>next\<close>; \<open>collect\<close>
  is the list of everything it yields before its first \<^verbatim>\<open>None\<close>, with the iterator's state at
  that point.  The library has three implementations (\<^verbatim>\<open>ChunkedReader\<close>, the boxed iterator
  inside a \<^verbatim>\<open>Body\<close> and \<^verbatim>\<open>ChunkIterator\<close>); each interprets the locale in its own theory.
\<close>

locale draining_iterator =
  fixes nxt :: "'i \<Rightarrow> 'x option \<times> 'i"
    and collect :: "'i \<Rightarrow> 'x list \<times> 'i"
  assumes collect_None: "nxt i = (None, i') \<Longrightarrow> collect i = ([], i')"
    and collect_Some: "nxt i = (Some x, i') \<Longrightarrow> collect i = (x # fst (collect i'), snd (collect i'))"
begin

lemma collect_NilD: "collect i = ([], j) \<Longrightarrow> nxt i = (None, j)"
proof (cases "nxt i")
  case (Pair r i')
  assume "collect i = ([], j)"
  with Pair show ?thesis
    by (cases r) (auto dest: collect_None collect_Some)
qed

lemma collect_ConsD:
  assumes "collect i = (x # xs, j)"
  obtains i' where "nxt i = (Some x, i')" and "collect i' = (xs, j)"
proof (cases "nxt i")
  case (Pair r i')
  with assms obtain "r = Some x" "fst (collect i') = xs" "snd (collect i') = j"
    by (cases r) (auto dest: collect_None collect_Some)
  with Pair that show ?thesis by (metis prod.collapse)
qed

text \<open>
  A \<^verbatim>\<open>for\<close> loop over the iterator with loop body \<open>f\<close> is a fold over the collected list: any
  \<open>loop\<close> that unfolds as the \<^verbatim>\<open>for\<close> statement does computes the left fold.
\<close>

lemma for_loop_fold:
  assumes stop: "\<And>i i' a. nxt i = (None, i') \<Longrightarrow> loop i a = (a, i')"
    and step: "\<And>i i' x a. nxt i = (Some x, i') \<Longrightarrow> loop i a = loop i' (f x a)"
  shows "collect i = (xs, j) \<Longrightarrow> loop i a = (fold f xs a, j)"
proof (induction xs arbitrary: i a)
  case Nil
  then show ?case by (simp add: stop collect_NilD)
next
  case (Cons x xs)
  from Cons.prems obtain i' where "nxt i = (Some x, i')" "collect i' = (xs, j)"
    by (rule collect_ConsD)
  with Cons.IH [of i'] show ?case by (simp add: step)
qed

end

end
