(* ===== verification/Chunked_Reader.thy ===== *)
theory Chunked_Reader
  imports Crates Iterators
begin

text \<open>
  \<^verbatim>\<open>ChunkedReader\<close> of \<^verbatim>\<open>src/request.rs\<close>: the iterator that decodes a chunked body from a
  buffered source.  \<open>chunked_next\<close> is its \<^verbatim>\<open>next\<close>; the source it returns is where the next
  call continues.
\<close>

section \<open>The decoder\<close>

text \<open>
  The loop of \<^verbatim>\<open>next\<close>.  \<open>buf\<close> is the line buffer, which keeps growing while the size line is
  incomplete; every \<^verbatim>\<open>.ok()?\<close> turns a read error into the end of the iteration.
\<close>

function chunked_loop :: "crates \<Rightarrow> bytes \<Rightarrow> stream \<Rightarrow> bytes option \<times> stream" where
  "chunked_loop E buf s =
     (case read_until LF buf s of
        (Ok n, buf', s') \<Rightarrow>
          if n = 0 then (None, s')
          else (case c_parse_chunk_size E buf' of
              Complete pos sz \<Rightarrow>
                if sz = 0 then (None, s')
                else (case read_exact sz s' of
                    (Ok chunk, s'') \<Rightarrow>
                      (case read_until LF buf' s'' of
                         (Ok m, buf'', s''') \<Rightarrow> (Some chunk, s''')
                       | (r, buf'', s''') \<Rightarrow> (None, s'''))
                  | (r, s'') \<Rightarrow> (None, s''))
            | Partial \<Rightarrow> chunked_loop E buf' s'
            | InvalidChunkSize \<Rightarrow> (None, s'))
      | (r, buf', s') \<Rightarrow> (None, s'))"
  by pat_completeness auto
termination
  by (relation "measure (\<lambda>(E, buf, s). stream_size s)") (auto dest: read_until_less [OF sym])

declare chunked_loop.simps [simp del]

definition chunked_next :: "crates \<Rightarrow> stream \<Rightarrow> bytes option \<times> stream" where
  "chunked_next E s = chunked_loop E [] s"

lemma chunked_loop_facts:
  "chunked_loop E buf s = (r, s') \<Longrightarrow>
     stream_size s' \<le> stream_size s \<and>
     (\<forall>c. r = Some c \<longrightarrow> c \<noteq> [] \<and> stream_size s' < stream_size s)"
proof (induction E buf s arbitrary: r s' rule: chunked_loop.induct)
  case (1 E buf s)
  obtain r1 b1 s1 where line: "read_until LF buf s = (r1, b1, s1)"
    by (metis prod_cases3)
  show ?case
  proof (cases "\<exists>n. r1 = Ok n \<and> n \<noteq> 0")
    case False
    with "1.prems" line show ?thesis
      by (cases r1) (auto simp: chunked_loop.simps [of E buf s] dest: read_until_size)
  next
    case True
    then obtain n where n: "r1 = Ok n" "n \<noteq> 0" by blast
    with line have less: "stream_size s1 < stream_size s" by (auto dest: read_until_less)
    show ?thesis
    proof (cases "c_parse_chunk_size E b1")
      case (Complete pos sz)
      with "1.prems" line n less show ?thesis
        by (auto simp: chunked_loop.simps [of E buf s] split: if_splits prod.splits res.splits
            dest!: read_exact_facts read_until_size)
    next
      case Partial
      with "1.prems" line n have "chunked_loop E b1 s1 = (r, s')"
        by (simp add: chunked_loop.simps [of E buf s])
      from "1.IH" [OF line [symmetric] n(1) refl n(2) Partial this] n less show ?thesis by auto
    next
      case InvalidChunkSize
      with "1.prems" line n less show ?thesis
        by (auto simp: chunked_loop.simps [of E buf s])
    qed
  qed
qed

lemma chunked_next_size: "chunked_next E s = (r, s') \<Longrightarrow> stream_size s' \<le> stream_size s"
  unfolding chunked_next_def by (drule chunked_loop_facts) simp

lemma chunked_next_less: "chunked_next E s = (Some c, s') \<Longrightarrow> stream_size s' < stream_size s"
  unfolding chunked_next_def by (drule chunked_loop_facts) simp

lemma chunked_next_nonempty: "chunked_next E s = (Some c, s') \<Longrightarrow> c \<noteq> []"
  unfolding chunked_next_def by (drule chunked_loop_facts) simp

text \<open>Running the iterator to its end.\<close>

function chunked_collect :: "crates \<Rightarrow> stream \<Rightarrow> bytes list \<times> stream" where
  "chunked_collect E s =
     (case chunked_next E s of
        (None, s') \<Rightarrow> ([], s')
      | (Some c, s') \<Rightarrow> (case chunked_collect E s' of (cs, s'') \<Rightarrow> (c # cs, s'')))"
  by pat_completeness auto
termination
  by (relation "measure (\<lambda>(E, s). stream_size s)") (auto simp: chunked_next_less [OF sym])

declare chunked_collect.simps [simp del]

interpretation chunked: draining_iterator "chunked_next E" "chunked_collect E" for E
  by unfold_locales (simp_all add: chunked_collect.simps split: prod.split)

section \<open>The wire format\<close>

text \<open>
  The chunked coding as RFC 9112 writes it: each chunk is its size in hexadecimal, a line
  end, the data and a line end.  This is the reference against which both the decoder and
  the writers of requests and responses are compared.
\<close>

definition chunk_frame :: "bytes \<Rightarrow> bytes" where
  "chunk_frame c = hex (length c) @ crlf @ c @ crlf"

definition last_chunk :: bytes where
  "last_chunk = hex 0 @ crlf"

lemma hex_0: "hex 0 = ''0''"
  by code_simp

text \<open>A size line is what \<open>read_until\<close> stops at: hexadecimal digits contain no line feed.\<close>

lemma upto_delim_size_line [simp]: "upto_delim LF (hex n @ crlf @ rest) = hex n @ crlf"
  by (simp add: upto_delim_append crlf_def)

lemma upto_delim_crlf [simp]: "upto_delim LF (crlf @ rest) = crlf"
  by (simp add: crlf_def)

text \<open>One frame at the front of the source is decoded as its data, exactly.\<close>

lemma chunked_next_frame:
  assumes law: "chunk_size_law E" and q: "quiet s" and c: "c \<noteq> []" "length c < 2 ^ 64"
    and bs: "bytes_of s = chunk_frame c @ rest"
  shows "chunked_next E s = (Some c, advance (length (chunk_frame c)) s)"
proof -
  define n where "n = length (hex (length c) @ crlf)"
  let ?s1 = "advance n s" and ?s2 = "advance (length c) (advance n s)"
  have q1: "quiet ?s1" and q2: "quiet ?s2" using q by simp_all
  have b1: "bytes_of ?s1 = c @ crlf @ rest"
    using q by (simp add: bs chunk_frame_def n_def)
  then have b2: "bytes_of ?s2 = crlf @ rest"
    using q1 by simp
  have "upto_delim LF (bytes_of s) = hex (length c) @ crlf"
    by (simp add: bs chunk_frame_def)
  then have line: "read_until LF [] s = (Ok n, hex (length c) @ crlf, ?s1)"
    using read_until_quiet [OF q, of LF "[]"] by (simp add: n_def)
  have data: "read_exact (length c) ?s1 = (Ok c, ?s2)"
    using read_exact_quiet [OF q1, of "length c"] by (simp add: b1)
  have eol: "read_until LF buf ?s2 = (Ok 2, buf @ crlf, advance 2 ?s2)" for buf
    using read_until_quiet [OF q2, of LF buf] by (simp add: b2)
  have psz: "c_parse_chunk_size E (hex (length c) @ crlf) = Complete n (length c)"
    using law c(2) by (simp add: chunk_size_law_def n_def)
  have "advance 2 ?s2 = advance (length (chunk_frame c)) s"
    using q by (simp add: advance_advance chunk_frame_def n_def add.commute add.left_commute)
  moreover have "n \<noteq> 0" by (simp add: n_def)
  ultimately show ?thesis
    using c(1) by (simp add: chunked_next_def chunked_loop.simps [of E "[]" s] line psz data eol)
qed

text \<open>The last chunk ends the iteration and leaves the source right behind its line.\<close>

lemma chunked_next_last:
  assumes law: "chunk_size_law E" and q: "quiet s" and bs: "bytes_of s = last_chunk @ rest"
  shows "chunked_next E s = (None, advance (length last_chunk) s)"
proof -
  have "upto_delim LF (bytes_of s) = last_chunk"
    by (simp add: bs last_chunk_def)
  moreover have "c_parse_chunk_size E last_chunk = Complete (length last_chunk) 0"
    using law by (simp add: chunk_size_law_def last_chunk_def)
  ultimately show ?thesis
    using q by (simp add: chunked_next_def chunked_loop.simps [of E "[]" s] stream_simps last_chunk_def)
qed

lemma chunked_collect_frames:
  assumes law: "chunk_size_law E"
  shows "quiet s \<Longrightarrow> \<forall>c \<in> set cs. c \<noteq> [] \<and> length c < 2 ^ 64 \<Longrightarrow>
    bytes_of s = concat (map chunk_frame cs) @ last_chunk @ rest \<Longrightarrow>
    chunked_collect E s = (cs, advance (length (concat (map chunk_frame cs) @ last_chunk)) s)"
proof (induction cs arbitrary: s)
  case Nil
  then have "chunked_next E s = (None, advance (length last_chunk) s)"
    by (intro chunked_next_last [OF law]) auto
  then show ?case by (simp add: chunked_collect.simps [of E s])
next
  case (Cons c cs)
  let ?n = "length (chunk_frame c)"
  from Cons.prems have next_s: "chunked_next E s = (Some c, advance ?n s)"
    by (intro chunked_next_frame [OF law, where rest = "concat (map chunk_frame cs) @ last_chunk @ rest"]) auto
  have "bytes_of (advance ?n s) = concat (map chunk_frame cs) @ last_chunk @ rest"
    using Cons.prems by simp
  with Cons.prems have "chunked_collect E (advance ?n s) =
      (cs, advance (length (concat (map chunk_frame cs) @ last_chunk)) (advance ?n s))"
    by (intro Cons.IH) auto
  with next_s Cons.prems(1) show ?case
    by (simp add: chunked_collect.simps [of E s] advance_advance add.assoc add.left_commute add.commute)
qed

end
