(* ===== verification/Body.thy ===== *)
theory Body
  imports Chunked_Reader
begin

text \<open>
  \<^verbatim>\<open>src/body.rs\<close>: the \<^verbatim>\<open>Body\<close> type that requests are received with and responses are mostly
  built from, its sending half (\<^verbatim>\<open>BodyChannel\<close>), and the two ways to consume it piecewise
  (\<^verbatim>\<open>BodyReader\<close>, \<^verbatim>\<open>ChunkIterator\<close>).

  A body may own the source it reads from, for instance the connection's reader.  Operations
  that consume or drop a body therefore also return that source (\<^verbatim>\<open>Some s\<close>) in the state in
  which its next owner finds it; this is what the request pipeline hands on.
\<close>

section \<open>Data\<close>

datatype chunk = Data bytes | Trailers header_map

text \<open>
  \<^verbatim>\<open>Box<dyn Iterator<Item = io::Result<Chunk>>>\<close>: the items of a collection or of a channel
  whose senders are gone, or the decoder of a chunked message.
\<close>

datatype iter =
    Items "(io_error + chunk) list"
  | ChunkedReader stream

datatype body_inner =
    Empty
  | Buffered bytes
  | Iter iter
  | Reader stream "nat option"

datatype body = Body "body_inner option"

text \<open>
  \<^verbatim>\<open>BodyReaderInner\<close>.  The two readers that \<^verbatim>\<open>Box<dyn Read>\<close> holds here are a plain source and
  one behind \<^verbatim>\<open>Read::take\<close>, which counts down its limit.
\<close>

datatype body_reader =
    RBuffered bytes
  | RIter iter "bytes option"
  | RReader stream "nat option"

datatype chunk_inner =
    CSingle bytes
  | CIter iter
  | CReader stream "nat option"

datatype chunk_iterator = ChunkIterator "chunk_inner option"

section \<open>Construction\<close>

definition body_default :: body where
  "body_default = Body None"

definition body_empty :: body where
  "body_empty = Body (Some Empty)"

definition body_from_iter :: "chunk list \<Rightarrow> body" where
  "body_from_iter chunks = Body (Some (Iter (Items (map Inr chunks))))"

definition body_from_reader :: "stream \<Rightarrow> nat option \<Rightarrow> body" where
  "body_from_reader reader len = Body (Some (Reader reader len))"

definition body_from_vec :: "bytes \<Rightarrow> body" where
  "body_from_vec bs = Body (Some (Buffered bs))"

definition body_from_slice :: "bytes \<Rightarrow> body" where
  "body_from_slice bs = body_from_vec bs"

definition body_from_str :: "string \<Rightarrow> body" where
  "body_from_str bs = body_from_vec bs"

definition body_from_string :: "string \<Rightarrow> body" where
  "body_from_string bs = body_from_vec bs"

text \<open>
  \<^verbatim>\<open>std::fs::File\<close> as the code sees it: what \<^verbatim>\<open>metadata()\<close> answers (whether it is a regular
  file, and its length) and the source that reading it gives.
\<close>

record os_file =
  f_metadata :: "io_error + bool \<times> nat"
  f_content :: stream

definition body_try_from_file :: "os_file \<Rightarrow> io_error + body" where
  "body_try_from_file f =
     (case f_metadata f of
        Inr (is_file, len) \<Rightarrow>
          if is_file then Inr (body_from_reader (f_content f) (Some len))
          else Inl (Other ''not a file'')
      | Inl err \<Rightarrow> Inl err)"

definition body_try_from_path :: "(string \<Rightarrow> io_error + os_file) \<Rightarrow> string \<Rightarrow> io_error + body" where
  "body_try_from_path fs path =
     (case fs path of Inl err \<Rightarrow> Inl err | Inr f \<Rightarrow> body_try_from_file f)"

section \<open>The sending half of a channel\<close>

text \<open>
  The state of the \<^verbatim>\<open>mpsc\<close> channel behind \<^verbatim>\<open>Body::channel\<close>: what has been sent, and whether
  the receiving body still exists.
\<close>

record body_channel =
  ch_sent :: "(io_error + chunk) list"
  ch_open :: bool

definition new_channel :: body_channel where
  "new_channel = \<lparr>ch_sent = [], ch_open = True\<rparr>"

text \<open>The body of the pair, once every sender is gone (until then its \<^verbatim>\<open>next\<close> waits).\<close>

definition channel_body :: "body_channel \<Rightarrow> body" where
  "channel_body ch = Body (Some (Iter (Items (ch_sent ch))))"

definition mpsc_send :: "(io_error + chunk) \<Rightarrow> (body_channel, unit) act" where
  "mpsc_send x ch =
     (if ch_open ch then (Ok (), ch\<lparr>ch_sent := ch_sent ch @ [x]\<rparr>)
      else (Err (Other ''body closed''), ch))"

definition channel_send :: "bytes \<Rightarrow> (body_channel, unit) act" where
  "channel_send data = mpsc_send (Inr (Data data))"

definition channel_send_trailers :: "header_map \<Rightarrow> (body_channel, unit) act" where
  "channel_send_trailers trailers = mpsc_send (Inr (Trailers trailers))"

text \<open>The boxed error of \<^verbatim>\<open>send_trailer\<close>: a failed conversion or the error of the send.\<close>

datatype trailer_error = BadName | BadValue | SendFailed io_error

definition channel_send_trailer ::
  "crates \<Rightarrow> string \<Rightarrow> bytes \<Rightarrow> body_channel \<Rightarrow> (trailer_error + unit) \<times> body_channel" where
  "channel_send_trailer E name val ch =
     (case c_header_name E name of
        None \<Rightarrow> (Inl BadName, ch)
      | Some k \<Rightarrow>
          (case c_header_value E val of
             None \<Rightarrow> (Inl BadValue, ch)
           | Some v \<Rightarrow>
               (case channel_send_trailers (c_insert E k v []) ch of
                  (Err e, ch') \<Rightarrow> (Inl (SendFailed e), ch')
                | (_, ch') \<Rightarrow> (Inr (), ch'))))"

definition channel_abort :: "body_channel \<Rightarrow> body_channel" where
  "channel_abort ch = snd (mpsc_send (Inl (Other ''aborted'')) ch)"

section \<open>The boxed iterators\<close>

fun iter_next :: "crates \<Rightarrow> iter \<Rightarrow> (io_error + chunk) option \<times> iter" where
  "iter_next E (Items []) = (None, Items [])"
| "iter_next E (Items (x # xs)) = (Some x, Items xs)"
| "iter_next E (ChunkedReader s) =
     (case chunked_next E s of
        (Some c, s') \<Rightarrow> (Some (Inr (Data c)), ChunkedReader s')
      | (None, s') \<Rightarrow> (None, ChunkedReader s'))"

fun iter_source :: "iter \<Rightarrow> stream option" where
  "iter_source (Items xs) = None"
| "iter_source (ChunkedReader s) = Some s"

fun iter_size :: "iter \<Rightarrow> nat" where
  "iter_size (Items xs) = length xs"
| "iter_size (ChunkedReader s) = stream_size s"

lemma iter_next_less: "iter_next E it = (Some x, it') \<Longrightarrow> iter_size it' < iter_size it"
  by (induction E it rule: iter_next.induct)
    (auto split: prod.splits option.splits dest: chunked_next_less)

lemma iter_next_size: "iter_next E it = (r, it') \<Longrightarrow> iter_size it' \<le> iter_size it"
  by (induction E it rule: iter_next.induct)
    (auto split: prod.splits option.splits dest: chunked_next_size)

fun iter_collect :: "crates \<Rightarrow> iter \<Rightarrow> (io_error + chunk) list \<times> iter" where
  "iter_collect E (Items xs) = (xs, Items [])"
| "iter_collect E (ChunkedReader s) =
     (case chunked_collect E s of (cs, s') \<Rightarrow> (map (\<lambda>c. Inr (Data c)) cs, ChunkedReader s'))"

interpretation boxed: draining_iterator "iter_next E" "iter_collect E" for E
proof
  fix i i' :: iter
  assume "iter_next E i = (None, i')"
  then show "iter_collect E i = ([], i')"
    by (induction E i rule: iter_next.induct)
      (auto split: prod.splits option.splits dest: chunked.collect_None)
next
  fix i i' :: iter and x
  assume "iter_next E i = (Some x, i')"
  then show "iter_collect E i = (x # fst (iter_collect E i'), snd (iter_collect E i'))"
  proof (cases i)
    case (Items xs)
    with \<open>iter_next E i = (Some x, i')\<close> show ?thesis by (cases xs) auto
  next
    case (ChunkedReader s)
    with \<open>iter_next E i = (Some x, i')\<close> obtain c s' where
      "chunked_next E s = (Some c, s')" "x = Inr (Data c)" "i' = ChunkedReader s'"
      by (auto split: prod.splits option.splits)
    then show ?thesis
      using chunked.collect_Some [of E s c s'] ChunkedReader by (simp split: prod.split)
  qed
qed

text \<open>The \<^verbatim>\<open>filter_map\<close> that keeps data and errors and skips trailers.\<close>

fun data_result :: "io_error + chunk \<Rightarrow> (io_error + bytes) option" where
  "data_result (Inr (Data d)) = Some (Inr d)"
| "data_result (Inr (Trailers t)) = None"
| "data_result (Inl err) = Some (Inl err)"

function data_next :: "crates \<Rightarrow> iter \<Rightarrow> (io_error + bytes) option \<times> iter" where
  "data_next E it =
     (case iter_next E it of
        (None, it') \<Rightarrow> (None, it')
      | (Some x, it') \<Rightarrow> (case data_result x of Some r \<Rightarrow> (Some r, it') | None \<Rightarrow> data_next E it'))"
  by pat_completeness auto
termination
  by (relation "measure (\<lambda>(E, it). iter_size it)") (auto dest: iter_next_less [OF sym])

declare data_next.simps [simp del]

definition data_collect :: "crates \<Rightarrow> iter \<Rightarrow> (io_error + bytes) list \<times> iter" where
  "data_collect E it = (case iter_collect E it of (xs, it') \<Rightarrow> (List.map_filter data_result xs, it'))"

lemma data_next_less: "data_next E it = (Some x, it') \<Longrightarrow> iter_size it' < iter_size it"
proof (induction E it rule: data_next.induct)
  case (1 E it)
  obtain r i1 where step: "iter_next E it = (r, i1)" by (metis surj_pair)
  show ?case
  proof (cases r)
    case None
    with "1.prems" step show ?thesis by (simp add: data_next.simps [of E it])
  next
    case (Some y)
    with step have less: "iter_size i1 < iter_size it" by (auto dest: iter_next_less)
    show ?thesis
    proof (cases "data_result y")
      case None
      with "1.IH" [OF step [symmetric] Some None] less "1.prems" step Some None show ?thesis
        by (simp add: data_next.simps [of E it])
    next
      case (Some z)
      with "1.prems" step \<open>r = Some y\<close> less show ?thesis by (simp add: data_next.simps [of E it])
    qed
  qed
qed

lemma data_next_size: "data_next E it = (r, it') \<Longrightarrow> iter_size it' \<le> iter_size it"
proof (induction E it rule: data_next.induct)
  case (1 E it)
  obtain q i1 where step: "iter_next E it = (q, i1)" by (metis surj_pair)
  then have le: "iter_size i1 \<le> iter_size it" by (rule iter_next_size)
  show ?case
  proof (cases "\<exists>y. q = Some y \<and> data_result y = None")
    case True
    then obtain y where y: "q = Some y" "data_result y = None" by blast
    with "1.IH" [OF step [symmetric] y] le "1.prems" step show ?thesis
      by (simp add: data_next.simps [of E it])
  next
    case False
    with le "1.prems" step show ?thesis
      by (auto simp: data_next.simps [of E it] split: option.splits)
  qed
qed

lemma data_next_collect:
  "(data_collect E it = ([], j) \<longrightarrow> data_next E it = (None, j)) \<and>
   (\<forall>y ys. data_collect E it = (y # ys, j) \<longrightarrow>
      (\<exists>i1. data_next E it = (Some y, i1) \<and> data_collect E i1 = (ys, j)))"
proof (induction E it rule: data_next.induct)
  case (1 E it)
  show ?case
  proof (cases "fst (iter_collect E it)")
    case Nil
    then obtain k where "iter_collect E it = ([], k)" by (metis prod.collapse)
    moreover from this have "iter_next E it = (None, k)" by (rule boxed.collect_NilD)
    ultimately show ?thesis
      by (simp add: data_collect_def data_next.simps [of E it] List.map_filter_simps)
  next
    case (Cons z zs)
    then obtain k where c: "iter_collect E it = (z # zs, k)" by (metis prod.collapse)
    then obtain i1 where i1: "iter_next E it = (Some z, i1)" "iter_collect E i1 = (zs, k)"
      by (rule boxed.collect_ConsD)
    show ?thesis
    proof (cases "data_result z")
      case None
      with "1.IH" [OF i1(1) [symmetric] refl None] c i1 show ?thesis
        by (simp add: data_collect_def data_next.simps [of E it] List.map_filter_simps)
    next
      case (Some y)
      with c i1 show ?thesis
        by (simp add: data_collect_def data_next.simps [of E it] List.map_filter_simps)
    qed
  qed
qed

interpretation data: draining_iterator "data_next E" "data_collect E" for E
proof
  fix i i' :: iter
  assume "data_next E i = (None, i')"
  with data_next_collect [of E i] show "data_collect E i = ([], i')"
    by (cases "data_collect E i"; cases "fst (data_collect E i)") auto
next
  fix i i' :: iter and x
  assume "data_next E i = (Some x, i')"
  with data_next_collect [of E i]
  show "data_collect E i = (x # fst (data_collect E i'), snd (data_collect E i'))"
    by (cases "data_collect E i"; cases "fst (data_collect E i)") auto
qed

section \<open>Length\<close>

fun body_len :: "body \<Rightarrow> nat option" where
  "body_len (Body (Some Empty)) = Some 0"
| "body_len (Body (Some (Buffered bs))) = Some (length bs)"
| "body_len (Body (Some (Iter _))) = None"
| "body_len (Body (Some (Reader _ (Some len)))) = Some len"
| "body_len (Body (Some (Reader _ None))) = None"
| "body_len (Body None) = None"

section \<open>Reading\<close>

text \<open>\<^verbatim>\<open>into_reader\<close>; on an iterator it already takes the first block.\<close>

fun into_reader :: "crates \<Rightarrow> body \<Rightarrow> body_reader res" where
  "into_reader E (Body None) = Panic"
| "into_reader E (Body (Some Empty)) = Ok (RBuffered [])"
| "into_reader E (Body (Some (Buffered bs))) = Ok (RBuffered bs)"
| "into_reader E (Body (Some (Iter chunks))) =
     (case data_next E chunks of
        (None, chunks') \<Rightarrow> Ok (RIter chunks' None)
      | (Some (Inr d), chunks') \<Rightarrow> Ok (RIter chunks' (Some d))
      | (Some (Inl err), chunks') \<Rightarrow> Ok (RIter chunks' (Some [])))"
| "into_reader E (Body (Some (Reader s (Some len)))) = Ok (RReader s (Some len))"
| "into_reader E (Body (Some (Reader s None))) = Ok (RReader s None)"

definition body_reader_from_body :: "crates \<Rightarrow> body \<Rightarrow> body_reader res" where
  "body_reader_from_body E b = into_reader E b"

definition body_reader_from_reader :: "stream \<Rightarrow> body_reader" where
  "body_reader_from_reader s = RReader s None"

definition body_reader_from_vec :: "bytes \<Rightarrow> body_reader" where
  "body_reader_from_vec bs = RBuffered bs"

definition body_reader_from_iter :: "bytes list \<Rightarrow> body_reader" where
  "body_reader_from_iter blocks =
     (case blocks of
        [] \<Rightarrow> RIter (Items []) None
      | b # bs \<Rightarrow> RIter (Items (map (\<lambda>d. Inr (Data d)) bs)) (Some b))"

text \<open>
  The \<^verbatim>\<open>while let Some(cursor) = leftover\<close> loop of \<^verbatim>\<open>BodyReader::read\<close>: an exhausted block is
  replaced by the next one, and an error from the iterator ends the reading.
\<close>

function iter_read :: "crates \<Rightarrow> nat \<Rightarrow> iter \<Rightarrow> bytes option \<Rightarrow> bytes \<times> iter \<times> bytes option" where
  "iter_read E n it None = ([], it, None)"
| "iter_read E n it (Some cursor) =
     (if take n cursor \<noteq> [] then (take n cursor, it, Some (drop n cursor))
      else case data_next E it of
        (Some (Inr d), it') \<Rightarrow> iter_read E n it' (Some d)
      | (Some (Inl err), it') \<Rightarrow> ([], it', None)
      | (None, it') \<Rightarrow> ([], it', None))"
  by pat_completeness auto
termination
  by (relation "measure (\<lambda>(E, n, it, c). iter_size it)") (auto dest: data_next_less [OF sym])

declare iter_read.simps(2) [simp del]

fun body_read :: "crates \<Rightarrow> nat \<Rightarrow> body_reader \<Rightarrow> bytes res \<times> body_reader" where
  "body_read E n (RBuffered bs) = (Ok (take n bs), RBuffered (drop n bs))"
| "body_read E n (RReader s None) = (case read n s of (r, s') \<Rightarrow> (r, RReader s' None))"
| "body_read E n (RReader s (Some l)) =
     (case take_read n l s of (r, l', s') \<Rightarrow> (r, RReader s' (Some l')))"
| "body_read E n (RIter it leftover) =
     (case iter_read E n it leftover of (bs, it', leftover') \<Rightarrow> (Ok bs, RIter it' leftover'))"

text \<open>The source a reader owns, which its next owner gets when the reader is dropped.\<close>

fun reader_source :: "body_reader \<Rightarrow> stream option" where
  "reader_source (RBuffered bs) = None"
| "reader_source (RIter it leftover) = iter_source it"
| "reader_source (RReader s l) = Some s"

section \<open>Whole bodies\<close>

text \<open>\<^verbatim>\<open>collect::<io::Result<Vec<_>>>()\<close>: stops at the first error.\<close>

function collect_data :: "crates \<Rightarrow> iter \<Rightarrow> bytes list res \<times> iter" where
  "collect_data E it =
     (case data_next E it of
        (None, it') \<Rightarrow> (Ok [], it')
      | (Some (Inl err), it') \<Rightarrow> (Err err, it')
      | (Some (Inr d), it') \<Rightarrow>
          (case collect_data E it' of
             (Ok ds, it'') \<Rightarrow> (Ok (d # ds), it'')
           | (r, it'') \<Rightarrow> (r, it'')))"
  by pat_completeness auto
termination
  by (relation "measure (\<lambda>(E, it). iter_size it)") (auto dest: data_next_less [OF sym])

declare collect_data.simps [simp del]

fun into_bytes :: "crates \<Rightarrow> body \<Rightarrow> bytes res \<times> stream option" where
  "into_bytes E (Body None) = (Panic, None)"
| "into_bytes E (Body (Some Empty)) = (Ok [], None)"
| "into_bytes E (Body (Some (Buffered bs))) = (Ok bs, None)"
| "into_bytes E (Body (Some (Iter chunks))) =
     (case collect_data E chunks of
        (Ok ds, chunks') \<Rightarrow> (Ok (concat ds), iter_source chunks')
      | (Err err, chunks') \<Rightarrow> (Err err, iter_source chunks')
      | (Panic, chunks') \<Rightarrow> (Panic, iter_source chunks'))"
| "into_bytes E (Body (Some (Reader s (Some len)))) =
     (case take_read_to_end len s of (r, s') \<Rightarrow> (r, Some s'))"
| "into_bytes E (Body (Some (Reader s None))) =
     (case read_to_end s of (r, s') \<Rightarrow> (r, Some s'))"

text \<open>
  \<^verbatim>\<open>Drop for Body\<close>: a reader is read up (\<^verbatim>\<open>io::copy\<close> into \<^verbatim>\<open>io::sink()\<close>) before its source
  is handed on; every other body is simply dropped.
\<close>

fun drop_body :: "body \<Rightarrow> stream option" where
  "drop_body (Body (Some (Reader s (Some len)))) = Some (snd (take_read_to_end len s))"
| "drop_body (Body (Some (Reader s None))) = Some (snd (read_to_end s))"
| "drop_body (Body (Some (Iter it))) = iter_source it"
| "drop_body (Body (Some Empty)) = None"
| "drop_body (Body (Some (Buffered bs))) = None"
| "drop_body (Body None) = None"

section \<open>Chunks\<close>

fun into_chunks :: "body \<Rightarrow> chunk_iterator res" where
  "into_chunks (Body None) = Panic"
| "into_chunks (Body (Some Empty)) = Ok (ChunkIterator None)"
| "into_chunks (Body (Some (Buffered bs))) = Ok (ChunkIterator (Some (CSingle bs)))"
| "into_chunks (Body (Some (Iter chunks))) = Ok (ChunkIterator (Some (CIter chunks)))"
| "into_chunks (Body (Some (Reader s len))) = Ok (ChunkIterator (Some (CReader s len)))"

definition chunk_iterator_from_reader :: "stream \<Rightarrow> nat option \<Rightarrow> chunk_iterator" where
  "chunk_iterator_from_reader s len = ChunkIterator (Some (CReader s len))"

definition CHUNK_BUF :: nat where "CHUNK_BUF = 8 * 1024"

text \<open>
  \<^verbatim>\<open>ChunkIterator::next\<close>: the item, the iterator, and the source that this call dropped.
\<close>

fun chunk_next ::
  "crates \<Rightarrow> chunk_iterator \<Rightarrow> (io_error + chunk) option \<times> chunk_iterator \<times> stream option" where
  "chunk_next E (ChunkIterator None) = (None, ChunkIterator None, None)"
| "chunk_next E (ChunkIterator (Some (CSingle bs))) =
     (Some (Inr (Data bs)), ChunkIterator None, None)"
| "chunk_next E (ChunkIterator (Some (CIter it))) =
     (case iter_next E it of
        (Some (Inr c), it') \<Rightarrow> (Some (Inr c), ChunkIterator (Some (CIter it')), None)
      | (Some (Inl err), it') \<Rightarrow> (None, ChunkIterator None, iter_source it')
      | (None, it') \<Rightarrow> (None, ChunkIterator None, iter_source it'))"
| "chunk_next E (ChunkIterator (Some (CReader s (Some len)))) =
     (case read CHUNK_BUF s of
        (Ok bs, s') \<Rightarrow>
          if bs = [] then (None, ChunkIterator None, Some s')
          else (case checked_sub len (length bs) of
              Some rem \<Rightarrow>
                if 0 < rem
                then (Some (Inr (Data bs)), ChunkIterator (Some (CReader s' (Some rem))), None)
                else (Some (Inr (Data bs)), ChunkIterator None, Some s')
            | None \<Rightarrow> (Some (Inr (Data bs)), ChunkIterator None, Some s'))
      | (Err err, s') \<Rightarrow> (Some (Inl err), ChunkIterator None, Some s')
      | (Panic, s') \<Rightarrow> (None, ChunkIterator None, Some s'))"
| "chunk_next E (ChunkIterator (Some (CReader s None))) =
     (case read CHUNK_BUF s of
        (Ok bs, s') \<Rightarrow>
          if bs = [] then (None, ChunkIterator None, Some s')
          else (Some (Inr (Data bs)), ChunkIterator (Some (CReader s' None)), None)
      | (Err err, s') \<Rightarrow> (Some (Inl err), ChunkIterator None, Some s')
      | (Panic, s') \<Rightarrow> (None, ChunkIterator None, Some s'))"

section \<open>Debug\<close>

text \<open>\<^verbatim>\<open>Debug\<close> of a \<^verbatim>\<open>Vec<u8>\<close> and of a body, in the compact form.\<close>

fun debug_bytes :: "bytes \<Rightarrow> string" where
  "debug_bytes [] = []"
| "debug_bytes [b] = dec (of_char b)"
| "debug_bytes (b # bs) = dec (of_char b) @ '', '' @ debug_bytes bs"

fun body_debug :: "body \<Rightarrow> string" where
  "body_debug (Body (Some Empty)) = ''Body(\"empty\")''"
| "body_debug (Body None) = ''Body(\"empty\")''"
| "body_debug (Body (Some (Buffered bs))) = ''Body(['' @ debug_bytes bs @ ''])''"
| "body_debug (Body (Some (Iter it))) = ''Body(\"chunked\")''"
| "body_debug (Body (Some (Reader s len))) = ''Body(\"streaming\")''"

end
