(* ===== verification/Readers.thy ===== *)
theory Readers
  imports Body
begin

text \<open>
  Reading a body piecewise.  The contract of \<^verbatim>\<open>std::io::Read\<close> is the locale \<open>byte_reader\<close>; it is
  interpreted on plain sources, on \<^verbatim>\<open>Read::take\<close> and on \<^verbatim>\<open>BodyReader\<close>.  \<open>io_copy\<close> is
  \<^verbatim>\<open>std::io::copy\<close> from a \<^verbatim>\<open>BodyReader\<close> to a writer, which the response and request writers
  use for large bodies.
\<close>

section \<open>The contract of Read\<close>

text \<open>A sequence of reads with buffers of the given sizes; the bytes are joined.\<close>

fun read_many :: "(nat \<Rightarrow> 'r \<Rightarrow> bytes res \<times> 'r) \<Rightarrow> nat list \<Rightarrow> 'r \<Rightarrow> bytes res \<times> 'r" where
  "read_many rd [] r = (Ok [], r)"
| "read_many rd (n # ns) r =
     (case rd n r of
        (Ok bs, r') \<Rightarrow>
          (case read_many rd ns r' of
             (Ok rest, r'') \<Rightarrow> (Ok (bs @ rest), r'')
           | (x, r'') \<Rightarrow> (x, r''))
      | (x, r') \<Rightarrow> (x, r'))"

text \<open>
  On a \<open>good\<close> reader a read with a non-empty buffer succeeds, delivers the next bytes of the
  reader's \<open>content\<close>, and delivers none only at its end.
\<close>

locale byte_reader =
  fixes rd :: "nat \<Rightarrow> 'r \<Rightarrow> bytes res \<times> 'r"
    and content :: "'r \<Rightarrow> bytes"
    and good :: "'r \<Rightarrow> bool"
  assumes rd_good: "good r \<Longrightarrow> 0 < n \<Longrightarrow>
    \<exists>bs r'. rd n r = (Ok bs, r') \<and> good r' \<and> content r = bs @ content r' \<and> length bs \<le> n \<and>
      (bs = [] \<longrightarrow> content r = [])"
begin

lemma rd_goodE:
  assumes "good r" "0 < n"
  obtains bs r' where "rd n r = (Ok bs, r')" "good r'" "content r = bs @ content r'"
    "length bs \<le> n" "bs = [] \<Longrightarrow> content r = []"
  using rd_good [OF assms] by blast

lemma read_many_good:
  "good r \<Longrightarrow> \<forall>n \<in> set ns. 0 < n \<Longrightarrow>
     \<exists>bs r'. read_many rd ns r = (Ok bs, r') \<and> good r' \<and> content r = bs @ content r' \<and>
       (length (content r) < length ns \<longrightarrow> content r' = []) \<and> length bs \<le> sum_list ns"
proof (induction ns arbitrary: r)
  case Nil
  then show ?case by simp
next
  case (Cons n ns)
  from Cons.prems obtain bs r1 where r1: "rd n r = (Ok bs, r1)" "good r1"
    "content r = bs @ content r1" "length bs \<le> n" "bs = [] \<Longrightarrow> content r = []"
    by (elim rd_goodE [of r n]) simp_all
  from Cons.IH [OF r1(2)] Cons.prems obtain cs r2 where
    "read_many rd ns r1 = (Ok cs, r2)" "good r2" "content r1 = cs @ content r2"
    "length (content r1) < length ns \<longrightarrow> content r2 = []" "length cs \<le> sum_list ns"
    by auto
  with r1 show ?case by (cases bs) auto
qed

end

section \<open>Plain and limited sources\<close>

lemma read_quiet:
  assumes "quiet s" "0 < n"
  shows "\<exists>bs s'. read n s = (Ok bs, s') \<and> quiet s' \<and> bytes_of s = bs @ bytes_of s' \<and>
    length bs \<le> n \<and> (bs = [] \<longrightarrow> bytes_of s = [])"
  using assms by (cases "(n, s)" rule: read.cases) auto

interpretation source: byte_reader read bytes_of quiet
  by unfold_locales (rule read_quiet)

interpretation limited: byte_reader
  "\<lambda>n (l, s). case take_read n l s of (r, l', s') \<Rightarrow> (r, (l', s'))"
  "\<lambda>(l, s). take l (bytes_of s)" "\<lambda>(l, s). quiet s"
proof
  fix r :: "nat \<times> stream" and n :: nat
  obtain l s where r: "r = (l, s)" by force
  assume "case r of (l, s) \<Rightarrow> quiet s" "0 < n"
  then have q: "quiet s" by (simp add: r)
  show "\<exists>bs r'. (case r of (l, s) \<Rightarrow> case take_read n l s of (r, l', s') \<Rightarrow> (r, (l', s'))) = (Ok bs, r') \<and>
      (case r' of (l, s) \<Rightarrow> quiet s) \<and>
      (case r of (l, s) \<Rightarrow> take l (bytes_of s)) = bs @ (case r' of (l, s) \<Rightarrow> take l (bytes_of s)) \<and>
      length bs \<le> n \<and> (bs = [] \<longrightarrow> (case r of (l, s) \<Rightarrow> take l (bytes_of s)) = [])"
  proof (cases "l = 0")
    case True
    with r q show ?thesis by (simp add: take_read_def)
  next
    case False
    with \<open>0 < n\<close> have "0 < min n l" by simp
    from source.rd_goodE [OF q this] obtain bs s' where
      "read (min n l) s = (Ok bs, s')" "quiet s'" "bytes_of s = bs @ bytes_of s'"
      "length bs \<le> min n l" "bs = [] \<Longrightarrow> bytes_of s = []" by blast
    with False r show ?thesis by (auto simp: take_read_def)
  qed
qed

section \<open>BodyReader\<close>

text \<open>The data of an iterator up to its first error.\<close>

fun until_error :: "(io_error + bytes) list \<Rightarrow> bytes" where
  "until_error [] = []"
| "until_error (Inr d # xs) = d @ until_error xs"
| "until_error (Inl err # xs) = []"

definition iter_prefix :: "crates \<Rightarrow> iter \<Rightarrow> bytes" where
  "iter_prefix E it = until_error (fst (data_collect E it))"

lemma iter_prefix_step:
  "data_next E it = (None, it') \<Longrightarrow> iter_prefix E it = []"
  "data_next E it = (Some (Inr d), it') \<Longrightarrow> iter_prefix E it = d @ iter_prefix E it'"
  "data_next E it = (Some (Inl err), it') \<Longrightarrow> iter_prefix E it = []"
  by (auto simp: iter_prefix_def dest: data.collect_None data.collect_Some)

fun reader_content :: "crates \<Rightarrow> body_reader \<Rightarrow> bytes" where
  "reader_content E (RBuffered bs) = bs"
| "reader_content E (RIter it None) = []"
| "reader_content E (RIter it (Some c)) = c @ iter_prefix E it"
| "reader_content E (RReader s None) = bytes_of s"
| "reader_content E (RReader s (Some l)) = take l (bytes_of s)"

text \<open>Only a reader over a source can fail; an iterator's errors never surface as errors.\<close>

fun reader_good :: "body_reader \<Rightarrow> bool" where
  "reader_good (RReader s l) = quiet s"
| "reader_good _ = True"

lemma iter_read_content:
  "iter_read E n it l = (bs, it', l') \<Longrightarrow> 0 < n \<Longrightarrow>
     reader_content E (RIter it l) = bs @ reader_content E (RIter it' l') \<and> length bs \<le> n \<and>
     (bs = [] \<longrightarrow> reader_content E (RIter it l) = [])"
proof (induction E n it l rule: iter_read.induct)
  case (1 E n it)
  then show ?case by auto
next
  case (2 E n it cursor)
  show ?case
  proof (cases "take n cursor = []")
    case False
    with "2.prems" show ?thesis by (auto simp: iter_read.simps(2))
  next
    case True
    with "2.prems" have cursor: "cursor = []" by simp
    obtain x i1 where step: "data_next E it = (x, i1)" by (metis surj_pair)
    show ?thesis
    proof (cases "\<exists>d. x = Some (Inr d)")
      case True
      then obtain d where d: "x = Some (Inr d)" by blast
      with "2.prems" step cursor have "iter_read E n i1 (Some d) = (bs, it', l')"
        by (simp add: iter_read.simps(2))
      from "2.IH" [OF _ step [symmetric] d refl this "2.prems"(2)] cursor step d show ?thesis
        by (simp add: iter_prefix_step)
    next
      case False
      with "2.prems" step cursor show ?thesis
        by (auto simp: iter_read.simps(2) iter_prefix_step split: option.splits sum.splits)
    qed
  qed
qed

interpretation body: byte_reader "body_read E" "reader_content E" reader_good for E
proof
  fix r :: body_reader and n :: nat
  assume good: "reader_good r" and n: "0 < n"
  show "\<exists>bs r'. body_read E n r = (Ok bs, r') \<and> reader_good r' \<and>
      reader_content E r = bs @ reader_content E r' \<and> length bs \<le> n \<and>
      (bs = [] \<longrightarrow> reader_content E r = [])"
  proof (cases r)
    case (RBuffered bs)
    with n show ?thesis by simp
  next
    case (RIter it l)
    obtain bs it' l' where "iter_read E n it l = (bs, it', l')" by (metis prod_cases3)
    with iter_read_content [OF this n] RIter show ?thesis by auto
  next
    case (RReader s l)
    show ?thesis
    proof (cases l)
      case None
      with RReader good n show ?thesis by (auto elim!: source.rd_goodE [of s n])
    next
      case (Some k)
      with RReader good n limited.rd_good [of "(k, s)" n] show ?thesis
        by (auto split: prod.splits)
    qed
  qed
qed

section \<open>io::copy\<close>

fun reader_rank :: "body_reader \<Rightarrow> nat" where
  "reader_rank (RBuffered bs) = 0"
| "reader_rank (RIter it l) = iter_size it"
| "reader_rank (RReader s l) = stream_size s"

fun reader_rest :: "body_reader \<Rightarrow> nat" where
  "reader_rest (RBuffered bs) = length bs"
| "reader_rest (RIter it (Some c)) = length c"
| "reader_rest _ = 0"

lemma iter_read_rank:
  "iter_read E n it l = (bs, it', l') \<Longrightarrow> bs \<noteq> [] \<Longrightarrow>
     iter_size it' < iter_size it \<or>
     iter_size it' = iter_size it \<and> reader_rest (RIter it' l') < reader_rest (RIter it l)"
proof (induction E n it l rule: iter_read.induct)
  case (1 E n it)
  then show ?case by auto
next
  case (2 E n it cursor)
  show ?case
  proof (cases "take n cursor = []")
    case False
    with "2.prems" show ?thesis by (auto simp: iter_read.simps(2))
  next
    case True
    with "2.prems" obtain d i1 where step: "data_next E it = (Some (Inr d), i1)"
      and rest: "iter_read E n i1 (Some d) = (bs, it', l')"
      by (auto simp: iter_read.simps(2) split: prod.splits option.splits sum.splits)
    from True "2.IH" [OF _ step [symmetric] refl refl rest "2.prems"(2)] data_next_less [OF step]
    show ?thesis by auto
  qed
qed

lemma body_read_less:
  "body_read E n r = (Ok bs, r') \<Longrightarrow> bs \<noteq> [] \<Longrightarrow> (r', r) \<in> measures [reader_rank, reader_rest]"
  by (induction E n r rule: body_read.induct)
    (auto simp: take_read_def split: prod.splits res.splits if_splits
      dest: read_less iter_read_rank)

lemma body_read_Err_less:
  "body_read E n r = (Err e, r') \<Longrightarrow> (r', r) \<in> measures [reader_rank, reader_rest]"
  by (induction E n r rule: body_read.induct)
    (auto simp: take_read_def split: prod.splits res.splits if_splits dest: read_Err_less)

function io_copy :: "crates \<Rightarrow> body_reader \<Rightarrow> writer \<Rightarrow> nat res \<times> body_reader \<times> writer" where
  "io_copy E r w =
     (case body_read E CHUNK_BUF r of
        (Ok bs, r') \<Rightarrow>
          if bs = [] then (Ok 0, r', w)
          else (case write_all bs w of
              (Ok _, w') \<Rightarrow>
                (case io_copy E r' w' of
                   (Ok n, r'', w'') \<Rightarrow> (Ok (length bs + n), r'', w'')
                 | (x, r'', w'') \<Rightarrow> (x, r'', w''))
            | (Err err, w') \<Rightarrow> (Err err, r', w')
            | (Panic, w') \<Rightarrow> (Panic, r', w'))
      | (Err err, r') \<Rightarrow> if err = Interrupted then io_copy E r' w else (Err err, r', w)
      | (Panic, r') \<Rightarrow> (Panic, r', w))"
  by pat_completeness auto
termination
proof (relation "inv_image (measures [reader_rank, reader_rest]) (\<lambda>(E, r, w). r)", goal_cases)
  case 1
  show ?case by auto
next
  case (2 E r w x r' bs y w' u)
  then show ?case using body_read_less [of E CHUNK_BUF r bs r'] by simp
next
  case (3 E r w x r' err)
  then show ?case using body_read_Err_less [of E CHUNK_BUF r err r'] by simp
qed

declare io_copy.simps [simp del]

lemma CHUNK_BUF_pos [simp]: "0 < CHUNK_BUF"
  by (simp add: CHUNK_BUF_def)

text \<open>Copying a good reader to a healthy writer writes its content, all of it and nothing else.\<close>

lemma io_copy_good:
  "reader_good r \<Longrightarrow> w_cap w = None \<Longrightarrow>
     \<exists>r'. io_copy E r w = (Ok (length (reader_content E r)), r', w\<lparr>w_out := w_out w @ reader_content E r\<rparr>)"
proof (induction E r w rule: io_copy.induct)
  case (1 E r w)
  from body.rd_goodE [OF "1.prems"(1) CHUNK_BUF_pos, of E] obtain bs r1 where
    r1: "body_read E CHUNK_BUF r = (Ok bs, r1)" "reader_good r1"
      "reader_content E r = bs @ reader_content E r1" "bs = [] \<Longrightarrow> reader_content E r = []"
    by blast
  show ?case
  proof (cases "bs = []")
    case True
    with r1 show ?thesis by (simp add: io_copy.simps [of E r w])
  next
    case False
    let ?w = "w\<lparr>w_out := w_out w @ bs\<rparr>"
    have "write_all bs w = (Ok (), ?w)" using "1.prems" by simp
    with "1.IH"(1) [OF r1(1) [symmetric] refl False] r1 "1.prems" obtain r2 where
      "io_copy E r1 ?w = (Ok (length (reader_content E r1)), r2,
         ?w\<lparr>w_out := w_out ?w @ reader_content E r1\<rparr>)"
      by fastforce
    with False r1 "1.prems" show ?thesis by (simp add: io_copy.simps [of E r w])
  qed
qed

text \<open>\<open>into_reader\<close> keeps the content; one leading error of an iterator is skipped.\<close>

fun skip_first_error :: "(io_error + bytes) list \<Rightarrow> (io_error + bytes) list" where
  "skip_first_error (Inl err # xs) = xs"
| "skip_first_error xs = xs"

lemma into_reader_iter:
  "\<exists>r. into_reader E (Body (Some (Iter it))) = Ok r \<and> reader_good r \<and>
     reader_content E r = until_error (skip_first_error (fst (data_collect E it)))"
proof (cases "fst (data_collect E it)")
  case Nil
  then obtain j where "data_collect E it = ([], j)" by (metis prod.collapse)
  then have "data_next E it = (None, j)" by (rule data.collect_NilD)
  with Nil show ?thesis by simp
next
  case (Cons x xs)
  then obtain j where "data_collect E it = (x # xs, j)" by (metis prod.collapse)
  then obtain i1 where i1: "data_next E it = (Some x, i1)" "data_collect E i1 = (xs, j)"
    by (rule data.collect_ConsD)
  show ?thesis
  proof (cases x)
    case (Inl err)
    with Cons i1 show ?thesis by (simp add: iter_prefix_def)
  next
    case (Inr d)
    with Cons i1 show ?thesis by (simp add: iter_prefix_def)
  qed
qed

end
