(* ===== verification/Body_Spec.thy ===== *)
theory Body_Spec
  imports Readers
begin

text \<open>
  What the three ways of consuming a \<^verbatim>\<open>Body\<close> promise: \<open>into_bytes\<close> gathers the data and
  reports the first error, \<open>into_reader\<close> and \<open>into_chunks\<close> deliver the same data piecewise.
  The abstract content of a body is \<open>body_content\<close>.
\<close>

section \<open>into\_bytes\<close>

fun gather :: "(io_error + bytes) list \<Rightarrow> bytes res" where
  "gather [] = Ok []"
| "gather (Inl err # xs) = Err err"
| "gather (Inr d # xs) =
     (case gather xs of Ok ds \<Rightarrow> Ok (d @ ds) | Err err \<Rightarrow> Err err | Panic \<Rightarrow> Panic)"

lemma collect_data_gather:
  "(case fst (collect_data E it) of Ok ds \<Rightarrow> Ok (concat ds) | Err err \<Rightarrow> Err err | Panic \<Rightarrow> Panic) =
     gather (fst (data_collect E it))"
proof (induction E it rule: collect_data.induct)
  case (1 E it)
  obtain x i1 where step: "data_next E it = (x, i1)" by (metis surj_pair)
  show ?case
  proof (cases x)
    case None
    with step have "data_collect E it = ([], i1)" by (simp add: data.collect_None)
    with None step show ?thesis by (simp add: collect_data.simps [of E it])
  next
    case (Some y)
    with step have c: "data_collect E it = (y # fst (data_collect E i1), snd (data_collect E i1))"
      by (simp add: data.collect_Some)
    show ?thesis
    proof (cases y)
      case (Inl err)
      with Some step c show ?thesis by (simp add: collect_data.simps [of E it])
    next
      case (Inr d)
      from "1" [OF step [symmetric] Some Inr] Inr Some step c show ?thesis
        by (auto simp: collect_data.simps [of E it] split: prod.splits res.splits)
    qed
  qed
qed

lemma into_bytes_iter:
  "fst (into_bytes E (Body (Some (Iter it)))) = gather (fst (data_collect E it))"
  using collect_data_gather [of E it] by (auto split: prod.splits res.splits)

lemma gather_Inr [simp]: "gather (map Inr ds) = Ok (concat ds)"
  by (induction ds) auto

lemma until_error_Inr [simp]: "until_error (map Inr ds) = concat ds"
  by (induction ds) auto

lemma skip_first_error_Inr [simp]: "skip_first_error (map Inr ds) = map Inr ds"
  by (cases ds) auto

text \<open>Without errors it also says where the iterator is left.\<close>

lemma collect_data_end: "data_collect E it = (map Inr ds, j) \<Longrightarrow> collect_data E it = (Ok ds, j)"
proof (induction ds arbitrary: it)
  case Nil
  then have "data_next E it = (None, j)" by (simp add: data.collect_NilD)
  then show ?case by (simp add: collect_data.simps [of E it])
next
  case (Cons d ds)
  then have "data_collect E it = (Inr d # map Inr ds, j)" by simp
  then obtain i1 where "data_next E it = (Some (Inr d), i1)" "data_collect E i1 = (map Inr ds, j)"
    by (rule data.collect_ConsD)
  with Cons.IH [of i1] show ?case by (simp add: collect_data.simps [of E it])
qed

section \<open>Chunk iterators\<close>

fun chunk_rank :: "chunk_iterator \<Rightarrow> nat" where
  "chunk_rank (ChunkIterator None) = 0"
| "chunk_rank (ChunkIterator (Some (CSingle bs))) = 1"
| "chunk_rank (ChunkIterator (Some (CIter it))) = Suc (iter_size it)"
| "chunk_rank (ChunkIterator (Some (CReader s l))) = Suc (stream_size s)"

lemma chunk_next_less:
  "chunk_next E it = (Some x, it', src) \<Longrightarrow> chunk_rank it' < chunk_rank it"
  by (induction E it rule: chunk_next.induct)
    (auto split: prod.splits option.splits sum.splits res.splits if_splits
      dest: iter_next_less read_less)

fun chunk_source :: "chunk_iterator \<Rightarrow> stream option" where
  "chunk_source (ChunkIterator (Some (CIter it))) = iter_source it"
| "chunk_source (ChunkIterator (Some (CReader s l))) = Some s"
| "chunk_source _ = None"

text \<open>The iterator without the bookkeeping of dropped sources.\<close>

definition chunk_step :: "crates \<Rightarrow> chunk_iterator \<Rightarrow> (io_error + chunk) option \<times> chunk_iterator" where
  "chunk_step E it = (case chunk_next E it of (x, it', src) \<Rightarrow> (x, it'))"

function chunk_collect :: "crates \<Rightarrow> chunk_iterator \<Rightarrow> (io_error + chunk) list \<times> chunk_iterator" where
  "chunk_collect E it =
     (case chunk_step E it of
        (None, it') \<Rightarrow> ([], it')
      | (Some x, it') \<Rightarrow> (case chunk_collect E it' of (xs, it'') \<Rightarrow> (x # xs, it'')))"
  by pat_completeness auto
termination
  by (relation "measure (\<lambda>(E, it). chunk_rank it)")
    (auto simp: chunk_step_def split: prod.splits dest: chunk_next_less)

declare chunk_collect.simps [simp del]

interpretation chunks: draining_iterator "chunk_step E" "chunk_collect E" for E
  by unfold_locales (simp_all add: chunk_collect.simps split: prod.split)

lemma chunk_collect_None [simp]: "chunk_collect E (ChunkIterator None) = ([], ChunkIterator None)"
  by (simp add: chunks.collect_None chunk_step_def)

lemma chunk_collect_single [simp]:
  "chunk_collect E (ChunkIterator (Some (CSingle bs))) = ([Inr (Data bs)], ChunkIterator None)"
  by (simp add: chunk_collect.simps [of E "ChunkIterator (Some (CSingle bs))"] chunk_step_def)

text \<open>An iterator's chunks are its items up to its first error, which is swallowed.\<close>

lemma chunk_collect_iter:
  "fst (chunk_collect E (ChunkIterator (Some (CIter it)))) = takeWhile isr (fst (iter_collect E it))"
proof (induction "iter_size it" arbitrary: it rule: less_induct)
  case less
  let ?c = "ChunkIterator (Some (CIter it))"
  obtain x i1 where step: "iter_next E it = (x, i1)" by (metis surj_pair)
  show ?case
  proof (cases x)
    case None
    with step have "iter_collect E it = ([], i1)" by (simp add: boxed.collect_None)
    with None step show ?thesis
      by (simp add: chunk_collect.simps [of E ?c] chunk_step_def)
  next
    case (Some y)
    with step have c: "iter_collect E it = (y # fst (iter_collect E i1), snd (iter_collect E i1))"
      by (simp add: boxed.collect_Some)
    have "iter_size i1 < iter_size it" using step Some by (auto dest: iter_next_less)
    from less [OF this] Some step c show ?thesis
      by (cases y) (auto simp: chunk_collect.simps [of E ?c] chunk_step_def split: prod.splits)
  qed
qed

fun chunk_data :: "io_error + chunk \<Rightarrow> bytes" where
  "chunk_data (Inr (Data d)) = d"
| "chunk_data _ = []"

lemma chunk_collect_reader:
  "quiet s \<Longrightarrow> \<exists>ds. fst (chunk_collect E (ChunkIterator (Some (CReader s None)))) = map (\<lambda>d. Inr (Data d)) ds \<and>
     concat ds = bytes_of s \<and> (\<forall>d \<in> set ds. d \<noteq> [] \<and> length d \<le> CHUNK_BUF)"
proof (induction "stream_size s" arbitrary: s rule: less_induct)
  case less
  let ?c = "ChunkIterator (Some (CReader s None))"
  from source.rd_goodE [OF less.prems CHUNK_BUF_pos] obtain bs s' where
    r: "read CHUNK_BUF s = (Ok bs, s')" "quiet s'" "bytes_of s = bs @ bytes_of s'"
      "length bs \<le> CHUNK_BUF" "bs = [] \<Longrightarrow> bytes_of s = []"
    by blast
  show ?case
  proof (cases "bs = []")
    case True
    with r show ?thesis by (simp add: chunk_collect.simps [of E ?c] chunk_step_def)
  next
    case False
    with r have "stream_size s' < stream_size s" by (auto dest: read_less)
    from less.hyps [OF this r(2)] obtain ds where
      "fst (chunk_collect E (ChunkIterator (Some (CReader s' None)))) = map (\<lambda>d. Inr (Data d)) ds"
      "concat ds = bytes_of s'" "\<forall>d \<in> set ds. d \<noteq> [] \<and> length d \<le> CHUNK_BUF"
      by blast
    with False r show ?thesis
      by (intro exI [of _ "bs # ds"])
        (auto simp: chunk_collect.simps [of E ?c] chunk_step_def split: prod.splits)
  qed
qed

text \<open>
  With a known length the iterator stops after the block with which the length is reached; if
  the source ends there, it delivers exactly the source.
\<close>

lemma chunk_collect_reader_len:
  "quiet s \<Longrightarrow> length (bytes_of s) = l \<Longrightarrow>
     \<exists>ds. fst (chunk_collect E (ChunkIterator (Some (CReader s (Some l))))) = map (\<lambda>d. Inr (Data d)) ds \<and>
       concat ds = bytes_of s \<and> (\<forall>d \<in> set ds. d \<noteq> [] \<and> length d \<le> CHUNK_BUF)"
proof (induction "stream_size s" arbitrary: s l rule: less_induct)
  case less
  let ?c = "ChunkIterator (Some (CReader s (Some l)))"
  from source.rd_goodE [OF less.prems(1) CHUNK_BUF_pos] obtain bs s' where
    r: "read CHUNK_BUF s = (Ok bs, s')" "quiet s'" "bytes_of s = bs @ bytes_of s'"
      "length bs \<le> CHUNK_BUF" "bs = [] \<Longrightarrow> bytes_of s = []"
    by blast
  show ?case
  proof (cases "bs = [] \<or> bytes_of s' = []")
    case True
    with r less.prems(2) show ?thesis
      by (intro exI [of _ "if bs = [] then [] else [bs]"])
        (auto simp: chunk_collect.simps [of E ?c] chunk_step_def checked_sub_def)
  next
    case False
    with r have "stream_size s' < stream_size s" by (auto dest: read_less)
    from less.hyps [OF this r(2) refl] obtain ds where
      "fst (chunk_collect E (ChunkIterator (Some (CReader s' (Some (length (bytes_of s'))))))) = map (\<lambda>d. Inr (Data d)) ds"
      "concat ds = bytes_of s'" "\<forall>d \<in> set ds. d \<noteq> [] \<and> length d \<le> CHUNK_BUF"
      by blast
    with False r less.prems(2) show ?thesis
      by (intro exI [of _ "bs # ds"])
        (auto simp: chunk_collect.simps [of E ?c] chunk_step_def checked_sub_def split: prod.splits)
  qed
qed

section \<open>The content of a body\<close>

definition iter_ok :: "crates \<Rightarrow> iter \<Rightarrow> bool" where
  "iter_ok E it \<longleftrightarrow> list_all isr (fst (iter_collect E it))"

definition iter_content :: "crates \<Rightarrow> iter \<Rightarrow> bytes" where
  "iter_content E it = concat (map chunk_data (fst (iter_collect E it)))"

fun body_content :: "crates \<Rightarrow> body \<Rightarrow> bytes" where
  "body_content E (Body (Some (Buffered bs))) = bs"
| "body_content E (Body (Some (Iter it))) = iter_content E it"
| "body_content E (Body (Some (Reader s None))) = bytes_of s"
| "body_content E (Body (Some (Reader s (Some l)))) = take l (bytes_of s)"
| "body_content E _ = []"

text \<open>
  A body is good when nothing goes wrong underneath it: it has not been consumed, its iterator
  yields no error, its source no fault, and a source with an announced length does not end
  before it.
\<close>

fun body_good :: "crates \<Rightarrow> body \<Rightarrow> bool" where
  "body_good E (Body None) \<longleftrightarrow> False"
| "body_good E (Body (Some (Iter it))) \<longleftrightarrow> iter_ok E it"
| "body_good E (Body (Some (Reader s None))) \<longleftrightarrow> quiet s"
| "body_good E (Body (Some (Reader s (Some l)))) \<longleftrightarrow> quiet s \<and> l \<le> length (bytes_of s)"
| "body_good E _ \<longleftrightarrow> True"

lemma map_filter_data_ok:
  "list_all isr xs \<Longrightarrow>
     \<exists>ds. List.map_filter data_result xs = map Inr ds \<and> concat ds = concat (map chunk_data xs)"
proof (induction xs)
  case Nil
  then show ?case by (simp add: List.map_filter_simps)
next
  case (Cons x xs)
  then obtain ds where "List.map_filter data_result xs = map Inr ds"
    "concat ds = concat (map chunk_data xs)" by auto
  with Cons.prems show ?case
    by (cases x rule: data_result.cases)
      (auto simp: List.map_filter_simps intro: exI [of _ "_ # ds"] exI [of _ ds])
qed

lemma fst_data_collect: "fst (data_collect E it) = List.map_filter data_result (fst (iter_collect E it))"
  by (simp add: data_collect_def split: prod.split)

lemma data_collect_ok:
  assumes "iter_ok E it"
  obtains ds where "fst (data_collect E it) = map Inr ds" "concat ds = iter_content E it"
  using map_filter_data_ok [OF assms [unfolded iter_ok_def]] that
  by (auto simp: fst_data_collect iter_content_def)

lemma into_bytes_good: "body_good E b \<Longrightarrow> fst (into_bytes E b) = Ok (body_content E b)"
proof (induction E b rule: body_good.induct)
  case (2 E it)
  then show ?case by (auto simp: into_bytes_iter simp del: into_bytes.simps elim!: data_collect_ok)
qed (auto simp: stream_simps)

lemma into_reader_good:
  "body_good E b \<Longrightarrow> \<exists>r. into_reader E b = Ok r \<and> reader_good r \<and> reader_content E r = body_content E b"
proof (induction E b rule: body_good.induct)
  case (2 E it)
  then show ?case using into_reader_iter [of E it] by (auto elim!: data_collect_ok)
qed auto

lemma body_len_good: "body_good E b \<Longrightarrow> body_len b = Some n \<Longrightarrow> length (body_content E b) = n"
  by (induction E b rule: body_good.induct) auto

end
