(* ===== verification/Http_Body.thy ===== *)
theory Http_Body
  imports Body_Spec
begin

text \<open>
  \<^verbatim>\<open>src/body/http_body.rs\<close>: the trait \<^verbatim>\<open>HttpBody\<close> and its implementations.  The trait is a
  record of operations that generic code takes as an argument; the associated types \<^verbatim>\<open>Reader\<close>
  and \<^verbatim>\<open>Chunks\<close> are \<open>body_reader\<close> and \<open>chunk_iterator\<close>, whose cases cover \<^verbatim>\<open>Cursor\<close>, \<^verbatim>\<open>&[u8]\<close>
  and \<^verbatim>\<open>io::Empty\<close> (a buffer), \<^verbatim>\<open>iter::Once\<close> (a single chunk) and \<^verbatim>\<open>iter::Empty\<close>.
\<close>

section \<open>The trait\<close>

record 'b http_body =
  hb_len :: "'b \<Rightarrow> nat option"
  hb_into_reader :: "'b \<Rightarrow> body_reader res"
  hb_into_chunks :: "'b \<Rightarrow> chunk_iterator res"
  hb_into_bytes :: "'b \<Rightarrow> bytes res \<times> stream option"
  hb_drop :: "'b \<Rightarrow> stream option"

text \<open>The provided methods \<^verbatim>\<open>is_empty\<close> and \<^verbatim>\<open>into_bytes\<close> (reading to the end into a vector).\<close>

definition hb_is_empty :: "'b http_body \<Rightarrow> 'b \<Rightarrow> bool" where
  "hb_is_empty B b \<longleftrightarrow> hb_len B b = Some 0"

definition default_into_bytes ::
  "crates \<Rightarrow> ('b \<Rightarrow> body_reader res) \<Rightarrow> 'b \<Rightarrow> bytes res \<times> stream option" where
  "default_into_bytes E into_rd b =
     (case into_rd b of
        Ok r \<Rightarrow>
          (case io_copy E r new_writer of
             (Ok n, r', w) \<Rightarrow> (Ok (w_out w), reader_source r')
           | (Err err, r', w) \<Rightarrow> (Err err, reader_source r')
           | (Panic, r', w) \<Rightarrow> (Panic, reader_source r'))
      | Err err \<Rightarrow> (Err err, None)
      | Panic \<Rightarrow> (Panic, None))"

section \<open>Implementations\<close>

definition unit_impl :: "unit http_body" where
  "unit_impl = \<lparr>hb_len = (\<lambda>_. Some 0), hb_into_reader = (\<lambda>_. Ok (RBuffered [])),
     hb_into_chunks = (\<lambda>_. Ok (ChunkIterator None)), hb_into_bytes = (\<lambda>_. (Ok [], None)),
     hb_drop = (\<lambda>_. None)\<rparr>"

definition string_impl :: "string http_body" where
  "string_impl = \<lparr>hb_len = (\<lambda>s. Some (length s)), hb_into_reader = (\<lambda>s. Ok (RBuffered s)),
     hb_into_chunks = (\<lambda>s. Ok (ChunkIterator (Some (CSingle s)))),
     hb_into_bytes = (\<lambda>s. (Ok s, None)), hb_drop = (\<lambda>_. None)\<rparr>"

definition str_impl :: "string http_body" where
  "str_impl = \<lparr>hb_len = (\<lambda>s. Some (length s)), hb_into_reader = (\<lambda>s. Ok (RBuffered s)),
     hb_into_chunks = (\<lambda>s. Ok (ChunkIterator (Some (CSingle s)))),
     hb_into_bytes = (\<lambda>s. (Ok s, None)), hb_drop = (\<lambda>_. None)\<rparr>"

definition slice_impl :: "bytes http_body" where
  "slice_impl = \<lparr>hb_len = (\<lambda>s. Some (length s)), hb_into_reader = (\<lambda>s. Ok (RBuffered s)),
     hb_into_chunks = (\<lambda>s. Ok (ChunkIterator (Some (CSingle s)))),
     hb_into_bytes = (\<lambda>s. (Ok s, None)), hb_drop = (\<lambda>_. None)\<rparr>"

definition vec_impl :: "bytes http_body" where
  "vec_impl = \<lparr>hb_len = (\<lambda>s. Some (length s)), hb_into_reader = (\<lambda>s. Ok (RBuffered s)),
     hb_into_chunks = (\<lambda>s. Ok (ChunkIterator (Some (CSingle s)))),
     hb_into_bytes = (\<lambda>s. (Ok s, None)), hb_drop = (\<lambda>_. None)\<rparr>"

text \<open>\<^verbatim>\<open>Bytes\<close> and \<^verbatim>\<open>BytesMut\<close> of the \<^verbatim>\<open>bytes\<close> crate, as the bytes they hold.\<close>

definition bytes_impl :: "bytes http_body" where
  "bytes_impl = \<lparr>hb_len = (\<lambda>s. Some (length s)), hb_into_reader = (\<lambda>s. Ok (RBuffered s)),
     hb_into_chunks = (\<lambda>s. Ok (ChunkIterator (Some (CSingle s)))),
     hb_into_bytes = (\<lambda>s. (Ok s, None)), hb_drop = (\<lambda>_. None)\<rparr>"

definition bytes_mut_impl :: "bytes http_body" where
  "bytes_mut_impl = \<lparr>hb_len = (\<lambda>s. Some (length s)), hb_into_reader = (\<lambda>s. Ok (RBuffered s)),
     hb_into_chunks = (\<lambda>s. Ok (ChunkIterator (Some (CSingle s)))),
     hb_into_bytes = (\<lambda>s. (Ok s, None)), hb_drop = (\<lambda>_. None)\<rparr>"

definition body_impl :: "crates \<Rightarrow> body http_body" where
  "body_impl E = \<lparr>hb_len = body_len, hb_into_reader = into_reader E,
     hb_into_chunks = into_chunks, hb_into_bytes = into_bytes E, hb_drop = drop_body\<rparr>"

lemmas impl_defs = unit_impl_def string_impl_def str_impl_def slice_impl_def vec_impl_def
  bytes_impl_def bytes_mut_impl_def body_impl_def

section \<open>The contract\<close>

text \<open>
  What generic code may expect of an implementation, on the bodies that are \<open>good\<close>: one
  content, which \<open>into_bytes\<close> returns, which reading delivers and whose length is \<open>len\<close>
  whenever \<open>len\<close> is known.
\<close>

locale http_body_contract =
  fixes E :: crates and B :: "'b http_body" and content :: "'b \<Rightarrow> bytes" and good :: "'b \<Rightarrow> bool"
  assumes bytes_content: "good b \<Longrightarrow> fst (hb_into_bytes B b) = Ok (content b)"
    and reader_of: "good b \<Longrightarrow>
      \<exists>r. hb_into_reader B b = Ok r \<and> reader_good r \<and> reader_content E r = content b"
    and len_content: "good b \<Longrightarrow> hb_len B b = Some n \<Longrightarrow> length (content b) = n"
begin

lemma copy_content:
  assumes "good b" "w_cap w = None"
  obtains r r' where "hb_into_reader B b = Ok r"
    "io_copy E r w = (Ok (length (content b)), r', w\<lparr>w_out := w_out w @ content b\<rparr>)"
  using reader_of [OF assms(1)] io_copy_good [OF _ assms(2), of _ E] that by metis

lemma default_into_bytes_content:
  assumes "good b"
  shows "fst (default_into_bytes E (hb_into_reader B) b) = fst (hb_into_bytes B b)"
proof -
  have "w_cap new_writer = None" by (simp add: new_writer_def)
  with assms obtain r r' where "hb_into_reader B b = Ok r"
    "io_copy E r new_writer =
      (Ok (length (content b)), r', new_writer\<lparr>w_out := w_out new_writer @ content b\<rparr>)"
    by (rule copy_content)
  with assms show ?thesis
    by (simp add: default_into_bytes_def bytes_content new_writer_def)
qed

lemma empty_content: "good b \<Longrightarrow> hb_is_empty B b \<Longrightarrow> content b = []"
  using len_content [of b 0] by (simp add: hb_is_empty_def)

end

text \<open>The chunks of a body: no error among them, and their data join to the content.\<close>

locale chunked_body_contract = http_body_contract +
  assumes chunks_of: "good b \<Longrightarrow>
    \<exists>it. hb_into_chunks B b = Ok it \<and> list_all isr (fst (chunk_collect E it)) \<and>
      concat (map chunk_data (fst (chunk_collect E it))) = content b"

section \<open>The implementations keep the contract\<close>

interpretation unit_body: chunked_body_contract E unit_impl "\<lambda>_. []" "\<lambda>_. True" for E
  by unfold_locales (auto simp: unit_impl_def)

interpretation string_body: chunked_body_contract E string_impl "\<lambda>s. s" "\<lambda>_. True" for E
  by unfold_locales (auto simp: string_impl_def)

interpretation str_body: chunked_body_contract E str_impl "\<lambda>s. s" "\<lambda>_. True" for E
  by unfold_locales (auto simp: str_impl_def)

interpretation slice_body: chunked_body_contract E slice_impl "\<lambda>s. s" "\<lambda>_. True" for E
  by unfold_locales (auto simp: slice_impl_def)

interpretation vec_body: chunked_body_contract E vec_impl "\<lambda>s. s" "\<lambda>_. True" for E
  by unfold_locales (auto simp: vec_impl_def)

interpretation bytes_body: chunked_body_contract E bytes_impl "\<lambda>s. s" "\<lambda>_. True" for E
  by unfold_locales (auto simp: bytes_impl_def)

interpretation bytes_mut_body: chunked_body_contract E bytes_mut_impl "\<lambda>s. s" "\<lambda>_. True" for E
  by unfold_locales (auto simp: bytes_mut_impl_def)

interpretation body_body: http_body_contract E "body_impl E" "body_content E" "body_good E" for E
  by unfold_locales (simp_all add: body_impl_def into_bytes_good into_reader_good body_len_good)

text \<open>
  For the chunks of a body over a source with an announced length, the source must end there:
  \<open>ChunkIterator\<close> does not cut its last block (see \<open>chunk_overrun\<close> in the root theory).
\<close>

fun body_exact :: "body \<Rightarrow> bool" where
  "body_exact (Body (Some (Reader s (Some l)))) \<longleftrightarrow> length (bytes_of s) = l"
| "body_exact _ \<longleftrightarrow> True"

lemma takeWhile_isr: "list_all isr xs \<Longrightarrow> takeWhile isr xs = xs"
  by (induction xs) auto

lemma into_chunks_good:
  "body_good E b \<Longrightarrow> body_exact b \<Longrightarrow>
     \<exists>it. into_chunks b = Ok it \<and> list_all isr (fst (chunk_collect E it)) \<and>
       concat (map chunk_data (fst (chunk_collect E it))) = body_content E b"
proof (induction E b rule: body_good.induct)
  case (2 E it)
  then show ?case by (simp add: chunk_collect_iter iter_ok_def iter_content_def takeWhile_isr)
next
  case (3 E s)
  then obtain ds where "fst (chunk_collect E (ChunkIterator (Some (CReader s None)))) =
      map (\<lambda>d. Inr (Data d)) ds" "concat ds = bytes_of s"
    using chunk_collect_reader [of s E] by auto
  then show ?case by (simp add: list_all_iff o_def)
next
  case (4 E s l)
  then obtain ds where "fst (chunk_collect E (ChunkIterator (Some (CReader s (Some l))))) =
      map (\<lambda>d. Inr (Data d)) ds" "concat ds = bytes_of s"
    using chunk_collect_reader_len [of s l E] by auto
  with 4 show ?case by (simp add: list_all_iff o_def)
qed auto

interpretation body_chunks: chunked_body_contract
  E "body_impl E" "body_content E" "\<lambda>b. body_good E b \<and> body_exact b" for E
  by unfold_locales
    (simp_all add: body_impl_def into_bytes_good into_reader_good body_len_good into_chunks_good)

end
