(* ===== verification/Wire.thy ===== *)
theory Wire
  imports Http_Body
begin

text \<open>
  The output code that \<^verbatim>\<open>write_request\<close> and \<^verbatim>\<open>write_response\<close> have in common: header lines,
  and a chunked body with its trailers.  In the source both functions contain the same lines.
\<close>

section \<open>Header lines\<close>

text \<open>\<^verbatim>\<open>[format!("{name}: ").as_bytes(), val.as_bytes(), b"\r\n"].concat()\<close>.\<close>

definition header_line :: "header_name \<times> bytes \<Rightarrow> bytes" where
  "header_line h = (case h of (name, val) \<Rightarrow> name @ '': '' @ val @ crlf)"

fun write_header_lines :: "header_map \<Rightarrow> (writer, unit) act" where
  "write_header_lines [] = act_return ()"
| "write_header_lines (h # hs) = act_then (write_all (header_line h)) (write_header_lines hs)"

lemma write_header_lines_healthy:
  "w_cap w = None \<Longrightarrow>
     write_header_lines hs w = (Ok (), w\<lparr>w_out := w_out w @ concat (map header_line hs)\<rparr>)"
  by (induction hs arbitrary: w) (simp_all add: io_simps)

lemma write_header_lines_not_Panic: "write_header_lines hs w \<noteq> (Panic, w')"
  by (induction hs arbitrary: w)
    (auto simp: io_simps write_all_not_Panic split: prod.splits res.splits)

section \<open>Chunked bodies\<close>

definition write_chunk :: "bytes \<Rightarrow> (writer, unit) act" where
  "write_chunk c =
     act_then (write_all (hex (length c) @ crlf))
       (act_then (write_all c)
         (act_then (write_all crlf) flush))"

text \<open>Of two sources dropped in turn at most one exists.\<close>

definition or_source :: "stream option \<Rightarrow> stream option \<Rightarrow> stream option" where
  "or_source a b = (case a of Some s \<Rightarrow> Some s | None \<Rightarrow> b)"

lemma or_source_simps [simp]: "or_source None b = b" "or_source (Some s) b = Some s"
  by (simp_all add: or_source_def)

text \<open>
  \<^verbatim>\<open>for chunk in body.into_chunks()\<close>: data chunks are written, trailers are gathered.  The
  result is the gathered trailers, the source that the iterator gave up, and the writer.
\<close>

function write_chunks ::
  "crates \<Rightarrow> chunk_iterator \<Rightarrow> header_map \<Rightarrow> writer \<Rightarrow> header_map res \<times> stream option \<times> writer" where
  "write_chunks E it trailers w =
     (case chunk_next E it of
        (None, it', src) \<Rightarrow> (Ok trailers, or_source src (chunk_source it'), w)
      | (Some (Inl err), it', src) \<Rightarrow> (Err err, or_source src (chunk_source it'), w)
      | (Some (Inr (Data c)), it', src) \<Rightarrow>
          (case write_chunk c w of
             (Ok _, w') \<Rightarrow>
               (case write_chunks E it' trailers w' of (r, src', w'') \<Rightarrow> (r, or_source src src', w''))
           | (Err err, w') \<Rightarrow> (Err err, or_source src (chunk_source it'), w')
           | (Panic, w') \<Rightarrow> (Panic, or_source src (chunk_source it'), w'))
      | (Some (Inr (Trailers te)), it', src) \<Rightarrow>
          (case write_chunks E it' (c_extend E trailers te) w of
             (r, src', w'') \<Rightarrow> (r, or_source src src', w'')))"
  by pat_completeness auto
termination
  by (relation "measure (\<lambda>(E, it, t, w). chunk_rank it)") (auto dest: chunk_next_less [OF sym])

declare write_chunks.simps [simp del]

text \<open>The whole chunked body: the chunks, the last chunk, the trailers, an empty line.\<close>

definition write_chunked_body ::
  "crates \<Rightarrow> chunk_iterator \<Rightarrow> writer \<Rightarrow> unit res \<times> stream option \<times> writer" where
  "write_chunked_body E it w =
     (case write_chunks E it [] w of
        (Ok trailers, src, w') \<Rightarrow>
          (case act_then (write_all (''0'' @ crlf))
                  (act_then (write_header_lines trailers) (write_all crlf)) w' of
             (r, w'') \<Rightarrow> (r, src, w''))
      | (Err err, src, w') \<Rightarrow> (Err err, src, w')
      | (Panic, src, w') \<Rightarrow> (Panic, src, w'))"

section \<open>Bodies of any framing\<close>

text \<open>\<^verbatim>\<open>Encoding\<close> of \<^verbatim>\<open>src/response.rs\<close>: how the end of a message is marked.\<close>

datatype encoding = FixedLength nat | Chunked | CloseDelimited

definition copy_body ::
  "crates \<Rightarrow> 'b http_body \<Rightarrow> 'b \<Rightarrow> writer \<Rightarrow> unit res \<times> stream option \<times> writer" where
  "copy_body E B b w =
     (case hb_into_reader B b of
        Ok r \<Rightarrow> (case io_copy E r w of (x, r', w') \<Rightarrow> (map_res (\<lambda>_. ()) x, reader_source r', w'))
      | Err err \<Rightarrow> (Err err, None, w)
      | Panic \<Rightarrow> (Panic, None, w))"

text \<open>
  The \<^verbatim>\<open>match encoding\<close> that ends both writers: small bodies of known length are buffered,
  others copied, chunked ones iterated.
\<close>

definition write_body ::
  "crates \<Rightarrow> 'b http_body \<Rightarrow> encoding \<Rightarrow> 'b \<Rightarrow> writer \<Rightarrow> unit res \<times> stream option \<times> writer" where
  "write_body E B enc b w =
     (case enc of
        FixedLength len \<Rightarrow>
          if len < 1024 then
            (case hb_into_bytes B b of
               (Ok bs, src) \<Rightarrow> (case write_all bs w of (r, w') \<Rightarrow> (r, src, w'))
             | (Err err, src) \<Rightarrow> (Err err, src, w)
             | (Panic, src) \<Rightarrow> (Panic, src, w))
          else copy_body E B b w
      | CloseDelimited \<Rightarrow> copy_body E B b w
      | Chunked \<Rightarrow>
          (case hb_into_chunks B b of
             Ok it \<Rightarrow> write_chunked_body E it w
           | Err err \<Rightarrow> (Err err, None, w)
           | Panic \<Rightarrow> (Panic, None, w)))"

section \<open>What is written\<close>

text \<open>The data chunks and the trailers of a list of items.\<close>

fun data_chunks :: "(io_error + chunk) list \<Rightarrow> bytes list" where
  "data_chunks [] = []"
| "data_chunks (Inr (Data d) # xs) = d # data_chunks xs"
| "data_chunks (_ # xs) = data_chunks xs"

fun trailer_chunks :: "(io_error + chunk) list \<Rightarrow> header_map list" where
  "trailer_chunks [] = []"
| "trailer_chunks (Inr (Trailers t) # xs) = t # trailer_chunks xs"
| "trailer_chunks (_ # xs) = trailer_chunks xs"

lemma concat_data_chunks: "concat (data_chunks xs) = concat (map chunk_data xs)"
  by (induction xs rule: data_chunks.induct) auto

definition gather_trailers :: "crates \<Rightarrow> header_map list \<Rightarrow> header_map \<Rightarrow> header_map" where
  "gather_trailers E ts t = fold (\<lambda>te tr. c_extend E tr te) ts t"

lemma gather_trailers_simps [simp]:
  "gather_trailers E [] t = t"
  "gather_trailers E (te # ts) t = gather_trailers E ts (c_extend E t te)"
  by (simp_all add: gather_trailers_def)

definition chunked_wire :: "crates \<Rightarrow> (io_error + chunk) list \<Rightarrow> bytes" where
  "chunked_wire E xs = concat (map chunk_frame (data_chunks xs)) @ last_chunk
     @ concat (map header_line (gather_trailers E (trailer_chunks xs) [])) @ crlf"

lemma write_chunk_healthy:
  "w_cap w = None \<Longrightarrow> \<exists>f. write_chunk c w = (Ok (), w\<lparr>w_out := w_out w @ chunk_frame c, w_flushed := f\<rparr>)"
  by (auto simp: write_chunk_def io_simps chunk_frame_def)

lemma write_chunks_items:
  assumes "list_all isr xs"
  shows "chunk_collect E it = (xs, j) \<Longrightarrow> w_cap w = None \<Longrightarrow>
    \<exists>src w'. write_chunks E it t w = (Ok (gather_trailers E (trailer_chunks xs) t), src, w') \<and>
      w_out w' = w_out w @ concat (map chunk_frame (data_chunks xs)) \<and> w_cap w' = None"
  using assms
proof (induction xs arbitrary: it t w)
  case Nil
  then have "chunk_step E it = (None, j)" by (simp add: chunks.collect_NilD)
  with Nil show ?case
    by (auto simp: write_chunks.simps [of E it] chunk_step_def split: prod.splits)
next
  case (Cons x xs)
  from Cons.prems(1) obtain i1 where "chunk_step E it = (Some x, i1)" and rest: "chunk_collect E i1 = (xs, j)"
    by (rule chunks.collect_ConsD)
  then obtain src where step: "chunk_next E it = (Some x, i1, src)"
    by (auto simp: chunk_step_def split: prod.splits)
  from Cons.prems(3) obtain c where x: "x = Inr c" by (cases x) auto
  show ?case
  proof (cases c)
    case (Data d)
    from write_chunk_healthy [OF Cons.prems(2)] obtain f where
      wr: "write_chunk d w = (Ok (), w\<lparr>w_out := w_out w @ chunk_frame d, w_flushed := f\<rparr>)" by blast
    obtain src' w' where
      "write_chunks E i1 t (w\<lparr>w_out := w_out w @ chunk_frame d, w_flushed := f\<rparr>) =
        (Ok (gather_trailers E (trailer_chunks xs) t), src', w')"
      "w_out w' = w_out w @ chunk_frame d @ concat (map chunk_frame (data_chunks xs))" "w_cap w' = None"
      using Cons.IH [OF rest, of "w\<lparr>w_out := w_out w @ chunk_frame d, w_flushed := f\<rparr>" t] Cons.prems by auto
    with step x Data wr show ?thesis by (simp add: write_chunks.simps [of E it])
  next
    case (Trailers te)
    obtain src' w' where
      "write_chunks E i1 (c_extend E t te) w =
        (Ok (gather_trailers E (trailer_chunks xs) (c_extend E t te)), src', w')"
      "w_out w' = w_out w @ concat (map chunk_frame (data_chunks xs))" "w_cap w' = None"
      using Cons.IH [OF rest Cons.prems(2), of "c_extend E t te"] Cons.prems by auto
    with step x Trailers show ?thesis by (simp add: write_chunks.simps [of E it])
  qed
qed

lemma write_chunked_body_items:
  assumes "list_all isr (fst (chunk_collect E it))" "w_cap w = None"
  shows "\<exists>src w'. write_chunked_body E it w = (Ok (), src, w') \<and>
    w_out w' = w_out w @ chunked_wire E (fst (chunk_collect E it)) \<and> w_cap w' = None"
proof -
  obtain xs j where c: "chunk_collect E it = (xs, j)" by (metis surj_pair)
  with write_chunks_items [of xs E it j w "[]"] assms obtain src w' where
    "write_chunks E it [] w = (Ok (gather_trailers E (trailer_chunks xs) []), src, w')"
    "w_out w' = w_out w @ concat (map chunk_frame (data_chunks xs))" "w_cap w' = None"
    by auto
  then show ?thesis
    by (simp add: write_chunked_body_def io_simps write_header_lines_healthy chunked_wire_def c
        last_chunk_def hex_0)
qed

text \<open>Chunked output is decoded to the same chunks, whatever the segmentation; the trailer
  section is what the decoder leaves behind.\<close>

lemma decode_chunked_wire:
  assumes "chunk_size_law E" "quiet s" "\<forall>c \<in> set (data_chunks xs). c \<noteq> [] \<and> length c < 2 ^ 64"
    and "bytes_of s = chunked_wire E xs @ rest"
  shows "\<exists>s'. chunked_collect E s = (data_chunks xs, s') \<and> quiet s' \<and>
    bytes_of s' = concat (map header_line (gather_trailers E (trailer_chunks xs) [])) @ crlf @ rest"
proof -
  let ?k = "length (concat (map chunk_frame (data_chunks xs)) @ last_chunk)"
  let ?tail = "concat (map header_line (gather_trailers E (trailer_chunks xs) [])) @ crlf @ rest"
  have bs: "bytes_of s = concat (map chunk_frame (data_chunks xs)) @ last_chunk @ ?tail"
    using assms(4) by (simp add: chunked_wire_def)
  have "bytes_of (advance ?k s) = drop ?k ((concat (map chunk_frame (data_chunks xs)) @ last_chunk) @ ?tail)"
    using assms(2) bs by simp
  then have "bytes_of (advance ?k s) = ?tail"
    by (simp only: drop_append_length)
  with chunked_collect_frames [OF assms(1-3) bs] assms(2) show ?thesis by auto
qed

end
