(* ===== verification/Request.thy ===== *)
theory Request
  imports Wire
begin

text \<open>
  \<^verbatim>\<open>src/request.rs\<close>: parsing a request from the connection and writing one (the client's
  half).  \<open>parse_request\<close> takes the connection's reader by value; besides its result it
  returns the reader when it was dropped on return, and \<^term>\<open>None\<close> when the request's body
  has taken it.
\<close>

section \<open>Errors\<close>

datatype parse_error =
    ConnectionClosed
  | Io io_error
  | Invalid httparse_error
  | IncompleteRequest
  | UnsupportedHttpVersion nat
  | InvalidTransferEncoding
  | InvalidHeader
  | Unknown

text \<open>The texts of the \<^verbatim>\<open>#[error(..)]\<close> attributes.\<close>

fun parse_error_display :: "parse_error \<Rightarrow> string" where
  "parse_error_display ConnectionClosed = ''connection closed''"
| "parse_error_display (Io e) = ''io error''"
| "parse_error_display (Invalid e) = ''invalid request''"
| "parse_error_display IncompleteRequest = ''incomplete request''"
| "parse_error_display (UnsupportedHttpVersion v) = ''unsupported http version: '' @ dec v"
| "parse_error_display InvalidTransferEncoding = ''invalid Transfer-Encoding header''"
| "parse_error_display InvalidHeader = ''invalid header''"
| "parse_error_display Unknown = ''failed to parse http request''"

section \<open>Requests\<close>

record 'b request =
  rq_method :: http_method
  rq_uri :: uri
  rq_version :: version
  rq_headers :: header_map
  rq_body :: 'b

section \<open>The message head\<close>

definition ends_with :: "bytes \<Rightarrow> bytes \<Rightarrow> bool" where
  "ends_with bs p \<longleftrightarrow> length p \<le> length bs \<and> drop (length bs - length p) bs = p"

text \<open>The slice patterns \<^verbatim>\<open>[.., b'\r', b'\n', b'\r', b'\n']\<close> and \<^verbatim>\<open>[.., b'\n', b'\n']\<close>.\<close>

definition head_complete :: "bytes \<Rightarrow> bool" where
  "head_complete buf \<longleftrightarrow> ends_with buf [CR, LF, CR, LF] \<or> ends_with buf [LF, LF]"

text \<open>The reading loop: lines are appended until an empty line, or the end of the source.\<close>

function read_head :: "bytes \<Rightarrow> stream \<Rightarrow> bytes res \<times> stream" where
  "read_head buf s =
     (case read_until LF buf s of
        (Ok n, buf', s') \<Rightarrow>
          if n = 0 then (Ok buf', s')
          else if head_complete buf' then (Ok buf', s')
          else read_head buf' s'
      | (Err err, buf', s') \<Rightarrow> (Err err, s')
      | (Panic, buf', s') \<Rightarrow> (Panic, s'))"
  by pat_completeness auto
termination
  by (relation "measure (\<lambda>(buf, s). stream_size s)") (auto dest: read_until_less [OF sym])

declare read_head.simps [simp del]

lemma read_head_size: "read_head buf s = (r, s') \<Longrightarrow> stream_size s' \<le> stream_size s"
proof (induction buf s rule: read_head.induct)
  case (1 buf s)
  obtain r1 b1 s1 where line: "read_until LF buf s = (r1, b1, s1)" by (metis prod_cases3)
  show ?case
  proof (cases "\<exists>n. r1 = Ok n \<and> n \<noteq> 0 \<and> \<not> head_complete b1")
    case True
    then obtain n where n: "r1 = Ok n" "n \<noteq> 0" "\<not> head_complete b1" by blast
    with "1.prems" line have "read_head b1 s1 = (r, s')" by (simp add: read_head.simps [of buf s])
    from "1.IH" [OF line [symmetric] n(1) refl n(2,3) this] read_until_size [OF line]
    show ?thesis by simp
  next
    case False
    with "1.prems" line read_until_size [OF line] show ?thesis
      by (cases r1) (auto simp: read_head.simps [of buf s] split: if_splits)
  qed
qed

text \<open>The same on plain bytes, one byte at a time.\<close>

fun split_head :: "bytes \<Rightarrow> bytes \<Rightarrow> bytes \<times> bytes" where
  "split_head acc [] = (acc, [])"
| "split_head acc (b # bs) =
     (if head_complete (acc @ [b]) then (acc @ [b], bs) else split_head (acc @ [b]) bs)"

lemma ends_with_snoc: "ends_with (bs @ [b]) (p @ [c]) \<longleftrightarrow> b = c \<and> ends_with bs p"
  by (auto simp: ends_with_def Suc_diff_le)

lemma head_complete_snoc_LF: "head_complete (acc @ [b]) \<Longrightarrow> b = LF"
  using ends_with_snoc [of acc b "[CR, LF, CR]" LF] ends_with_snoc [of acc b "[LF]" LF]
  by (auto simp: head_complete_def)

lemma split_head_line:
  "bs \<noteq> [] \<Longrightarrow>
     split_head acc bs =
       (let line = upto_delim LF bs; rest = drop (length line) bs
        in if head_complete (acc @ line) then (acc @ line, rest) else split_head (acc @ line) rest)"
proof (induction bs arbitrary: acc)
  case Nil
  then show ?case by simp
next
  case (Cons b bs)
  show ?case
  proof (cases "b = LF")
    case True
    then show ?thesis by (simp add: Let_def)
  next
    case False
    then have no: "\<not> head_complete (acc @ [b])" using head_complete_snoc_LF by blast
    show ?thesis
    proof (cases "bs = []")
      case True
      with False no show ?thesis by (simp add: Let_def)
    next
      case bs: False
      from Cons.IH [OF bs, of "acc @ [b]"] False no show ?thesis by (simp add: Let_def)
    qed
  qed
qed

lemma split_head_append: "fst (split_head acc bs) @ snd (split_head acc bs) = acc @ bs"
  by (induction acc bs rule: split_head.induct) auto

lemma split_head_rest: "length (snd (split_head acc bs)) \<le> length bs"
  by (induction acc bs rule: split_head.induct) auto

lemma read_head_quiet:
  "quiet s \<Longrightarrow>
     \<exists>s'. read_head buf s = (Ok (fst (split_head buf (bytes_of s))), s') \<and> quiet s' \<and>
       bytes_of s' = snd (split_head buf (bytes_of s))"
proof (induction buf s rule: read_head.induct)
  case (1 buf s)
  let ?line = "upto_delim LF (bytes_of s)"
  let ?s1 = "advance (length ?line) s"
  have line: "read_until LF buf s = (Ok (length ?line), buf @ ?line, ?s1)"
    using "1.prems" by (simp add: read_until_quiet)
  show ?case
  proof (cases "bytes_of s = []")
    case True
    with "1.prems" have "s = []" by (simp add: quiet_Nil_iff)
    then show ?thesis by (simp add: read_head.simps [of buf "[]"])
  next
    case False
    show ?thesis
    proof (cases "head_complete (buf @ ?line)")
      case True
      with False line "1.prems" show ?thesis
        by (simp add: read_head.simps [of buf s] split_head_line Let_def)
    next
      case no: False
      from "1.IH" [OF line [symmetric] refl refl _ no] False "1.prems"
      obtain s' where "read_head (buf @ ?line) ?s1 = (Ok (fst (split_head (buf @ ?line) (bytes_of ?s1))), s')"
        "quiet s'" "bytes_of s' = snd (split_head (buf @ ?line) (bytes_of ?s1))" by auto
      with False no line "1.prems" show ?thesis
        by (simp add: read_head.simps [of buf s] split_head_line [OF False] Let_def)
    qed
  qed
qed

text \<open>
  A head is well formed when the empty line at its end is the first one; then everything behind
  it stays in the source.
\<close>

definition complete_head :: "bytes \<Rightarrow> bool" where
  "complete_head head \<longleftrightarrow> head \<noteq> [] \<and> split_head [] head = (head, []) \<and> head_complete head"

lemma split_head_stops:
  "split_head acc bs = (acc @ bs, []) \<Longrightarrow> head_complete (acc @ bs) \<Longrightarrow> bs \<noteq> [] \<Longrightarrow>
     split_head acc (bs @ rest) = (acc @ bs, rest)"
proof (induction acc bs rule: split_head.induct)
  case (2 acc b bs)
  then show ?case by (cases "bs = []") (auto split: if_splits)
qed simp

lemma split_head_complete: "complete_head head \<Longrightarrow> split_head [] (head @ rest) = (head, rest)"
  using split_head_stops [of "[]" head rest] by (simp add: complete_head_def)

section \<open>Parsing\<close>

text \<open>
  The body of a request, from its headers: a chunked body is decoded lazily, a body of less
  than 1024 bytes is read at once, a longer one is streamed.
\<close>

definition request_body ::
  "crates \<Rightarrow> header_map \<Rightarrow> stream \<Rightarrow> (parse_error + body) \<times> stream option" where
  "request_body E h s =
     (case c_transfer_encoding E h of
        Inl _ \<Rightarrow> (Inl InvalidHeader, Some s)
      | Inr (Some is_chunked) \<Rightarrow>
          if \<not> is_chunked then (Inl InvalidTransferEncoding, Some s)
          else (Inr (Body (Some (Iter (ChunkedReader s)))), None)
      | Inr None \<Rightarrow>
          (case c_content_length E h of
             Inl _ \<Rightarrow> (Inl InvalidHeader, Some s)
           | Inr (Some len) \<Rightarrow>
               if len < 1024 then
                 (case read_exact len s of
                    (Ok buf, s') \<Rightarrow> (Inr (body_from_vec buf), Some s')
                  | (Err err, s') \<Rightarrow> (Inl (Io err), Some s')
                  | (Panic, s') \<Rightarrow> (Inl Unknown, Some s'))
               else (Inr (body_from_reader s (Some len)), None)
           | Inr None \<Rightarrow> (Inr body_empty, Some s)))"

text \<open>\<^verbatim>\<open>Request::builder()\<close> after the method, the uri and the headers: \<^term>\<open>None\<close> once a step failed.\<close>

definition builder_headers ::
  "crates \<Rightarrow> (header_name \<times> bytes) list \<Rightarrow> header_map option \<Rightarrow> header_map option" where
  "builder_headers E hs h0 =
     fold (\<lambda>(name, val) h. Option.bind h (c_builder_header E name val))
       (takeWhile (\<lambda>h. h \<noteq> EMPTY_HEADER) hs) h0"

fun version_of :: "nat \<Rightarrow> parse_error + version" where
  "version_of n = (if n = 0 then Inr HTTP_10 else if n = 1 then Inr HTTP_11
     else Inl (UnsupportedHttpVersion n))"

text \<open>
  Everything that \<^verbatim>\<open>parse_request\<close> does between reading the head and looking at the body: method,
  uri, version and headers, or the error.
\<close>

definition request_head ::
  "crates \<Rightarrow> bytes \<Rightarrow> parse_error + http_method \<times> uri \<times> version \<times> header_map" where
  "request_head E buf =
     (if buf = [] then Inl ConnectionClosed
      else case c_parse_request E buf of
        Inl err \<Rightarrow> Inl (Invalid err)
      | Inr req \<Rightarrow>
          (case pr_method req of
             None \<Rightarrow> Inl IncompleteRequest
           | Some meth \<Rightarrow>
               (case pr_path req of
                  None \<Rightarrow> Inl IncompleteRequest
                | Some path \<Rightarrow>
                    (case pr_version req of
                       None \<Rightarrow> Inl IncompleteRequest
                     | Some n \<Rightarrow>
                         (case version_of n of
                            Inl err \<Rightarrow> Inl err
                          | Inr ver \<Rightarrow>
                              (case c_method_from_bytes E meth of
                                 None \<Rightarrow> Inl IncompleteRequest
                               | Some m \<Rightarrow>
                                   (case c_uri_from E path of
                                      None \<Rightarrow> Inl Unknown
                                    | Some u \<Rightarrow>
                                        (case builder_headers E (pr_headers req) (Some []) of
                                           None \<Rightarrow> Inl Unknown
                                         | Some h \<Rightarrow> Inr (m, u, ver, h)))))))))"

definition parse_request ::
  "crates \<Rightarrow> stream \<Rightarrow> (parse_error + body request) \<times> stream option" where
  "parse_request E s =
     (case read_head [] s of
        (Err err, s') \<Rightarrow> (Inl (Io err), Some s')
      | (Panic, s') \<Rightarrow> (Inl Unknown, Some s')
      | (Ok buf, s') \<Rightarrow>
          (case request_head E buf of
             Inl err \<Rightarrow> (Inl err, Some s')
           | Inr (m, u, ver, h) \<Rightarrow>
               (case request_body E h s' of
                  (Inl err, src) \<Rightarrow> (Inl err, src)
                | (Inr b, src) \<Rightarrow>
                    (Inr \<lparr>rq_method = m, rq_uri = u, rq_version = ver, rq_headers = h, rq_body = b\<rparr>, src))))"

section \<open>Parsing as a function of the bytes\<close>

text \<open>
  The abstract counterpart of a body just parsed, over plain bytes instead of a source; the
  bytes of a streamed or chunked body are still to be read.
\<close>

datatype wire_body = AEmpty | ABuffered bytes | AChunked bytes | AStream bytes nat

fun abs_body :: "body \<Rightarrow> wire_body" where
  "abs_body (Body (Some (Buffered bs))) = ABuffered bs"
| "abs_body (Body (Some (Iter (ChunkedReader s)))) = AChunked (bytes_of s)"
| "abs_body (Body (Some (Reader s (Some len)))) = AStream (bytes_of s) len"
| "abs_body _ = AEmpty"

definition abs_request :: "body request \<Rightarrow> wire_body request" where
  "abs_request r = \<lparr>rq_method = rq_method r, rq_uri = rq_uri r, rq_version = rq_version r,
     rq_headers = rq_headers r, rq_body = abs_body (rq_body r)\<rparr>"

definition abs_parsed ::
  "(parse_error + body request) \<times> stream option \<Rightarrow> (parse_error + wire_body request) \<times> bytes option" where
  "abs_parsed p = (case p of (r, src) \<Rightarrow> (map_sum id abs_request r, map_option bytes_of src))"

definition request_body_bytes ::
  "crates \<Rightarrow> header_map \<Rightarrow> bytes \<Rightarrow> (parse_error + wire_body) \<times> bytes option" where
  "request_body_bytes E h bs =
     (case c_transfer_encoding E h of
        Inl _ \<Rightarrow> (Inl InvalidHeader, Some bs)
      | Inr (Some False) \<Rightarrow> (Inl InvalidTransferEncoding, Some bs)
      | Inr (Some True) \<Rightarrow> (Inr (AChunked bs), None)
      | Inr None \<Rightarrow>
          (case c_content_length E h of
             Inl _ \<Rightarrow> (Inl InvalidHeader, Some bs)
           | Inr None \<Rightarrow> (Inr AEmpty, Some bs)
           | Inr (Some len) \<Rightarrow>
               if 1024 \<le> len then (Inr (AStream bs len), None)
               else if len \<le> length bs then (Inr (ABuffered (take len bs)), Some (drop len bs))
               else (Inl (Io UnexpectedEof), Some [])))"

definition parse_request_bytes ::
  "crates \<Rightarrow> bytes \<Rightarrow> (parse_error + wire_body request) \<times> bytes option" where
  "parse_request_bytes E bs =
     (case split_head [] bs of
        (head, rest) \<Rightarrow>
          (case request_head E head of
             Inl err \<Rightarrow> (Inl err, Some rest)
           | Inr (m, u, ver, h) \<Rightarrow>
               (case request_body_bytes E h rest of
                  (Inl err, src) \<Rightarrow> (Inl err, src)
                | (Inr b, src) \<Rightarrow>
                    (Inr \<lparr>rq_method = m, rq_uri = u, rq_version = ver, rq_headers = h, rq_body = b\<rparr>, src))))"

lemma request_body_abs:
  "quiet s \<Longrightarrow>
     (case request_body E h s of (r, src) \<Rightarrow> (map_sum id abs_body r, map_option bytes_of src)) =
       request_body_bytes E h (bytes_of s)"
  by (auto simp: request_body_def request_body_bytes_def stream_simps body_from_vec_def
      body_from_reader_def body_empty_def split: sum.split option.split bool.split)

lemma parse_request_abs:
  "quiet s \<Longrightarrow> abs_parsed (parse_request E s) = parse_request_bytes E (bytes_of s)"
proof -
  assume q: "quiet s"
  then obtain s' where s': "read_head [] s = (Ok (fst (split_head [] (bytes_of s))), s')"
    "quiet s'" "bytes_of s' = snd (split_head [] (bytes_of s))"
    using read_head_quiet [of s "[]"] by blast
  obtain head rest where hr: "split_head [] (bytes_of s) = (head, rest)" by (metis surj_pair)
  show ?thesis
  proof (cases "request_head E head")
    case (Inl err)
    with s' hr show ?thesis
      by (simp add: parse_request_def parse_request_bytes_def abs_parsed_def)
  next
    case (Inr p)
    obtain m u ver h where p: "p = (m, u, ver, h)" by (metis prod_cases4)
    from request_body_abs [OF s'(2), of E h] s' hr Inr p show ?thesis
      by (auto simp: parse_request_def parse_request_bytes_def abs_parsed_def abs_request_def
          split: prod.splits sum.splits)
  qed
qed

section \<open>Writing\<close>

text \<open>
  The choice of the framing, with the headers that it adds; it fails before anything is written.
\<close>

definition request_encoding ::
  "crates \<Rightarrow> http_method \<Rightarrow> version \<Rightarrow> header_map \<Rightarrow> nat option \<Rightarrow> (encoding \<times> header_map) res" where
  "request_encoding E meth ver headers len_of_body =
     (let has_chunked_encoding = has_chunked E headers;
          content_length = get_content_length E headers
      in if has_chunked_encoding \<and> ver = HTTP_11 then Ok (Chunked, headers)
         else if content_length \<noteq> None \<or> len_of_body \<noteq> None then
           (case (content_length, len_of_body) of
              (Some len, Some blen) \<Rightarrow>
                if len \<noteq> blen then Err (Other ''content-length doesn't match body length'')
                else Ok (FixedLength len, headers)
            | (Some len, None) \<Rightarrow> Ok (FixedLength len, headers)
            | (None, Some len) \<Rightarrow> Ok (FixedLength len, c_insert_content_length E len headers)
            | (None, None) \<Rightarrow> Panic)
         else if len_of_body = None \<and> meth \<noteq> ''GET'' \<and> meth \<noteq> ''HEAD'' \<and> ver = HTTP_11
           then Ok (Chunked, c_insert_te_chunked E headers)
         else Err (Other ''could not determine the size of the body''))"

fun request_version :: "version \<Rightarrow> bytes res" where
  "request_version HTTP_11 = Ok ''HTTP/1.1''"
| "request_version HTTP_10 = Ok ''HTTP/1.0''"
| "request_version _ = Err (Other ''unsupported http version'')"

definition request_line :: "http_method \<Rightarrow> uri \<Rightarrow> bytes \<Rightarrow> bytes" where
  "request_line m u v = m @ '' '' @ u @ '' '' @ v @ crlf"

text \<open>
  \<^verbatim>\<open>write_request\<close>: besides the result and the writer, the source that the consumed or dropped
  body gave up.
\<close>

definition write_request ::
  "crates \<Rightarrow> 'b http_body \<Rightarrow> 'b request \<Rightarrow> writer \<Rightarrow> unit res \<times> stream option \<times> writer" where
  "write_request E B req w =
     (let b = rq_body req in
      case request_encoding E (rq_method req) (rq_version req) (rq_headers req) (hb_len B b) of
        Err err \<Rightarrow> (Err err, hb_drop B b, w)
      | Panic \<Rightarrow> (Panic, hb_drop B b, w)
      | Ok (enc, headers) \<Rightarrow>
          (case request_version (rq_version req) of
             Err err \<Rightarrow> (Err err, hb_drop B b, w)
           | Panic \<Rightarrow> (Panic, hb_drop B b, w)
           | Ok v \<Rightarrow>
               (case act_then (write_all (request_line (rq_method req) (rq_uri req) v))
                       (act_then (write_header_lines headers) (write_all crlf)) w of
                  (Err err, w') \<Rightarrow> (Err err, hb_drop B b, w')
                | (Panic, w') \<Rightarrow> (Panic, hb_drop B b, w')
                | (Ok _, w') \<Rightarrow> write_body E B enc b w')))"

end
