(* ===== verification/Response.thy ===== *)
theory Response
  imports Request
begin

text \<open>
  \<^verbatim>\<open>src/response.rs\<close>: writing a response (the server's half) and parsing one (the client's).
  An upgrade handler is a value of a type \<open>'h\<close> that is only passed on.
\<close>

section \<open>Responses\<close>

record ('b, 'h) response =
  rs_status :: status_code
  rs_version :: version
  rs_headers :: header_map
  rs_upgrade :: "'h option"
  rs_body :: 'b

datatype 'h outcome = Close | KeepAlive | Upgrade 'h

section \<open>Writing\<close>

definition response_encoding ::
  "crates \<Rightarrow> version \<Rightarrow> header_map \<Rightarrow> nat option \<Rightarrow> (encoding \<times> header_map) res" where
  "response_encoding E ver headers len_of_body =
     (let has_chunked_encoding = has_chunked E headers;
          has_connection_close = connection_has E ''close'' headers;
          content_length = get_content_length E headers
      in if has_chunked_encoding \<and> ver = HTTP_11 then Ok (Chunked, headers)
         else if content_length \<noteq> None \<or> len_of_body \<noteq> None then
           (case (content_length, len_of_body) of
              (Some len, Some blen) \<Rightarrow>
                if len \<noteq> blen then Err (Other ''content-length doesn't match body length'')
                else Ok (FixedLength len, headers)
            | (Some len, None) \<Rightarrow> Ok (FixedLength len, headers)
            | (None, Some len) \<Rightarrow> Ok (FixedLength len, c_insert_content_length E len headers)
            | (None, None) \<Rightarrow> Panic)
         else if len_of_body = None \<and> \<not> has_connection_close \<and> ver = HTTP_11
           then Ok (Chunked, c_insert_te_chunked E headers)
         else Ok (CloseDelimited,
                  if \<not> has_connection_close then c_insert_connection_close E headers else headers))"

text \<open>The headers as they are written: HTTP/1.0 knows no transfer encoding.\<close>

definition response_headers :: "crates \<Rightarrow> version \<Rightarrow> bool \<Rightarrow> header_map \<Rightarrow> header_map" where
  "response_headers E ver has_chunked_encoding headers =
     (if ver = HTTP_10 \<and> has_chunked_encoding then c_remove E ''transfer-encoding'' headers
      else headers)"

definition status_line :: "crates \<Rightarrow> version \<Rightarrow> status_code \<Rightarrow> bytes" where
  "status_line E ver status = c_version_debug E ver @ '' '' @ c_status_display E status @ crlf"

definition response_outcome ::
  "crates \<Rightarrow> 'h option \<Rightarrow> encoding \<Rightarrow> header_map \<Rightarrow> 'h outcome" where
  "response_outcome E upgrade enc headers =
     (case upgrade of
        Some h \<Rightarrow> Upgrade h
      | None \<Rightarrow> if enc = CloseDelimited \<or> connection_has E ''close'' headers then Close else KeepAlive)"

definition write_response ::
  "crates \<Rightarrow> 'b http_body \<Rightarrow> ('b, 'h) response \<Rightarrow> bool \<Rightarrow> writer \<Rightarrow>
     'h outcome res \<times> stream option \<times> writer" where
  "write_response E B res with_body w =
     (let b = rs_body res in
      case response_encoding E (rs_version res) (rs_headers res) (hb_len B b) of
        Err err \<Rightarrow> (Err err, hb_drop B b, w)
      | Panic \<Rightarrow> (Panic, hb_drop B b, w)
      | Ok (enc, headers0) \<Rightarrow>
          (let headers = response_headers E (rs_version res) (has_chunked E (rs_headers res)) headers0;
               outcome = response_outcome E (rs_upgrade res) enc headers
           in case act_then (write_all (status_line E (rs_version res) (rs_status res)))
                     (act_then (write_header_lines headers) (write_all crlf)) w of
                (Err err, w') \<Rightarrow> (Err err, hb_drop B b, w')
              | (Panic, w') \<Rightarrow> (Panic, hb_drop B b, w')
              | (Ok _, w') \<Rightarrow>
                  if with_body then
                    (case write_body E B enc b w' of
                       (r, src, w'') \<Rightarrow> (map_res (\<lambda>_. outcome) r, src, w''))
                  else (Ok outcome, hb_drop B b, w')))"

section \<open>Parsing\<close>

text \<open>
  As for requests, and in addition a response that announces the end of the connection has
  the rest of the connection as its body.
\<close>

definition response_body ::
  "crates \<Rightarrow> header_map \<Rightarrow> stream \<Rightarrow> (parse_error + body) \<times> stream option" where
  "response_body E h s =
     (case c_transfer_encoding E h of
        Inl _ \<Rightarrow> (Inl InvalidHeader, Some s)
      | Inr (Some is_chunked) \<Rightarrow>
          if \<not> is_chunked then (Inl InvalidTransferEncoding, Some s)
          else (Inr (Body (Some (Iter (ChunkedReader s)))), None)
      | Inr None \<Rightarrow>
          (case c_content_length E h of
             Inl _ \<Rightarrow> (Inl InvalidHeader, Some s)
           | Inr (Some len) \<Rightarrow>
               if len < 1024 then
                 (case read_exact len s of
                    (Ok buf, s') \<Rightarrow> (Inr (body_from_vec buf), Some s')
                  | (Err err, s') \<Rightarrow> (Inl (Io err), Some s')
                  | (Panic, s') \<Rightarrow> (Inl Unknown, Some s'))
               else (Inr (body_from_reader s (Some len)), None)
           | Inr None \<Rightarrow>
               if connection_has E ''close'' h then (Inr (body_from_reader s None), None)
               else (Inr body_empty, Some s)))"

definition response_head ::
  "crates \<Rightarrow> bytes \<Rightarrow> parse_error + status_code \<times> version \<times> header_map" where
  "response_head E buf =
     (if buf = [] then Inl IncompleteRequest
      else case c_parse_response E buf of
        Inl err \<Rightarrow> Inl (Invalid err)
      | Inr res \<Rightarrow>
          (case Option.bind (ps_code res) (c_status_from_u16 E) of
             None \<Rightarrow> Inl IncompleteRequest
           | Some status \<Rightarrow>
               (case ps_version res of
                  None \<Rightarrow> Inl IncompleteRequest
                | Some n \<Rightarrow>
                    (case version_of n of
                       Inl err \<Rightarrow> Inl err
                     | Inr ver \<Rightarrow>
                         (case builder_headers E (ps_headers res) (Some []) of
                            None \<Rightarrow> Inl Unknown
                          | Some h \<Rightarrow> Inr (status, ver, h))))))"

definition parse_response ::
  "crates \<Rightarrow> stream \<Rightarrow> (parse_error + (body, 'h) response) \<times> stream option" where
  "parse_response E s =
     (case read_head [] s of
        (Err err, s') \<Rightarrow> (Inl (Io err), Some s')
      | (Panic, s') \<Rightarrow> (Inl Unknown, Some s')
      | (Ok buf, s') \<Rightarrow>
          (case response_head E buf of
             Inl err \<Rightarrow> (Inl err, Some s')
           | Inr (status, ver, h) \<Rightarrow>
               (case response_body E h s' of
                  (Inl err, src) \<Rightarrow> (Inl err, src)
                | (Inr b, src) \<Rightarrow>
                    (Inr \<lparr>rs_status = status, rs_version = ver, rs_headers = h, rs_upgrade = None,
                       rs_body = b\<rparr>, src))))"

end
