(* ===== verification/Message_Spec.thy ===== *)
theory Message_Spec
  imports Response
begin

text \<open>
  What the two writers and the two parsers promise each other: the head that a writer produces is
  found again by the reading loop, the framing that a writer chooses is the one that its headers
  announce, and a message written is the message parsed, for every segmentation.
\<close>

section \<open>Heads\<close>

text \<open>A head made of lines: every line has some content and no line feed inside.\<close>

definition head_text :: "bytes list \<Rightarrow> bytes" where
  "head_text ls = concat (map (\<lambda>l. l @ crlf) ls) @ crlf"

definition line_ok :: "bytes \<Rightarrow> bool" where
  "line_ok l \<longleftrightarrow> l \<noteq> [] \<and> LF \<notin> set l"

lemma upto_delim_line: "LF \<notin> set l \<Longrightarrow> upto_delim LF (l @ crlf @ rest) = l @ crlf"
  by (simp add: upto_delim_append crlf_def)

lemma ends_with_append: "length p \<le> length bs \<Longrightarrow> ends_with (acc @ bs) p = ends_with bs p"
  by (auto simp: ends_with_def)

lemma ends_with_snocs:
  "ends_with (bs @ [a, b]) (p @ [c, d]) \<longleftrightarrow> a = c \<and> b = d \<and> ends_with bs p"
  using ends_with_snoc [of "bs @ [a]" b "p @ [c]" d] ends_with_snoc [of bs a p c] by auto

lemma ends_with_LF: "bs \<noteq> [] \<Longrightarrow> LF \<notin> set bs \<Longrightarrow> \<not> ends_with (acc @ bs) [x, LF]"
  by (cases bs rule: rev_cases) (use ends_with_snoc [of "acc @ _" _ "[x]" LF] in auto)

lemma line_incomplete: "line_ok l \<Longrightarrow> \<not> head_complete (acc @ l @ crlf)"
  using ends_with_LF [of l acc CR] ends_with_snocs [of "acc @ l" CR LF "[CR, LF]" CR LF]
    ends_with_snocs [of "acc @ l" CR LF "[]" LF LF]
  by (auto simp: head_complete_def line_ok_def crlf_def)

lemma empty_line_complete: "head_complete (acc @ l @ crlf @ crlf)"
proof -
  have "ends_with ((acc @ l) @ crlf @ crlf) [CR, LF, CR, LF]"
    by (subst ends_with_append) (simp_all add: crlf_def ends_with_def)
  then show ?thesis by (simp add: head_complete_def)
qed

lemma split_head_lines:
  "ls \<noteq> [] \<Longrightarrow> list_all line_ok ls \<Longrightarrow> split_head acc (head_text ls @ rest) = (acc @ head_text ls, rest)"
proof (induction ls arbitrary: acc)
  case Nil
  then show ?case by simp
next
  case (Cons l ls)
  let ?bs = "head_text (l # ls) @ rest"
  have bs: "?bs = l @ crlf @ head_text ls @ rest" by (simp add: head_text_def)
  have "LF \<notin> set l" using Cons.prems by (simp add: line_ok_def)
  then have "upto_delim LF ?bs = l @ crlf" unfolding bs by (rule upto_delim_line)
  moreover have "?bs \<noteq> []" by (simp add: head_text_def)
  moreover have "drop (length (l @ crlf)) ?bs = head_text ls @ rest" using bs by simp
  ultimately have first: "split_head acc ?bs = split_head (acc @ l @ crlf) (head_text ls @ rest)"
    using line_incomplete [of l acc] Cons.prems split_head_line [of ?bs acc] by (simp add: Let_def)
  show ?case
  proof (cases "ls = []")
    case True
    let ?acc = "acc @ l @ crlf"
    have "upto_delim LF (crlf @ rest) = crlf" "crlf @ rest \<noteq> []" by simp_all
    then have "split_head ?acc (crlf @ rest) = (?acc @ crlf, rest)"
      using empty_line_complete [of acc l] split_head_line [of "crlf @ rest" ?acc]
      by (simp add: Let_def)
    with True first show ?thesis by (simp add: head_text_def)
  next
    case False
    with Cons.IH [of "acc @ l @ crlf"] Cons.prems first show ?thesis by (simp add: head_text_def)
  qed
qed

text \<open>What the header fields of a message must look like for its head to be readable.\<close>

definition header_ok :: "header_name \<times> bytes \<Rightarrow> bool" where
  "header_ok h \<longleftrightarrow> LF \<notin> set (fst h) \<and> LF \<notin> set (snd h)"

definition header_text :: "header_name \<times> bytes \<Rightarrow> bytes" where
  "header_text h = fst h @ '': '' @ snd h"

lemma header_line_text: "header_line h = header_text h @ crlf"
  by (simp add: header_line_def header_text_def split: prod.split)

lemma header_text_ok: "header_ok h \<Longrightarrow> line_ok (header_text h)"
  by (auto simp: header_ok_def header_text_def line_ok_def)

lemma head_text_of_message:
  "(start @ crlf) @ concat (map header_line hs) @ crlf = head_text (start # map header_text hs)"
  by (induction hs) (simp_all add: head_text_def header_line_text)

lemma split_head_message:
  assumes "line_ok start" "list_all header_ok hs"
  shows "split_head [] (((start @ crlf) @ concat (map header_line hs) @ crlf) @ rest) =
    ((start @ crlf) @ concat (map header_line hs) @ crlf, rest)"
  using split_head_lines [of "start # map header_text hs" "[]" rest] assms
  by (simp add: head_text_of_message list_all_iff header_text_ok del: append_assoc)

section \<open>Framing\<close>

text \<open>
  \<open>announces E h enc\<close>: a receiver that only sees the header fields \<open>h\<close> finds the end of the body
  by the rule \<open>enc\<close>.  A chunked transfer encoding overrides a content length.
\<close>

definition announces :: "crates \<Rightarrow> header_map \<Rightarrow> encoding \<Rightarrow> bool" where
  "announces E h enc \<longleftrightarrow>
     (case enc of
        Chunked \<Rightarrow> has_chunked E h
      | FixedLength n \<Rightarrow> \<not> has_chunked E h \<and> get_content_length E h = Some n
      | CloseDelimited \<Rightarrow>
          \<not> has_chunked E h \<and> get_content_length E h = None \<and> connection_has E ''close'' h)"

definition length_agrees :: "encoding \<Rightarrow> nat option \<Rightarrow> bool" where
  "length_agrees enc len_of_body \<longleftrightarrow>
     (\<forall>n. enc = FixedLength n \<longrightarrow> len_of_body = None \<or> len_of_body = Some n)"

lemma response_encoding_total:
  "response_encoding E ver h l \<noteq> Panic"
  "response_encoding E ver h l = Err e \<longleftrightarrow>
     \<not> (has_chunked E h \<and> ver = HTTP_11) \<and>
     (\<exists>m n. get_content_length E h = Some m \<and> l = Some n \<and> m \<noteq> n) \<and>
     e = Other ''content-length doesn't match body length''"
  by (auto simp: response_encoding_def Let_def split: option.splits if_splits)

lemma response_encoding_cases:
  assumes "response_encoding E ver h l = Ok (enc, h')"
  obtains (chunked) "enc = Chunked" "h' = h" "has_chunked E h" "ver = HTTP_11"
  | (fixed) n where "enc = FixedLength n" "h' = h" "get_content_length E h = Some n"
      "l = None \<or> l = Some n" "\<not> (has_chunked E h \<and> ver = HTTP_11)"
  | (measured) n where "enc = FixedLength n" "h' = c_insert_content_length E n h"
      "get_content_length E h = None" "l = Some n" "\<not> (has_chunked E h \<and> ver = HTTP_11)"
  | (streamed) "enc = Chunked" "h' = c_insert_te_chunked E h" "get_content_length E h = None"
      "l = None" "ver = HTTP_11" "\<not> has_chunked E h"
  | (closed) "enc = CloseDelimited" "get_content_length E h = None" "l = None"
      "h' = (if connection_has E ''close'' h then h else c_insert_connection_close E h)"
      "\<not> (has_chunked E h \<and> ver = HTTP_11)"
  using assms by (auto simp: response_encoding_def Let_def split: if_splits option.splits)

lemma response_encoding_length: "response_encoding E ver h l = Ok (enc, h') \<Longrightarrow> length_agrees enc l"
  by (erule response_encoding_cases) (auto simp: length_agrees_def)

lemma response_encoding_chunked: "response_encoding E ver h l = Ok (Chunked, h') \<Longrightarrow> ver = HTTP_11"
  by (erule response_encoding_cases) auto

text \<open>The typed views after the inserts and the removal.\<close>

lemma typed_inserts:
  assumes "typed_insert_law E"
  shows "get_content_length E (c_insert_content_length E n h) = Some n"
    "has_chunked E (c_insert_content_length E n h) = has_chunked E h"
    "connection_has E opt (c_insert_content_length E n h) = connection_has E opt h"
    "has_chunked E (c_insert_te_chunked E h)"
    "get_content_length E (c_insert_te_chunked E h) = get_content_length E h"
    "connection_has E opt (c_insert_te_chunked E h) = connection_has E opt h"
    "connection_has E ''close'' (c_insert_connection_close E h)"
    "get_content_length E (c_insert_connection_close E h) = get_content_length E h"
    "has_chunked E (c_insert_connection_close E h) = has_chunked E h"
  using assms
  by (simp_all add: typed_insert_law_def get_content_length_def has_chunked_def connection_has_def)

lemma remove_te:
  assumes "remove_te_law E"
  shows "\<not> has_chunked E (c_remove E ''transfer-encoding'' h)"
    "get_content_length E (c_remove E ''transfer-encoding'' h) = get_content_length E h"
    "connection_has E opt (c_remove E ''transfer-encoding'' h) = connection_has E opt h"
  using assms
  by (simp_all add: remove_te_law_def get_content_length_def has_chunked_def connection_has_def)

text \<open>
  A response of a version that can be received announces the framing that is used; on HTTP/1.0
  it is never chunked.
\<close>

lemma response_encoding_announced:
  assumes "typed_insert_law E" "remove_te_law E" "ver = HTTP_10 \<or> ver = HTTP_11"
    "response_encoding E ver h l = Ok (enc, h')"
  shows "announces E (response_headers E ver (has_chunked E h) h') enc"
  using assms(4)
proof (cases rule: response_encoding_cases)
  case closed
  with assms show ?thesis
    by (auto simp: announces_def response_headers_def typed_inserts remove_te)
qed (use assms in \<open>auto simp: announces_def response_headers_def typed_inserts remove_te\<close>)

lemma response_outcome_simps:
  "response_outcome E (Some x) enc h = Upgrade x"
  "response_outcome E None enc h =
     (if enc = CloseDelimited \<or> connection_has E ''close'' h then Close else KeepAlive)"
  by (simp_all add: response_outcome_def)

section \<open>Requests\<close>

lemma request_encoding_total:
  "request_encoding E m ver h l \<noteq> Panic"
  by (auto simp: request_encoding_def Let_def split: option.splits)

lemma request_encoding_cases:
  assumes "request_encoding E m ver h l = Ok (enc, h')"
  obtains (chunked) "enc = Chunked" "h' = h" "has_chunked E h" "ver = HTTP_11"
  | (fixed) n where "enc = FixedLength n" "h' = h" "get_content_length E h = Some n"
      "l = None \<or> l = Some n" "\<not> (has_chunked E h \<and> ver = HTTP_11)"
  | (measured) n where "enc = FixedLength n" "h' = c_insert_content_length E n h"
      "get_content_length E h = None" "l = Some n" "\<not> (has_chunked E h \<and> ver = HTTP_11)"
  | (streamed) "enc = Chunked" "h' = c_insert_te_chunked E h" "get_content_length E h = None"
      "l = None" "ver = HTTP_11" "\<not> has_chunked E h" "m \<noteq> ''GET''" "m \<noteq> ''HEAD''"
  using assms by (auto simp: request_encoding_def Let_def split: if_splits option.splits)

lemma request_encoding_announced:
  assumes "typed_insert_law E" "ver = HTTP_11" "request_encoding E m ver h l = Ok (enc, h')"
  shows "announces E h' enc \<and> length_agrees enc l"
  using assms(3)
  by (cases rule: request_encoding_cases)
    (use assms in \<open>auto simp: announces_def typed_inserts length_agrees_def\<close>)

end
