(* ===== verification/Write_Spec.thy ===== *)
theory Write_Spec
  imports Message_Spec
begin

text \<open>
  The exact output of the two writers, for any body type that keeps the contract of
  \<^verbatim>\<open>HttpBody\<close> and a connection that does not break; and what they never do, for any body and
  any connection.
\<close>

section \<open>Bodies\<close>

text \<open>The bytes that a body with the given content function is sent as under a framing.\<close>

definition body_chunks :: "crates \<Rightarrow> 'b http_body \<Rightarrow> 'b \<Rightarrow> (io_error + chunk) list" where
  "body_chunks E B b =
     (case hb_into_chunks B b of Ok it \<Rightarrow> fst (chunk_collect E it) | _ \<Rightarrow> [])"

definition body_wire ::
  "crates \<Rightarrow> 'b http_body \<Rightarrow> ('b \<Rightarrow> bytes) \<Rightarrow> encoding \<Rightarrow> 'b \<Rightarrow> bytes" where
  "body_wire E B content enc b =
     (if enc = Chunked then chunked_wire E (body_chunks E B b) else content b)"

context http_body_contract
begin

lemma copy_body_content:
  assumes "good b" "w_cap w = None"
  shows "\<exists>src w'. copy_body E B b w = (Ok (), src, w') \<and> w_out w' = w_out w @ content b \<and> w_cap w' = None"
proof -
  from assms obtain r r' where "hb_into_reader B b = Ok r"
    "io_copy E r w = (Ok (length (content b)), r', w\<lparr>w_out := w_out w @ content b\<rparr>)"
    by (rule copy_content)
  with assms show ?thesis by (simp add: copy_body_def)
qed

lemma write_body_plain:
  assumes "good b" "w_cap w = None" "enc \<noteq> Chunked"
  shows "\<exists>src w'. write_body E B enc b w = (Ok (), src, w') \<and> w_out w' = w_out w @ content b \<and> w_cap w' = None"
proof (cases "\<exists>n. enc = FixedLength n \<and> n < 1024")
  case True
  then obtain n where n: "enc = FixedLength n" "n < 1024" by blast
  obtain src where "hb_into_bytes B b = (Ok (content b), src)"
    using bytes_content [OF assms(1)] by (metis prod.collapse)
  with n assms(2) show ?thesis by (simp add: write_body_def)
next
  case False
  then have "write_body E B enc b w = copy_body E B b w"
    using assms(3) by (auto simp: write_body_def split: encoding.splits)
  with copy_body_content [OF assms(1,2)] show ?thesis by simp
qed

end

context chunked_body_contract
begin

lemma body_chunks_content:
  assumes "good b"
  shows "list_all isr (body_chunks E B b)" "concat (map chunk_data (body_chunks E B b)) = content b"
  using chunks_of [OF assms] by (auto simp: body_chunks_def)

lemma write_body_wire:
  assumes "good b" "w_cap w = None"
  shows "\<exists>src w'. write_body E B enc b w = (Ok (), src, w') \<and>
    w_out w' = w_out w @ body_wire E B content enc b \<and> w_cap w' = None"
proof (cases "enc = Chunked")
  case True
  from chunks_of [OF assms(1)] obtain it where it: "hb_into_chunks B b = Ok it"
    "list_all isr (fst (chunk_collect E it))" by blast
  from write_chunked_body_items [OF it(2) assms(2)] obtain src w' where
    "write_chunked_body E it w = (Ok (), src, w')"
    "w_out w' = w_out w @ chunked_wire E (fst (chunk_collect E it))" "w_cap w' = None" by blast
  with True it show ?thesis by (auto simp: write_body_def body_wire_def body_chunks_def)
next
  case False
  with write_body_plain [OF assms False] show ?thesis by (auto simp: body_wire_def)
qed

end

section \<open>Heads\<close>

lemma write_head_healthy:
  "w_cap w = None \<Longrightarrow>
     act_then (write_all start) (act_then (write_header_lines hs) (write_all crlf)) w =
       (Ok (), w\<lparr>w_out := w_out w @ start @ concat (map header_line hs) @ crlf\<rparr>)"
  by (simp add: io_simps write_header_lines_healthy)

lemma write_head_not_Panic:
  "act_then (write_all start) (act_then (write_header_lines hs) (write_all crlf)) w \<noteq> (Panic, w')"
  by (auto simp: io_simps write_all_not_Panic write_header_lines_not_Panic split: prod.splits res.splits)

section \<open>Responses\<close>

text \<open>Everything that is decided before the first byte is written.\<close>

definition response_plan ::
  "crates \<Rightarrow> nat option \<Rightarrow> ('b, 'h) response \<Rightarrow> (encoding \<times> header_map) res" where
  "response_plan E l res =
     map_res (\<lambda>(enc, h). (enc, response_headers E (rs_version res) (has_chunked E (rs_headers res)) h))
       (response_encoding E (rs_version res) (rs_headers res) l)"

definition response_text :: "crates \<Rightarrow> ('b, 'h) response \<Rightarrow> header_map \<Rightarrow> bytes" where
  "response_text E res h =
     status_line E (rs_version res) (rs_status res) @ concat (map header_line h) @ crlf"

lemma response_plan_eq:
  "response_plan E l res = Ok (enc, h) \<longleftrightarrow>
     (\<exists>h0. response_encoding E (rs_version res) (rs_headers res) l = Ok (enc, h0) \<and>
       h = response_headers E (rs_version res) (has_chunked E (rs_headers res)) h0)"
  "response_plan E l res = Err err \<longleftrightarrow>
     response_encoding E (rs_version res) (rs_headers res) l = Err err"
  "response_plan E l res \<noteq> Panic"
  using response_encoding_total(1) [of E "rs_version res" "rs_headers res" l]
  by (cases "response_encoding E (rs_version res) (rs_headers res) l";
      auto simp: response_plan_def)+

lemma response_plan_announced:
  assumes "typed_insert_law E" "remove_te_law E" "rs_version res = HTTP_10 \<or> rs_version res = HTTP_11"
    "response_plan E l res = Ok (enc, h)"
  shows "announces E h enc" "length_agrees enc l" "enc = Chunked \<Longrightarrow> rs_version res = HTTP_11"
proof -
  from assms(4) obtain h0 where h0: "response_encoding E (rs_version res) (rs_headers res) l = Ok (enc, h0)"
    and h: "h = response_headers E (rs_version res) (has_chunked E (rs_headers res)) h0"
    by (auto simp: response_plan_eq)
  show "announces E h enc" using response_encoding_announced [OF assms(1-3) h0] h by simp
  show "length_agrees enc l" by (rule response_encoding_length [OF h0])
  show "enc = Chunked \<Longrightarrow> rs_version res = HTTP_11" using h0 response_encoding_chunked by metis
qed

lemma write_response_mismatch:
  "response_plan E (hb_len B (rs_body res)) res = Err err \<Longrightarrow>
     write_response E B res wb w = (Err err, hb_drop B (rs_body res), w)"
  by (auto simp: response_plan_eq write_response_def Let_def)

text \<open>Without its body a response is its head.\<close>

lemma write_response_head:
  assumes "response_plan E (hb_len B (rs_body res)) res = Ok (enc, h)" "w_cap w = None"
  shows "write_response E B res False w =
    (Ok (response_outcome E (rs_upgrade res) enc h), hb_drop B (rs_body res),
     w\<lparr>w_out := w_out w @ response_text E res h\<rparr>)"
  using assms
  by (auto simp: response_plan_eq write_response_def write_head_healthy response_text_def Let_def)

lemma write_response_body:
  assumes "response_plan E (hb_len B (rs_body res)) res = Ok (enc, h)" "w_cap w = None"
  shows "write_response E B res True w =
    (case write_body E B enc (rs_body res) (w\<lparr>w_out := w_out w @ response_text E res h\<rparr>) of
       (r, src, w'') \<Rightarrow> (map_res (\<lambda>_. response_outcome E (rs_upgrade res) enc h) r, src, w''))"
  using assms
  by (auto simp: response_plan_eq write_response_def write_head_healthy response_text_def Let_def
      split: prod.splits)

context chunked_body_contract
begin

lemma write_response_wire:
  assumes "response_plan E (hb_len B (rs_body res)) res = Ok (enc, h)" "w_cap w = None"
    "good (rs_body res)"
  shows "\<exists>src w'. write_response E B res True w =
      (Ok (response_outcome E (rs_upgrade res) enc h), src, w') \<and>
    w_out w' = w_out w @ response_text E res h @ body_wire E B content enc (rs_body res) \<and>
    w_cap w' = None"
proof -
  let ?w = "w\<lparr>w_out := w_out w @ response_text E res h\<rparr>"
  have "w_cap ?w = None" using assms(2) by simp
  from write_body_wire [OF assms(3) this, of enc] obtain src w' where
    "write_body E B enc (rs_body res) ?w = (Ok (), src, w')"
    "w_out w' = w_out ?w @ body_wire E B content enc (rs_body res)" "w_cap w' = None" by blast
  with write_response_body [OF assms(1,2)] show ?thesis by auto
qed

end

section \<open>Requests\<close>

definition request_text :: "'b request \<Rightarrow> bytes \<Rightarrow> header_map \<Rightarrow> bytes" where
  "request_text req v h =
     request_line (rq_method req) (rq_uri req) v @ concat (map header_line h) @ crlf"

definition request_plan ::
  "crates \<Rightarrow> nat option \<Rightarrow> 'b request \<Rightarrow> (encoding \<times> header_map) res" where
  "request_plan E l req =
     request_encoding E (rq_method req) (rq_version req) (rq_headers req) l"

context chunked_body_contract
begin

lemma write_request_wire:
  assumes "request_plan E (hb_len B (rq_body req)) req = Ok (enc, h)"
    "request_version (rq_version req) = Ok v" "w_cap w = None" "good (rq_body req)"
  shows "\<exists>src w'. write_request E B req w = (Ok (), src, w') \<and>
    w_out w' = w_out w @ request_text req v h @ body_wire E B content enc (rq_body req) \<and>
    w_cap w' = None"
proof -
  let ?w = "w\<lparr>w_out := w_out w @ request_text req v h\<rparr>"
  have "w_cap ?w = None" using assms(3) by simp
  from write_body_wire [OF assms(4) this, of enc] obtain src w' where
    "write_body E B enc (rq_body req) ?w = (Ok (), src, w')"
    "w_out w' = w_out ?w @ body_wire E B content enc (rq_body req)" "w_cap w' = None" by blast
  with assms show ?thesis
    by (auto simp: write_request_def request_plan_def write_head_healthy request_text_def Let_def)
qed

end

end
