(* ===== verification/Round_Trip.thy ===== *)
theory Round_Trip
  imports Write_Spec
begin

text \<open>
  A message written by one side is the message parsed by the other side, whatever blocks the
  network cuts it into.  What the parsing crates must do is stated for the message at hand:
  \<^verbatim>\<open>httparse\<close> reads the head that \<^verbatim>\<open>write_response\<close> or \<^verbatim>\<open>write_request\<close> prints.
\<close>

section \<open>Header lists\<close>

text \<open>\<^verbatim>\<open>Builder::header\<close> appends the fields of \<open>h\<close> one by one.\<close>

definition builds_headers :: "crates \<Rightarrow> header_map \<Rightarrow> bool" where
  "builds_headers E h \<longleftrightarrow>
     (\<forall>i < length h. c_builder_header E (fst (h ! i)) (snd (h ! i)) (take i h) = Some (take (Suc i) h))"

lemma builds_headers_snoc:
  "builds_headers E (h @ [x]) \<longleftrightarrow>
     builds_headers E h \<and> c_builder_header E (fst x) (snd x) h = Some (h @ [x])"
  by (auto simp: builds_headers_def nth_append less_Suc_eq)

lemma takeWhile_entries: "EMPTY_HEADER \<notin> set h \<Longrightarrow> takeWhile (\<lambda>x. x \<noteq> EMPTY_HEADER) (h @ replicate k EMPTY_HEADER) = h"
  by (induction h) (cases k; auto)+

lemma builder_headers_entries:
  assumes "builds_headers E h" "EMPTY_HEADER \<notin> set h"
  shows "builder_headers E (h @ replicate k EMPTY_HEADER) (Some []) = Some h"
proof -
  have "fold (\<lambda>(name, val) m. Option.bind m (c_builder_header E name val)) h (Some []) = Some h"
    using assms(1)
    by (induction h rule: rev_induct) (auto simp: builds_headers_snoc split: prod.split)
  with assms(2) show ?thesis by (simp add: builder_headers_def takeWhile_entries)
qed

section \<open>Bodies\<close>

text \<open>The typed headers of a message are readable, and no foreign transfer coding is present.\<close>

definition clean_headers :: "crates \<Rightarrow> header_map \<Rightarrow> bool" where
  "clean_headers E h \<longleftrightarrow>
     c_transfer_encoding E h \<in> {Inr None, Inr (Some True)} \<and> (\<exists>l. c_content_length E h = Inr l)"

definition chunks_sendable :: "(io_error + chunk) list \<Rightarrow> bool" where
  "chunks_sendable xs \<longleftrightarrow>
     list_all isr xs \<and> (\<forall>c \<in> set (data_chunks xs). c \<noteq> [] \<and> length c < 2 ^ 64)"

text \<open>The source once a received body has been read: the connection when the body owned it.\<close>

definition source_after :: "crates \<Rightarrow> body \<Rightarrow> stream option \<Rightarrow> stream option" where
  "source_after E b src = (case src of Some s \<Rightarrow> Some s | None \<Rightarrow> snd (into_bytes E b))"

text \<open>What a chunked message leaves unread: its trailer section.\<close>

definition unread_part :: "crates \<Rightarrow> (io_error + chunk) list \<Rightarrow> encoding \<Rightarrow> bytes" where
  "unread_part E xs enc =
     (if enc = Chunked
      then concat (map header_line (gather_trailers E (trailer_chunks xs) [])) @ crlf else [])"

lemma chunked_body_received:
  assumes law: "chunk_size_law E" and q: "quiet s" and xs: "chunks_sendable xs"
    and bs: "bytes_of s = chunked_wire E xs @ rest"
  defines "b \<equiv> Body (Some (Iter (ChunkedReader s)))"
  shows "body_good E b \<and> body_content E b = concat (map chunk_data xs) \<and>
    (\<exists>s'. snd (into_bytes E b) = Some s' \<and> quiet s' \<and>
      bytes_of s' = unread_part E xs Chunked @ rest)"
proof -
  from decode_chunked_wire [OF law q _ bs] xs obtain s' where
    s': "chunked_collect E s = (data_chunks xs, s')" "quiet s'"
      "bytes_of s' = concat (map header_line (gather_trailers E (trailer_chunks xs) [])) @ crlf @ rest"
    by (auto simp: chunks_sendable_def)
  have it: "iter_collect E (ChunkedReader s) = (map (\<lambda>c. Inr (Data c)) (data_chunks xs), ChunkedReader s')"
    by (simp add: s')
  have "body_good E b" by (simp add: b_def iter_ok_def it list_all_iff s')
  moreover have "body_content E b = concat (map chunk_data xs)"
    by (simp add: b_def iter_content_def it o_def s' flip: concat_data_chunks)
  moreover have "snd (into_bytes E b) = Some s'"
  proof -
    have "data_collect E (ChunkedReader s) = (map Inr (data_chunks xs), ChunkedReader s')"
      unfolding data_collect_def it
      by (simp add: List.map_filter_def o_def comp_def)
    then have "collect_data E (ChunkedReader s) = (Ok (data_chunks xs), ChunkedReader s')"
      by (rule collect_data_end)
    then show ?thesis by (simp add: b_def)
  qed
  ultimately show ?thesis using s' by (simp add: unread_part_def)
qed

text \<open>
  \<open>received_body\<close>: whatever the framing, the receiver's body has the content that was sent, and
  reading it leaves the connection right behind it (up to the trailer section of a chunked one).
\<close>

definition framed ::
  "crates \<Rightarrow> header_map \<Rightarrow> encoding \<Rightarrow> bytes \<Rightarrow> (io_error + chunk) list \<Rightarrow> bool" where
  "framed E h enc content xs \<longleftrightarrow>
     announces E h enc \<and> clean_headers E h \<and>
     (\<forall>n. enc = FixedLength n \<longrightarrow> n = length content) \<and>
     (enc = Chunked \<longrightarrow>
        chunk_size_law E \<and> chunks_sendable xs \<and> content = concat (map chunk_data xs))"

definition framed_wire ::
  "crates \<Rightarrow> encoding \<Rightarrow> bytes \<Rightarrow> (io_error + chunk) list \<Rightarrow> bytes" where
  "framed_wire E enc content xs = (if enc = Chunked then chunked_wire E xs else content)"

lemma framed_headers:
  assumes "framed E h enc content xs"
  shows "c_transfer_encoding E h = (if enc = Chunked then Inr (Some True) else Inr None)"
    "enc = FixedLength n \<Longrightarrow> n = length content \<and> c_content_length E h = Inr (Some n)"
    "enc = CloseDelimited \<Longrightarrow> c_content_length E h = Inr None \<and> connection_has E ''close'' h"
  using assms
  by (auto simp: framed_def announces_def clean_headers_def has_chunked_def get_content_length_def
      split: encoding.splits)

lemma response_received:
  assumes f: "framed E h enc content xs" and q: "quiet s"
    and bs: "bytes_of s = framed_wire E enc content xs @ rest"
    and eof: "enc = CloseDelimited \<Longrightarrow> rest = []"
  shows "\<exists>b src s'. response_body E h s = (Inr b, src) \<and> body_good E b \<and> body_content E b = content \<and>
    source_after E b src = Some s' \<and> quiet s' \<and> bytes_of s' = unread_part E xs enc @ rest"
proof (cases enc)
  case (FixedLength n)
  then have bc: "bytes_of s = content @ rest" using bs by (simp add: framed_wire_def)
  show ?thesis
  proof (cases "n < 1024")
    case True
    with FixedLength framed_headers(1,2) [OF f] q bc show ?thesis
      by (auto simp: response_body_def stream_simps source_after_def body_from_vec_def unread_part_def)
  next
    case False
    with FixedLength framed_headers(1,2) [OF f] q bc show ?thesis
      by (auto simp: response_body_def stream_simps source_after_def body_from_reader_def unread_part_def)
  qed
next
  case Chunked
  with chunked_body_received [OF _ q, of E xs rest] f bs framed_headers(1) [OF f] show ?thesis
    by (auto simp: response_body_def framed_wire_def framed_def source_after_def)
next
  case CloseDelimited
  then have "bytes_of s = content" using bs eof by (simp add: framed_wire_def)
  with CloseDelimited framed_headers(1,3) [OF f] q eof show ?thesis
    by (auto simp: response_body_def stream_simps source_after_def body_from_reader_def unread_part_def)
qed

text \<open>Requests know no body that ends with the connection.\<close>

lemma request_received:
  assumes f: "framed E h enc content xs" and q: "quiet s"
    and bs: "bytes_of s = framed_wire E enc content xs @ rest" and enc: "enc \<noteq> CloseDelimited"
  shows "\<exists>b src s'. request_body E h s = (Inr b, src) \<and> body_good E b \<and> body_content E b = content \<and>
    source_after E b src = Some s' \<and> quiet s' \<and> bytes_of s' = unread_part E xs enc @ rest"
proof -
  have "request_body E h s = response_body E h s"
    using framed_headers(1,2) [OF f] enc
    by (cases enc) (simp_all add: request_body_def response_body_def)
  with response_received [OF f q bs] enc show ?thesis by simp
qed

section \<open>Responses\<close>

text \<open>What \<^verbatim>\<open>httparse\<close>, \<^verbatim>\<open>StatusCode\<close> and the builder do with the head of one response.\<close>

definition response_readable :: "crates \<Rightarrow> version \<Rightarrow> status_code \<Rightarrow> header_map \<Rightarrow> bool" where
  "response_readable E ver status h \<longleftrightarrow>
     line_ok (c_version_debug E ver @ '' '' @ c_status_display E status) \<and> list_all header_ok h \<and>
     (\<exists>n k. version_of n = Inr ver \<and>
        c_parse_response E (status_line E ver status @ concat (map header_line h) @ crlf) =
          Inr \<lparr>ps_code = Some status, ps_version = Some n, ps_headers = h @ replicate k EMPTY_HEADER\<rparr>) \<and>
     c_status_from_u16 E status = Some status \<and> builds_headers E h \<and> EMPTY_HEADER \<notin> set h"

lemma version_of_Inr: "version_of n = Inr ver \<Longrightarrow> ver = HTTP_10 \<or> ver = HTTP_11"
  by (auto split: if_splits)

lemma response_head_read:
  "response_readable E ver status h \<Longrightarrow>
     response_head E (status_line E ver status @ concat (map header_line h) @ crlf) = Inr (status, ver, h)"
  by (auto simp: response_readable_def response_head_def builder_headers_entries simp del: version_of.simps)

lemma parse_response_framed:
  assumes r: "response_readable E ver status h" and f: "framed E h enc content xs" and q: "quiet s"
    and bs: "bytes_of s = (status_line E ver status @ concat (map header_line h) @ crlf) @
      framed_wire E enc content xs @ rest"
    and eof: "enc = CloseDelimited \<Longrightarrow> rest = []"
  shows "\<exists>b src s'. parse_response E s =
      (Inr \<lparr>rs_status = status, rs_version = ver, rs_headers = h, rs_upgrade = None, rs_body = b\<rparr>, src) \<and>
    body_good E b \<and> body_content E b = content \<and>
    source_after E b src = Some s' \<and> quiet s' \<and> bytes_of s' = unread_part E xs enc @ rest"
proof -
  let ?start = "c_version_debug E ver @ '' '' @ c_status_display E status"
  have "line_ok ?start" "list_all header_ok h" using r by (simp_all add: response_readable_def)
  from split_head_message [OF this, of "framed_wire E enc content xs @ rest"]
  have split: "split_head [] (bytes_of s) =
      (status_line E ver status @ concat (map header_line h) @ crlf, framed_wire E enc content xs @ rest)"
    by (simp add: bs status_line_def)
  from read_head_quiet [OF q, of "[]"] split obtain s1 where
    s1: "read_head [] s = (Ok (status_line E ver status @ concat (map header_line h) @ crlf), s1)"
      "quiet s1" "bytes_of s1 = framed_wire E enc content xs @ rest" by auto
  from response_received [OF f s1(2,3) eof] s1(1) response_head_read [OF r] show ?thesis
    by (fastforce simp: parse_response_def)
qed

section \<open>Requests\<close>

definition request_readable :: "crates \<Rightarrow> http_method \<Rightarrow> uri \<Rightarrow> bytes \<Rightarrow> version \<Rightarrow> header_map \<Rightarrow> bool" where
  "request_readable E m u v ver h \<longleftrightarrow>
     line_ok (m @ '' '' @ u @ '' '' @ v) \<and> list_all header_ok h \<and>
     (\<exists>n k. version_of n = Inr ver \<and>
        c_parse_request E (request_line m u v @ concat (map header_line h) @ crlf) =
          Inr \<lparr>pr_method = Some m, pr_path = Some u, pr_version = Some n,
            pr_headers = h @ replicate k EMPTY_HEADER\<rparr>) \<and>
     c_method_from_bytes E m = Some m \<and> c_uri_from E u = Some u \<and>
     builds_headers E h \<and> EMPTY_HEADER \<notin> set h"

lemma request_head_read:
  "request_readable E m u v ver h \<Longrightarrow>
     request_head E (request_line m u v @ concat (map header_line h) @ crlf) = Inr (m, u, ver, h)"
  by (auto simp: request_readable_def request_head_def builder_headers_entries simp del: version_of.simps)

lemma parse_request_framed:
  assumes r: "request_readable E m u v ver h" and f: "framed E h enc content xs" and q: "quiet s"
    and bs: "bytes_of s = (request_line m u v @ concat (map header_line h) @ crlf) @
      framed_wire E enc content xs @ rest"
    and enc: "enc \<noteq> CloseDelimited"
  shows "\<exists>b src s'. parse_request E s =
      (Inr \<lparr>rq_method = m, rq_uri = u, rq_version = ver, rq_headers = h, rq_body = b\<rparr>, src) \<and>
    body_good E b \<and> body_content E b = content \<and>
    source_after E b src = Some s' \<and> quiet s' \<and> bytes_of s' = unread_part E xs enc @ rest"
proof -
  let ?start = "m @ '' '' @ u @ '' '' @ v"
  have "line_ok ?start" "list_all header_ok h" using r by (simp_all add: request_readable_def)
  from split_head_message [OF this, of "framed_wire E enc content xs @ rest"]
  have split: "split_head [] (bytes_of s) =
      (request_line m u v @ concat (map header_line h) @ crlf, framed_wire E enc content xs @ rest)"
    by (simp add: bs request_line_def)
  from read_head_quiet [OF q, of "[]"] split obtain s1 where
    s1: "read_head [] s = (Ok (request_line m u v @ concat (map header_line h) @ crlf), s1)"
      "quiet s1" "bytes_of s1 = framed_wire E enc content xs @ rest" by auto
  from request_received [OF f s1(2,3) enc] s1(1) request_head_read [OF r] show ?thesis
    by (fastforce simp: parse_request_def)
qed

section \<open>Written by one side, parsed by the other\<close>

context chunked_body_contract
begin

lemma framed_of_response:
  assumes "typed_insert_law E" "remove_te_law E" "chunk_size_law E" "clean_headers E h"
    and "rs_version res = HTTP_10 \<or> rs_version res = HTTP_11"
    and "response_plan E (hb_len B (rs_body res)) res = Ok (enc, h)" and "good (rs_body res)"
    and "hb_len B (rs_body res) = None \<Longrightarrow> enc \<in> {Chunked, CloseDelimited}"
    and "enc = Chunked \<Longrightarrow> chunks_sendable (body_chunks E B (rs_body res))"
  shows "framed E h enc (content (rs_body res)) (body_chunks E B (rs_body res))"
proof -
  have "announces E h enc" "length_agrees enc (hb_len B (rs_body res))"
    using response_plan_announced [OF assms(1,2,5,6)] by simp_all
  moreover have "n = length (content (rs_body res))" if "enc = FixedLength n" for n
  proof -
    have "hb_len B (rs_body res) = Some n"
      using that assms(8) \<open>length_agrees enc _\<close> by (auto simp: length_agrees_def)
    then show ?thesis using len_content [OF assms(7)] by simp
  qed
  ultimately show ?thesis
    using assms body_chunks_content [OF assms(7)] by (auto simp: framed_def)
qed

lemma framed_of_request:
  assumes "typed_insert_law E" "chunk_size_law E" "clean_headers E h" and "rq_version req = HTTP_11"
    and "request_plan E (hb_len B (rq_body req)) req = Ok (enc, h)" and "good (rq_body req)"
    and "hb_len B (rq_body req) = None \<Longrightarrow> enc = Chunked"
    and "enc = Chunked \<Longrightarrow> chunks_sendable (body_chunks E B (rq_body req))"
  shows "framed E h enc (content (rq_body req)) (body_chunks E B (rq_body req)) \<and> enc \<noteq> CloseDelimited"
proof -
  have a: "announces E h enc" "length_agrees enc (hb_len B (rq_body req))" "enc \<noteq> CloseDelimited"
    using request_encoding_announced [OF assms(1,4)] assms(5)
    by (auto simp: request_plan_def elim: request_encoding_cases)
  moreover have "n = length (content (rq_body req))" if "enc = FixedLength n" for n
  proof -
    have "hb_len B (rq_body req) = Some n"
      using that assms(7) a(2) by (auto simp: length_agrees_def)
    then show ?thesis using len_content [OF assms(6)] by simp
  qed
  ultimately show ?thesis
    using assms body_chunks_content [OF assms(6)] by (auto simp: framed_def)
qed

lemma body_wire_framed: "body_wire E B content enc b = framed_wire E enc (content b) (body_chunks E B b)"
  by (simp add: body_wire_def framed_wire_def)

end

end
