(* ===== verification/Panic_Freedom.thy ===== *)
theory Panic_Freedom
  imports Write_Spec
begin

text \<open>
  No body and no connection makes the library panic: the only panics in its writing code are the
  \<^verbatim>\<open>unwrap\<close>s on a body that has been consumed already, and the \<^verbatim>\<open>unreachable!\<close> of the encoding
  choice, which is unreachable.
\<close>

section \<open>Reading bodies\<close>

lemma read_to_end_not_Panic: "read_to_end s \<noteq> (Panic, s')"
  by (induction s arbitrary: s' rule: read_to_end.induct) (auto split: prod.splits res.splits)

lemma take_read_to_end_not_Panic: "take_read_to_end l s \<noteq> (Panic, s')"
  by (induction l s arbitrary: s' rule: take_read_to_end.induct) (auto split: prod.splits res.splits)

lemma body_read_not_Panic: "body_read E n r \<noteq> (Panic, r')"
  by (induction E n r rule: body_read.induct)
    (auto simp: take_read_def split: prod.splits res.splits)

lemma fst_not_Panic: "fst p \<noteq> Panic \<longleftrightarrow> (\<forall>x. p \<noteq> (Panic, x))"
  by (cases p) auto

lemma io_copy_not_Panic: "fst (io_copy E r w) \<noteq> Panic"
proof (induction E r w rule: io_copy.induct)
  case (1 E r w)
  then show ?case
    by (subst io_copy.simps,
        auto simp: body_read_not_Panic write_all_not_Panic split: prod.splits res.splits) blast
qed

lemma collect_data_not_Panic: "fst (collect_data E it) \<noteq> Panic"
proof (induction E it rule: collect_data.induct)
  case (1 E it)
  then show ?case
    by (subst collect_data.simps) (force split: prod.splits option.splits sum.splits res.splits)
qed

lemma write_chunk_not_Panic: "write_chunk c w \<noteq> (Panic, w')"
  by (auto simp: write_chunk_def io_simps write_all_not_Panic flush_not_Panic
      split: prod.splits res.splits)

lemma write_chunks_not_Panic: "fst (write_chunks E it t w) \<noteq> Panic"
proof (induction E it t w rule: write_chunks.induct)
  case (1 E it t w)
  then show ?case
    by (subst write_chunks.simps)
      (force simp: write_chunk_not_Panic
        split: prod.splits option.splits sum.splits chunk.splits res.splits)
qed

lemma write_chunked_body_not_Panic: "fst (write_chunked_body E it w) \<noteq> Panic"
  using write_chunks_not_Panic [of E it "[]" w]
  by (auto simp: write_chunked_body_def io_simps write_all_not_Panic
      write_header_lines_not_Panic split: prod.splits res.splits)

section \<open>Writing messages\<close>

text \<open>What a body type must promise about bodies that are still \<open>live\<close>.\<close>

locale panic_free_body =
  fixes B :: "'b http_body" and live :: "'b \<Rightarrow> bool"
  assumes no_panic: "live b \<Longrightarrow>
    hb_into_reader B b \<noteq> Panic \<and> hb_into_chunks B b \<noteq> Panic \<and> fst (hb_into_bytes B b) \<noteq> Panic"
begin

lemma copy_body_not_Panic: "live b \<Longrightarrow> fst (copy_body E B b w) \<noteq> Panic"
  using no_panic [of b] io_copy_not_Panic
  by (auto simp: copy_body_def fst_not_Panic split: prod.splits res.splits)

lemma write_body_not_Panic: "live b \<Longrightarrow> fst (write_body E B enc b w) \<noteq> Panic"
  using no_panic [of b] copy_body_not_Panic [of b E w] write_chunked_body_not_Panic
  by (auto simp: write_body_def write_all_not_Panic split: encoding.splits prod.splits res.splits)

lemma write_response_not_Panic: "live (rs_body res) \<Longrightarrow> fst (write_response E B res wb w) \<noteq> Panic"
  using write_body_not_Panic [of "rs_body res" E]
    response_encoding_total(1) [of E "rs_version res" "rs_headers res" "hb_len B (rs_body res)"]
  by (auto simp: write_response_def Let_def write_head_not_Panic fst_not_Panic
      split: prod.splits res.splits)

lemma write_request_not_Panic: "live (rq_body req) \<Longrightarrow> fst (write_request E B req w) \<noteq> Panic"
  using write_body_not_Panic [of "rq_body req" E]
    request_encoding_total [of E "rq_method req" "rq_version req" "rq_headers req" "hb_len B (rq_body req)"]
  by (auto simp: write_request_def Let_def write_head_not_Panic fst_not_Panic
      split: prod.splits res.splits elim: request_version.elims)

end

lemma into_reader_not_Panic: "b \<noteq> Body None \<Longrightarrow> into_reader E b \<noteq> Panic"
  by (induction E b rule: into_reader.induct) (auto split: prod.splits option.splits sum.splits)

lemma into_bytes_not_Panic: "b \<noteq> Body None \<Longrightarrow> fst (into_bytes E b) \<noteq> Panic"
  using collect_data_not_Panic
  by (induction E b rule: into_bytes.induct)
    (auto simp: fst_not_Panic read_to_end_not_Panic take_read_to_end_not_Panic
      split: prod.splits res.splits)

lemma into_chunks_not_Panic: "b \<noteq> Body None \<Longrightarrow> into_chunks b \<noteq> Panic"
  by (induction b rule: into_chunks.induct) auto

interpretation live_body: panic_free_body "body_impl E" "\<lambda>b. b \<noteq> Body None" for E
  by unfold_locales
    (simp add: body_impl_def into_reader_not_Panic into_bytes_not_Panic into_chunks_not_Panic)

interpretation live_unit: panic_free_body unit_impl "\<lambda>_. True"
  by unfold_locales (simp add: unit_impl_def)

interpretation live_string: panic_free_body string_impl "\<lambda>_. True"
  by unfold_locales (simp add: string_impl_def)

end
