(* ===== verification/Reference_Crates.thy ===== *)
theory Reference_Crates
  imports Crates
begin

text \<open>
  One concrete instance of the third-party crates, small and executable.  It is not a model of
  \<^verbatim>\<open>http\<close>, \<^verbatim>\<open>headers\<close> or \<^verbatim>\<open>httparse\<close>; it shows that what the theorems ask of those crates can be had
  together, and it is what their witnesses run on.
\<close>

section \<open>Numbers\<close>

fun digits_value :: "nat \<Rightarrow> bytes \<Rightarrow> nat \<Rightarrow> nat option" where
  "digits_value base [] acc = Some acc"
| "digits_value base (c # cs) acc =
     (case hex_value c of
        Some d \<Rightarrow> if d < base then digits_value base cs (base * acc + d) else None
      | None \<Rightarrow> None)"

lemma digits_value_append:
  "digits_value base (xs @ ys) acc = Option.bind (digits_value base xs acc) (digits_value base ys)"
  by (induction xs arbitrary: acc) (auto split: option.split)

lemma digits_value_hex: "digits_value 16 (hex n) 0 = Some n"
proof (induction n rule: hex.induct)
  case (1 n)
  show ?case
  proof (cases "n < 16")
    case True
    then show ?thesis by (subst hex.simps) simp
  next
    case False
    have "n mod 16 < 16" by simp
    then have "hex_value (hex_digit (n mod 16)) = Some (n mod 16)" by (rule hex_digit_value)
    with "1.IH" False show ?thesis by (subst hex.simps) (simp add: digits_value_append)
  qed
qed

lemma dec_digit_value: "d < 10 \<Longrightarrow> hex_value (char_of (48 + d)) = Some d"
  by (simp add: hex_value_def)

lemma digits_value_dec: "digits_value 10 (dec n) 0 = Some n"
proof (induction n rule: dec.induct)
  case (1 n)
  show ?case
  proof (cases "n < 10")
    case True
    then show ?thesis by (subst dec.simps) (simp add: dec_digit_value)
  next
    case False
    have "n mod 10 < 10" by simp
    then have "hex_value (char_of (48 + n mod 10)) = Some (n mod 10)" by (rule dec_digit_value)
    with "1.IH" False show ?thesis by (subst dec.simps) (simp add: digits_value_append)
  qed
qed

lemma dec_not_Nil [simp]: "dec n \<noteq> []"
  by (subst dec.simps) simp

definition ref_chunk_size :: "bytes \<Rightarrow> chunk_status" where
  "ref_chunk_size bs =
     (let ds = takeWhile (\<lambda>c. hex_value c \<noteq> None) bs; rest = drop (length ds) bs
      in if rest = [] then Partial
         else if take 2 rest \<noteq> crlf then InvalidChunkSize
         else case digits_value 16 ds 0 of
             Some n \<Rightarrow> if ds = [] then InvalidChunkSize else Complete (length ds + 2) n
           | None \<Rightarrow> InvalidChunkSize)"

lemma ref_chunk_size_hex: "ref_chunk_size (hex n @ crlf) = Complete (length (hex n) + 2) n"
proof -
  have "hex_value c \<noteq> None" if "c \<in> set (hex n)" for c
    using hex_chars [OF that] by auto
  moreover have "hex_value CR = None" by code_simp
  ultimately have "takeWhile (\<lambda>c. hex_value c \<noteq> None) (hex n @ crlf) = hex n"
    by (subst takeWhile_append2) (auto simp: crlf_def)
  then show ?thesis by (simp add: ref_chunk_size_def Let_def digits_value_hex)
qed

section \<open>Headers\<close>

definition ref_insert :: "header_name \<Rightarrow> bytes \<Rightarrow> header_map \<Rightarrow> header_map" where
  "ref_insert name v h = filter (\<lambda>x. fst x \<noteq> name) h @ [(name, v)]"

definition ref_remove :: "header_name \<Rightarrow> header_map \<Rightarrow> header_map" where
  "ref_remove name h = filter (\<lambda>x. fst x \<noteq> name) h"

lemma map_of_filter_name: "map_of (filter (\<lambda>x. fst x \<noteq> name) h) k = (if k = name then None else map_of h k)"
  by (induction h) auto

lemma ref_insert_get: "map_of (ref_insert name v h) k = (if k = name then Some v else map_of h k)"
  by (auto simp: ref_insert_def map_of_filter_name map_add_def split: option.split)

lemma ref_remove_get: "map_of (ref_remove name h) k = (if k = name then None else map_of h k)"
  by (simp add: ref_remove_def map_of_filter_name)

definition ref_transfer_encoding :: "header_map \<Rightarrow> unit + bool option" where
  "ref_transfer_encoding h = Inr (map_option (\<lambda>v. v = ''chunked'') (map_of h ''transfer-encoding''))"

definition ref_content_length :: "header_map \<Rightarrow> unit + nat option" where
  "ref_content_length h =
     (case map_of h ''content-length'' of
        None \<Rightarrow> Inr None
      | Some v \<Rightarrow> (case digits_value 10 v 0 of
          Some n \<Rightarrow> if v = [] then Inl () else Inr (Some n) | None \<Rightarrow> Inl ()))"

definition ref_connection :: "header_map \<Rightarrow> unit + (string \<Rightarrow> bool) option" where
  "ref_connection h = Inr (map_option (\<lambda>v opt. v = opt) (map_of h ''connection''))"

definition ref_expect :: "header_map \<Rightarrow> unit + bool option" where
  "ref_expect h = Inr (map_option (\<lambda>v. v = ''100-continue'') (map_of h ''expect''))"

section \<open>Heads\<close>

text \<open>Lines end with a line feed; a carriage return before it is dropped.\<close>

fun split_lines :: "bytes \<Rightarrow> bytes \<Rightarrow> bytes list" where
  "split_lines acc [] = []"
| "split_lines acc (c # cs) =
     (if c = LF then (if acc \<noteq> [] \<and> last acc = CR then butlast acc else acc) # split_lines [] cs
      else split_lines (acc @ [c]) cs)"

fun split_words :: "bytes \<Rightarrow> bytes \<Rightarrow> bytes list" where
  "split_words acc [] = [acc]"
| "split_words acc (c # cs) =
     (if c = CHR '' '' then acc # split_words [] cs else split_words (acc @ [c]) cs)"

definition ref_header :: "bytes \<Rightarrow> header_name \<times> bytes" where
  "ref_header l = (takeWhile (\<lambda>c. c \<noteq> CHR '':'') l, drop 2 (dropWhile (\<lambda>c. c \<noteq> CHR '':'') l))"

definition ref_headers :: "bytes list \<Rightarrow> (header_name \<times> bytes) list" where
  "ref_headers ls = map ref_header (takeWhile (\<lambda>l. l \<noteq> []) ls)"

fun ref_version :: "bytes \<Rightarrow> nat option" where
  "ref_version v = (if v = ''HTTP/1.0'' then Some 0 else if v = ''HTTP/1.1'' then Some 1 else None)"

definition ref_parse_request :: "bytes \<Rightarrow> httparse_error + parsed_request" where
  "ref_parse_request bs =
     (case split_lines [] bs of
        [] \<Rightarrow> Inl Token
      | l # ls \<Rightarrow>
          (case split_words [] l of
             [m, u, v] \<Rightarrow>
               (case ref_version v of
                  None \<Rightarrow> Inl VersionError
                | Some n \<Rightarrow> Inr \<lparr>pr_method = Some m, pr_path = Some u, pr_version = Some n,
                    pr_headers = ref_headers ls\<rparr>)
           | _ \<Rightarrow> Inl Token))"

definition ref_parse_response :: "bytes \<Rightarrow> httparse_error + parsed_response" where
  "ref_parse_response bs =
     (case split_lines [] bs of
        [] \<Rightarrow> Inl Token
      | l # ls \<Rightarrow>
          (case split_words [] l of
             v # c # _ \<Rightarrow>
               (case (ref_version v, digits_value 10 c 0) of
                  (Some n, Some code) \<Rightarrow> Inr \<lparr>ps_code = Some code, ps_version = Some n,
                    ps_headers = ref_headers ls\<rparr>
                | _ \<Rightarrow> Inl Status)
           | _ \<Rightarrow> Inl Token))"

fun ref_version_debug :: "version \<Rightarrow> bytes" where
  "ref_version_debug HTTP_09 = ''HTTP/0.9''"
| "ref_version_debug HTTP_10 = ''HTTP/1.0''"
| "ref_version_debug HTTP_11 = ''HTTP/1.1''"
| "ref_version_debug HTTP_2 = ''HTTP/2.0''"
| "ref_version_debug HTTP_3 = ''HTTP/3.0''"

definition ref_status_display :: "status_code \<Rightarrow> bytes" where
  "ref_status_display c = dec c @
     (if c = 200 then '' OK'' else if c = 100 then '' Continue'' else if c = 400 then '' Bad Request''
      else if c = 417 then '' Expectation Failed'' else '' Other'')"

definition nonempty :: "'a list \<Rightarrow> 'a list option" where
  "nonempty xs = (if xs = [] then None else Some xs)"

definition ref_crates :: crates where
  "ref_crates = \<lparr>
     c_parse_request = ref_parse_request,
     c_parse_response = ref_parse_response,
     c_parse_chunk_size = ref_chunk_size,
     c_method_from_bytes = nonempty,
     c_uri_from = nonempty,
     c_status_from_u16 = (\<lambda>n. if 100 \<le> n \<and> n < 1000 then Some n else None),
     c_builder_header = (\<lambda>name v h. Some (h @ [(name, v)])),
     c_header_name = nonempty,
     c_header_value = Some,
     c_insert = ref_insert,
     c_remove = ref_remove,
     c_extend = (\<lambda>h te. h @ te),
     c_transfer_encoding = ref_transfer_encoding,
     c_content_length = ref_content_length,
     c_connection = ref_connection,
     c_expect = ref_expect,
     c_date = (\<lambda>h. Inr (map_of h ''date'')),
     c_insert_content_length = (\<lambda>n. ref_insert ''content-length'' (dec n)),
     c_insert_te_chunked = ref_insert ''transfer-encoding'' ''chunked'',
     c_insert_connection_close = ref_insert ''connection'' ''close'',
     c_insert_date = ref_insert ''date'',
     c_version_debug = ref_version_debug,
     c_status_display = ref_status_display\<rparr>"

section \<open>The laws hold\<close>

lemma ref_chunk_size_law: "chunk_size_law ref_crates"
  by (simp add: chunk_size_law_def ref_crates_def ref_chunk_size_hex)

lemma ref_typed_insert_law: "typed_insert_law ref_crates"
  by (simp add: typed_insert_law_def ref_crates_def ref_transfer_encoding_def ref_content_length_def
      ref_connection_def connection_has_def ref_insert_get digits_value_dec)

lemma ref_remove_te_law: "remove_te_law ref_crates"
  by (simp add: remove_te_law_def ref_crates_def ref_transfer_encoding_def ref_content_length_def
      ref_connection_def ref_remove_get)

lemma ref_empty_headers_law: "empty_headers_law ref_crates"
  by (simp add: empty_headers_law_def ref_crates_def ref_transfer_encoding_def ref_content_length_def)

lemma ref_date_law: "date_law ref_crates"
  by (simp add: date_law_def ref_crates_def ref_transfer_encoding_def ref_content_length_def
      ref_connection_def ref_insert_get)

lemmas ref_laws = ref_date_law ref_chunk_size_law ref_typed_insert_law ref_remove_te_law ref_empty_headers_law

end
