(* ===== verification/Body_Properties.thy ===== *)
theory Body_Properties
  imports Round_Trip Panic_Freedom Reference_Crates
begin

text \<open>
  The properties of bodies and of the chunked coding, with the places where the code does less
  than its documentation says.
\<close>

section \<open>The chunked coding\<close>

text \<open>
  \<^verbatim>\<open>ChunkedReader\<close> decodes a chunked message to exactly its chunks, for every segmentation, and
  leaves the source right behind the line of the last chunk.
\<close>

lemma chunked_reader_decodes:
  assumes "chunk_size_law E" "quiet s" "\<forall>c \<in> set cs. c \<noteq> [] \<and> length c < 2 ^ 64"
    and "bytes_of s = concat (map chunk_frame cs) @ last_chunk @ rest"
  shows "\<exists>s'. chunked_collect E s = (cs, s') \<and> quiet s' \<and> bytes_of s' = rest"
proof -
  let ?k = "length (concat (map chunk_frame cs) @ last_chunk)"
  have "bytes_of (advance ?k s) = drop ?k ((concat (map chunk_frame cs) @ last_chunk) @ rest)"
    using assms(2,4) by simp
  then have "bytes_of (advance ?k s) = rest" by (simp only: drop_append_length)
  with chunked_collect_frames [OF assms] assms(2) show ?thesis by simp
qed

text \<open>
  C32: What \<^verbatim>\<open>write_request\<close> and \<^verbatim>\<open>write_response\<close> write for a chunked body decodes, for every
  segmentation, to the data chunks that the body yields; the gathered trailers and the final
  empty line stay in the source.
\<close>

theorem chunked_body_roundtrip:
  assumes "chunk_size_law E" "body_good E b" "body_exact b" "into_chunks b = Ok it"
    and "chunks_sendable (fst (chunk_collect E it))" "w_cap w = None" "w_out w = []"
    and "write_chunked_body E it w = (r, src, w')"
    and "quiet s" "bytes_of s = w_out w' @ rest"
  shows "r = Ok () \<and>
    (\<exists>s'. chunked_collect E s = (data_chunks (fst (chunk_collect E it)), s') \<and>
       concat (data_chunks (fst (chunk_collect E it))) = body_content E b \<and>
       bytes_of s' = unread_part E (fst (chunk_collect E it)) Chunked @ rest)"
proof -
  let ?xs = "fst (chunk_collect E it)"
  have "list_all isr ?xs" using assms(5) by (simp add: chunks_sendable_def)
  from write_chunked_body_items [OF this assms(6)] assms(7,8) have
    w: "r = Ok ()" "w_out w' = chunked_wire E ?xs" by auto
  from decode_chunked_wire [OF assms(1,9), of ?xs rest] assms(5,10) w(2) obtain s' where
    "chunked_collect E s = (data_chunks ?xs, s')" "bytes_of s' = unread_part E ?xs Chunked @ rest"
    by (auto simp: chunks_sendable_def unread_part_def)
  moreover have "concat (data_chunks ?xs) = body_content E b"
    using into_chunks_good [OF assms(2,3)] assms(4) by (simp add: concat_data_chunks)
  ultimately show ?thesis using w(1) by blast
qed

definition trailer_body :: body where
  "trailer_body = Body (Some (Iter (Items [Inr (Data ''ab''), Inr (Trailers [(''x'', ''1'')]), Inr (Data ''c'')])))"

definition trailer_chunks_it :: chunk_iterator where
  "trailer_chunks_it = ChunkIterator (Some (CIter (Items [Inr (Data ''ab''), Inr (Trailers [(''x'', ''1'')]), Inr (Data ''c'')])))"

definition trailer_wire :: bytes where
  "trailer_wire = ''2'' @ crlf @ ''ab'' @ crlf @ ''1'' @ crlf @ ''c'' @ crlf @ ''0'' @ crlf @ ''x: 1'' @ crlf @ crlf"

theorem chunked_body_roundtrip_witness:
  "\<exists>s'. chunked_collect ref_crates [Avail (take 4 trailer_wire), Avail (drop 4 trailer_wire)] =
     ([''ab'', ''c''], s') \<and> bytes_of s' = ''x: 1'' @ crlf @ crlf"
proof -
  let ?s = "[Avail (take 4 trailer_wire), Avail (drop 4 trailer_wire)]"
  have xs: "fst (chunk_collect ref_crates trailer_chunks_it) =
      [Inr (Data ''ab''), Inr (Trailers [(''x'', ''1'')]), Inr (Data ''c'')]"
    by (simp add: trailer_chunks_it_def chunk_collect_iter takeWhile_isr)
  have b: "body_good ref_crates trailer_body" "body_exact trailer_body" "into_chunks trailer_body = Ok trailer_chunks_it"
    by (simp_all add: trailer_body_def trailer_chunks_it_def iter_ok_def)
  have ok: "chunks_sendable (fst (chunk_collect ref_crates trailer_chunks_it))"
    unfolding xs by (simp add: chunks_sendable_def)
  have w: "write_chunked_body ref_crates trailer_chunks_it new_writer =
      (Ok (), None, \<lparr>w_out = trailer_wire, w_flushed = 13, w_cap = None\<rparr>)"
    by code_simp
  have q: "quiet ?s" by code_simp
  have bs: "bytes_of ?s = w_out \<lparr>w_out = trailer_wire, w_flushed = 13, w_cap = None\<rparr> @ []" by simp
  have u: "unread_part ref_crates [Inr (Data ''ab''), Inr (Trailers [(''x'', ''1'')]), Inr (Data ''c'')] Chunked =
      ''x: 1'' @ crlf @ crlf"
    by code_simp
  show ?thesis
    using chunked_body_roundtrip [OF ref_chunk_size_law b ok _ _ w q bs]
    by (auto simp: xs u new_writer_def)
qed

text \<open>
  An empty data chunk is written as the last chunk: the receiver takes the message for complete
  and the chunks behind it are lost to it.
\<close>

lemma empty_chunk_ends_message:
  assumes "chunk_size_law E" "quiet s" "data_chunks xs = cs @ [] # ds"
    and "\<forall>c \<in> set cs. c \<noteq> [] \<and> length c < 2 ^ 64" "bytes_of s = chunked_wire E xs @ rest"
  shows "fst (chunked_collect E s) = cs"
proof -
  have "bytes_of s = concat (map chunk_frame cs) @ last_chunk @ crlf @ concat (map chunk_frame ds) @ last_chunk @
      concat (map header_line (gather_trailers E (trailer_chunks xs) [])) @ crlf @ rest"
    using assms(3,5) by (simp add: chunked_wire_def chunk_frame_def last_chunk_def)
  from chunked_collect_frames [OF assms(1,2,4) this] show ?thesis by simp
qed

section \<open>Bodies\<close>

text \<open>
  C33: The three ways to consume a body agree: \<^verbatim>\<open>into_bytes\<close> returns its content, \<^verbatim>\<open>io::copy\<close> from
  \<^verbatim>\<open>into_reader\<close> writes it, the data of \<^verbatim>\<open>into_chunks\<close> joins to it, the provided \<^verbatim>\<open>into_bytes\<close> of the
  trait returns it too, and \<^verbatim>\<open>len\<close> is its length when it is known.
\<close>

theorem body_consumptions_agree:
  assumes "body_good E b" "body_exact b" "w_cap w = None"
  shows "fst (into_bytes E b) = Ok (body_content E b) \<and>
    (\<exists>r r' w'. into_reader E b = Ok r \<and> io_copy E r w = (Ok (length (body_content E b)), r', w') \<and>
      w_out w' = w_out w @ body_content E b) \<and>
    (\<exists>it. into_chunks b = Ok it \<and> list_all isr (fst (chunk_collect E it)) \<and>
      concat (map chunk_data (fst (chunk_collect E it))) = body_content E b) \<and>
    fst (default_into_bytes E (into_reader E) b) = Ok (body_content E b) \<and>
    (\<forall>n. body_len b = Some n \<longrightarrow> length (body_content E b) = n)"
proof (intro conjI)
  show "fst (into_bytes E b) = Ok (body_content E b)" by (rule into_bytes_good [OF assms(1)])
  from into_reader_good [OF assms(1)] obtain r where
    r: "into_reader E b = Ok r" "reader_good r" "reader_content E r = body_content E b" by blast
  from io_copy_good [OF r(2) assms(3), of E] r show
    "\<exists>r r' w'. into_reader E b = Ok r \<and> io_copy E r w = (Ok (length (body_content E b)), r', w') \<and>
      w_out w' = w_out w @ body_content E b"
    by fastforce
  show "\<exists>it. into_chunks b = Ok it \<and> list_all isr (fst (chunk_collect E it)) \<and>
      concat (map chunk_data (fst (chunk_collect E it))) = body_content E b"
    by (rule into_chunks_good [OF assms(1,2)])
  show "fst (default_into_bytes E (into_reader E) b) = Ok (body_content E b)"
    using body_body.default_into_bytes_content [OF assms(1)] into_bytes_good [OF assms(1)]
    by (simp add: body_impl_def)
  show "\<forall>n. body_len b = Some n \<longrightarrow> length (body_content E b) = n"
    using body_len_good [OF assms(1)] by simp
qed

definition big_reader_body :: body where
  "big_reader_body = Body (Some (Reader [Avail ''ab'', Avail ''cde''] (Some 5)))"

theorem body_consumptions_agree_witness:
  "fst (into_bytes ref_crates big_reader_body) = Ok ''abcde'' \<and>
   (\<exists>it. into_chunks big_reader_body = Ok it \<and>
      concat (map chunk_data (fst (chunk_collect ref_crates it))) = ''abcde'')"
proof -
  have g: "body_good ref_crates big_reader_body" "body_exact big_reader_body" "w_cap new_writer = None"
    by (simp_all add: big_reader_body_def new_writer_def)
  have "body_content ref_crates big_reader_body = ''abcde''" by code_simp
  with body_consumptions_agree [OF g] show ?thesis by auto
qed

text \<open>
  Reading a body through \<^verbatim>\<open>BodyReader\<close> with buffers of any positive sizes delivers a prefix of
  its content, in order, no more than the buffers hold, and all of it once there were more reads
  than bytes.
\<close>

lemma body_reader_reads:
  assumes "body_good E b" "into_reader E b = Ok r" "\<forall>n \<in> set ns. 0 < n"
  shows "\<exists>bs r'. read_many (body_read E) ns r = (Ok bs, r') \<and>
    body_content E b = bs @ reader_content E r' \<and> length bs \<le> sum_list ns \<and>
    (length (body_content E b) < length ns \<longrightarrow> bs = body_content E b)"
proof -
  from into_reader_good [OF assms(1)] assms(2) have
    r: "reader_good r" "reader_content E r = body_content E b" by auto
  from body.read_many_good [OF r(1) assms(3), of E] r(2) show ?thesis by fastforce
qed

text \<open>
  On an iterator, \<^verbatim>\<open>into_bytes\<close> reports the first error, \<^verbatim>\<open>into_chunks\<close> silently ends at it, and
  \<^verbatim>\<open>into_reader\<close> skips a leading error and silently ends at the next one.
\<close>

lemma iterator_errors:
  "fst (into_bytes E (Body (Some (Iter it)))) = gather (fst (data_collect E it)) \<and>
   (\<exists>c. into_chunks (Body (Some (Iter it))) = Ok c \<and>
      fst (chunk_collect E c) = takeWhile isr (fst (iter_collect E it))) \<and>
   (\<exists>r. into_reader E (Body (Some (Iter it))) = Ok r \<and>
      reader_content E r = until_error (skip_first_error (fst (data_collect E it))))"
  using into_bytes_iter [of E it] into_reader_iter [of E it] chunk_collect_iter [of E it] by auto

lemma gather_until_error:
  "list_all isr xs \<Longrightarrow> gather (List.map_filter data_result (xs @ Inl err # ys)) = Err err"
proof (induction xs)
  case (Cons x xs)
  then show ?case by (cases x rule: data_result.cases) (auto simp: List.map_filter_simps)
qed (simp add: List.map_filter_simps)

lemma takeWhile_until_error: "list_all isr xs \<Longrightarrow> takeWhile isr (xs @ Inl err # ys) = xs"
  by (induction xs) auto

text \<open>
  A response streamed through a channel whose sender aborts is still completed normally: the
  error that \<^verbatim>\<open>into_bytes\<close> reports does not reach the chunked writer, which ends the message with
  its last chunk.
\<close>

lemma abort_goes_unnoticed:
  assumes "ch_open ch" "list_all isr (ch_sent ch)" "w_cap w = None"
  shows "fst (into_bytes E (channel_body (channel_abort ch))) = Err (Other ''aborted'') \<and>
    (\<exists>it src w'. into_chunks (channel_body (channel_abort ch)) = Ok it \<and>
       write_chunked_body E it w = (Ok (), src, w') \<and> w_out w' = w_out w @ chunked_wire E (ch_sent ch))"
proof -
  let ?it = "Items (ch_sent ch @ [Inl (Other ''aborted'')])"
  let ?c = "ChunkIterator (Some (CIter ?it))"
  have b: "channel_body (channel_abort ch) = Body (Some (Iter ?it))"
    using assms(1) by (simp add: channel_abort_def channel_body_def mpsc_send_def)
  have "fst (into_bytes E (Body (Some (Iter ?it)))) = Err (Other ''aborted'')"
    using gather_until_error [OF assms(2), of "Other ''aborted''" "[]"]
    by (simp add: into_bytes_iter fst_data_collect del: into_bytes.simps)
  moreover have "fst (chunk_collect E ?c) = ch_sent ch"
    using takeWhile_until_error [OF assms(2)] by (simp add: chunk_collect_iter)
  ultimately show ?thesis
    using write_chunked_body_items [of E ?c w] assms(2,3) b by auto
qed

fun run_sends :: "bytes list \<Rightarrow> body_channel \<Rightarrow> unit res list \<times> body_channel" where
  "run_sends [] ch = ([], ch)"
| "run_sends (d # ds) ch =
     (case channel_send d ch of (r, ch1) \<Rightarrow> (case run_sends ds ch1 of (rs, ch2) \<Rightarrow> (r # rs, ch2)))"

lemma run_sends_open:
  "ch_open ch \<Longrightarrow> run_sends ds ch =
     (replicate (length ds) (Ok ()), ch\<lparr>ch_sent := ch_sent ch @ map (\<lambda>d. Inr (Data d)) ds\<rparr>)"
  by (induction ds arbitrary: ch) (simp_all add: channel_send_def mpsc_send_def)

lemma run_sends_closed:
  "\<not> ch_open ch \<Longrightarrow> run_sends ds ch = (replicate (length ds) (Err (Other ''body closed'')), ch)"
  by (induction ds) (simp_all add: channel_send_def mpsc_send_def)

text \<open>
  Everything sent on the channel while its body exists is delivered in the order of sending;
  once the body is gone each send fails and changes nothing.
\<close>

lemma channel_delivers:
  "(case run_sends ds new_channel of (rs, ch) \<Rightarrow>
      rs = replicate (length ds) (Ok ()) \<and>
      fst (into_bytes E (channel_body ch)) = Ok (concat ds) \<and>
      (case channel_send_trailers t ch of (r, ch') \<Rightarrow>
         r = Ok () \<and> fst (into_bytes E (channel_body ch')) = Ok (concat ds) \<and>
         fst (iter_collect E (Items (ch_sent ch'))) = map (\<lambda>d. Inr (Data d)) ds @ [Inr (Trailers t)])) \<and>
   run_sends ds \<lparr>ch_sent = xs, ch_open = False\<rparr> =
     (replicate (length ds) (Err (Other ''body closed'')), \<lparr>ch_sent = xs, ch_open = False\<rparr>)"
proof -
  have map: "List.map_filter data_result (map (\<lambda>d. Inr (Data d)) ds @ ts) = map Inr ds @ List.map_filter data_result ts" for ts
    by (induction ds) (simp_all add: List.map_filter_simps)
  have "fst (into_bytes E (Body (Some (Iter (Items (map (\<lambda>d. Inr (Data d)) ds @ ts)))))) = Ok (concat ds)"
    if "List.map_filter data_result ts = []" for ts
    by (simp add: into_bytes_iter fst_data_collect map that del: into_bytes.simps)
  from this [of "[]"] this [of "[Inr (Trailers t)]"] show ?thesis
    by (simp add: run_sends_open run_sends_closed new_channel_def channel_body_def channel_send_trailers_def
        mpsc_send_def List.map_filter_simps del: into_bytes.simps)
qed

section \<open>Giving the connection back\<close>

text \<open>
  C35: When a request whose body owns the connection is dropped unread, a body of announced length
  is skipped, but a chunked one is not: the source given back still starts with its frames, so they
  are what the next request is parsed from.
\<close>

theorem dropped_body_leaves:
  assumes "quiet s" "parse_request E s = (Inr req, None)"
  shows "\<exists>s'. drop_body (rq_body req) = Some s' \<and>
    (case abs_body (rq_body req) of
       AChunked bs \<Rightarrow> bytes_of s' = bs \<and> snd (split_head [] (bytes_of s)) = bs
     | AStream bs len \<Rightarrow> bytes_of s' = drop len bs \<and> snd (split_head [] (bytes_of s)) = bs
     | _ \<Rightarrow> False)"
proof -
  obtain s1 where h: "read_head [] s = (Ok (fst (split_head [] (bytes_of s))), s1)" "quiet s1"
    "bytes_of s1 = snd (split_head [] (bytes_of s))"
    using read_head_quiet [OF assms(1), of "[]"] by blast
  from assms(2) h(1) obtain hd b where b: "request_body E hd s1 = (Inr b, None)" "rq_body req = b"
    by (auto simp: parse_request_def split: prod.splits sum.splits)
  from b(1) h(2,3) show ?thesis
    unfolding b(2)
    by (auto simp: request_body_def body_from_vec_def body_empty_def body_from_reader_def stream_simps
        split: sum.splits option.splits if_splits)
qed

definition chunked_upload :: stream where
  "chunked_upload = [Avail (''POST / HTTP/1.1'' @ crlf @ ''transfer-encoding: chunked'' @ crlf @ crlf),
     Avail (''2'' @ crlf @ ''ab'' @ crlf @ ''0'' @ crlf @ crlf @ ''GET'')]"

definition chunked_upload_parsed :: "body request" where
  "chunked_upload_parsed = \<lparr>rq_method = ''POST'', rq_uri = ''/'', rq_version = HTTP_11,
     rq_headers = [(''transfer-encoding'', ''chunked'')],
     rq_body = Body (Some (Iter (ChunkedReader
       [Avail (''2'' @ crlf @ ''ab'' @ crlf @ ''0'' @ crlf @ crlf @ ''GET'')])))\<rparr>"

theorem dropped_body_leaves_witness:
  "\<exists>s'. drop_body (rq_body chunked_upload_parsed) = Some s' \<and>
     bytes_of s' = ''2'' @ crlf @ ''ab'' @ crlf @ ''0'' @ crlf @ crlf @ ''GET''"
proof -
  have "quiet chunked_upload" by code_simp
  moreover have "parse_request ref_crates chunked_upload = (Inr chunked_upload_parsed, None)" by code_simp
  ultimately show ?thesis
    using dropped_body_leaves [of chunked_upload ref_crates chunked_upload_parsed]
    by (auto simp: chunked_upload_parsed_def)
qed

text \<open>
  C36: \<^verbatim>\<open>ChunkIterator\<close> over a body of announced length does not cut its last block: when the bytes of
  the next message are in the same block, they are delivered as part of this body, which
  \<^verbatim>\<open>into_bytes\<close> and \<^verbatim>\<open>into_reader\<close> do not do.
\<close>

theorem chunk_overrun:
  assumes "0 < len" "len < length bs" "length bs \<le> CHUNK_BUF"
  shows "(\<exists>it. into_chunks (body_from_reader (Avail bs # s) (Some len)) = Ok it \<and>
       fst (chunk_collect E it) = [Inr (Data bs)]) \<and>
    fst (into_bytes E (body_from_reader (Avail bs # s) (Some len))) = Ok (take len bs)"
proof -
  let ?c = "ChunkIterator (Some (CReader (Avail bs # s) (Some len)))"
  have "chunk_step E ?c = (Some (Inr (Data bs)), ChunkIterator None)"
    using assms by (auto simp: chunk_step_def checked_sub_def push_back_def)
  then have "fst (chunk_collect E ?c) = [Inr (Data bs)]"
    by (simp add: chunk_collect.simps [of E ?c])
  with assms show ?thesis by (auto simp: body_from_reader_def)
qed

theorem chunk_overrun_witness:
  "(\<exists>it. into_chunks (body_from_reader [Avail ''abcGET /''] (Some 3)) = Ok it \<and>
      fst (chunk_collect ref_crates it) = [Inr (Data ''abcGET /'')]) \<and>
   fst (into_bytes ref_crates (body_from_reader [Avail ''abcGET /''] (Some 3))) = Ok ''abc''"
  using chunk_overrun [of 3 "''abcGET /''" "[]" ref_crates] by (simp add: CHUNK_BUF_def)

end
