(* ===== verification/Sources.thy ===== *)
theory Sources
  imports Write_Spec
begin

text \<open>
  Where the connection's reader goes: consuming, copying, iterating or dropping a body gives its
  source back no larger than it was, and a parsed request has used up at least part of its
  connection.  This is what makes the connection loop end.
\<close>

section \<open>Comparing sources\<close>

definition src_le :: "stream option \<Rightarrow> stream option \<Rightarrow> bool" where
  "src_le a b \<longleftrightarrow>
     (case a of None \<Rightarrow> True
      | Some s \<Rightarrow> (case b of None \<Rightarrow> False | Some t \<Rightarrow> stream_size s \<le> stream_size t))"

lemma src_le_simps [simp]:
  "src_le None b"
  "\<not> src_le (Some s) None"
  "src_le (Some s) (Some t) \<longleftrightarrow> stream_size s \<le> stream_size t"
  "src_le a a"
  by (simp_all add: src_le_def split: option.split)

lemma src_le_trans: "src_le a b \<Longrightarrow> src_le b c \<Longrightarrow> src_le a c"
  by (auto simp: src_le_def split: option.splits)

lemma src_le_or: "src_le (or_source a b) c \<longleftrightarrow> src_le a c \<and> (a = None \<longrightarrow> src_le b c)"
  by (cases a) auto

section \<open>Iterators and readers\<close>

lemma iter_source_le: "iter_next E it = (r, it') \<Longrightarrow> src_le (iter_source it') (iter_source it)"
  by (induction E it rule: iter_next.induct)
    (auto split: prod.splits option.splits dest: chunked_next_size)

lemma data_source_le: "src_le (iter_source (snd (data_next E it))) (iter_source it)"
proof (induction E it rule: data_next.induct)
  case (1 E it)
  then show ?case
    by (subst data_next.simps)
      (auto split: prod.splits option.splits dest: iter_source_le intro: src_le_trans)
qed

lemma collect_source_le: "src_le (iter_source (snd (collect_data E it))) (iter_source it)"
proof (induction E it rule: collect_data.induct)
  case (1 E it)
  then show ?case
    using data_source_le [of E it]
    by (subst collect_data.simps, auto split: prod.splits option.splits sum.splits res.splits)
      (blast intro: src_le_trans)+
qed

lemma iter_read_source_le: "src_le (iter_source (fst (snd (iter_read E n it l)))) (iter_source it)"
proof (induction E n it l rule: iter_read.induct)
  case (2 E n it c)
  then show ?case
    using data_source_le [of E it]
    by (subst iter_read.simps, auto split: prod.splits option.splits sum.splits)
      (blast intro: src_le_trans)+
qed simp

lemma body_read_source_le: "src_le (reader_source (snd (body_read E n r))) (reader_source r)"
proof (induction E n r rule: body_read.induct)
  case (4 E n it l)
  then show ?case
    using iter_read_source_le [of E n it l] by (cases "iter_read E n it l") auto
qed (auto simp: take_read_def split: prod.splits res.splits dest: read_size)

lemma io_copy_source_le: "src_le (reader_source (fst (snd (io_copy E r w)))) (reader_source r)"
proof (induction E r w rule: io_copy.induct)
  case (1 E r w)
  then show ?case
    using body_read_source_le [of E CHUNK_BUF r]
    by (subst io_copy.simps, auto split: prod.splits res.splits)
      (blast intro: src_le_trans)+
qed

lemma chunk_source_le:
  "chunk_next E it = (x, it', src) \<Longrightarrow>
     src_le src (chunk_source it) \<and> src_le (chunk_source it') (chunk_source it)"
  by (induction E it rule: chunk_next.induct)
    (auto split: prod.splits option.splits sum.splits res.splits if_splits
      dest: iter_source_le read_size)

lemma write_chunks_source_le: "src_le (fst (snd (write_chunks E it t w))) (chunk_source it)"
proof (induction E it t w rule: write_chunks.induct)
  case (1 E it t w)
  obtain x it' src where n: "chunk_next E it = (x, it', src)" by (metis prod_cases3)
  from 1 n chunk_source_le [OF n] show ?case
    by (subst write_chunks.simps,
        auto simp: src_le_or split: prod.splits option.splits sum.splits chunk.splits res.splits)
      (blast intro: src_le_trans)+
qed

section \<open>Body types\<close>

text \<open>
  \<open>owner\<close> is the source that a body owns.  Whatever is done with the body, at most that source
  comes back.
\<close>

locale sourced_body =
  fixes B :: "'b http_body" and owner :: "'b \<Rightarrow> stream option"
  assumes bytes_src: "src_le (snd (hb_into_bytes B b)) (owner b)"
    and drop_src: "src_le (hb_drop B b) (owner b)"
    and reader_src: "hb_into_reader B b = Ok r \<Longrightarrow> src_le (reader_source r) (owner b)"
    and chunks_src: "hb_into_chunks B b = Ok it \<Longrightarrow> src_le (chunk_source it) (owner b)"
begin

lemma write_body_src: "src_le (fst (snd (write_body E B enc b w))) (owner b)"
proof -
  have copy: "src_le (fst (snd (copy_body E B b w))) (owner b)"
    using io_copy_source_le reader_src [of b]
    by (auto simp: copy_body_def split: prod.splits res.splits)
      (metis fst_conv snd_conv src_le_trans)
  have chunked: "src_le (fst (snd (write_chunked_body E it w))) (owner b)"
    if "hb_into_chunks B b = Ok it" for it
    using src_le_trans [OF write_chunks_source_le [of E it "[]" w] chunks_src [OF that]]
    by (auto simp: write_chunked_body_def split: prod.splits res.splits)
  show ?thesis
    using copy chunked bytes_src [of b]
    by (auto simp: write_body_def split: encoding.splits prod.splits res.splits)
qed

lemma write_response_src: "src_le (fst (snd (write_response E B res wb w))) (owner (rs_body res))"
  using write_body_src [of E _ "rs_body res"] drop_src [of "rs_body res"]
  by (auto simp: write_response_def Let_def split: prod.splits res.splits)
    (metis fst_conv snd_conv)+

end

fun body_owner :: "body \<Rightarrow> stream option" where
  "body_owner (Body (Some (Iter it))) = iter_source it"
| "body_owner (Body (Some (Reader s l))) = Some s"
| "body_owner b = None"

lemma drop_body_source_le: "src_le (drop_body b) (body_owner b)"
  using take_read_to_end_size read_to_end_size
  by (induction b rule: drop_body.induct) (auto, (metis prod.collapse)+)

lemma into_bytes_source_le: "src_le (snd (into_bytes E b)) (body_owner b)"
proof (induction E b rule: into_bytes.induct)
  case (4 E it)
  then show ?case using collect_source_le [of E it] by (auto split: prod.splits res.splits)
qed (auto split: prod.splits dest: take_read_to_end_size read_to_end_size)

lemma into_reader_source_le: "into_reader E b = Ok r \<Longrightarrow> src_le (reader_source r) (body_owner b)"
proof (induction E b rule: into_reader.induct)
  case (4 E it)
  then show ?case using data_source_le [of E it] by (auto split: prod.splits option.splits sum.splits)
qed auto

lemma into_chunks_source_le: "into_chunks b = Ok it \<Longrightarrow> src_le (chunk_source it) (body_owner b)"
  by (induction b rule: into_chunks.induct) auto

interpretation body_sourced: sourced_body "body_impl E" body_owner for E
  by unfold_locales
    (simp_all add: body_impl_def drop_body_source_le into_bytes_source_le into_reader_source_le
      into_chunks_source_le)

interpretation unit_sourced: sourced_body unit_impl "\<lambda>_. None"
  by unfold_locales (auto simp: unit_impl_def)

interpretation string_sourced: sourced_body string_impl "\<lambda>_. None"
  by unfold_locales (auto simp: string_impl_def)

section \<open>Progress of the parser\<close>

lemma read_head_less: "read_head [] s = (Ok buf, s') \<Longrightarrow> buf \<noteq> [] \<Longrightarrow> stream_size s' < stream_size s"
proof -
  assume h: "read_head [] s = (Ok buf, s')" and "buf \<noteq> []"
  obtain r b1 s1 where line: "read_until LF [] s = (r, b1, s1)" by (metis prod_cases3)
  with h obtain n where n: "r = Ok n" by (cases r) (auto simp: read_head.simps [of "[]" s])
  show ?thesis
  proof (cases "n = 0")
    case True
    with line n have "b1 = []" by (auto dest: read_until_facts)
    with True line n h \<open>buf \<noteq> []\<close> show ?thesis by (simp add: read_head.simps [of "[]" s])
  next
    case False
    with line n have "stream_size s1 < stream_size s" by (auto dest: read_until_less)
    moreover have "stream_size s' \<le> stream_size s1"
      using False line n h read_head_size [of b1 s1]
      by (auto simp: read_head.simps [of "[]" s] split: if_splits)
    ultimately show ?thesis by simp
  qed
qed

text \<open>
  A parsed request leaves a smaller connection: free again, or owned by its body.
\<close>

lemma request_body_source:
  "request_body E h s = (Inr b, src) \<Longrightarrow>
     (case src of Some s' \<Rightarrow> stream_size s' \<le> stream_size s \<and> body_owner b = None
      | None \<Rightarrow> body_owner b = Some s)"
  by (auto simp: request_body_def body_from_vec_def body_from_reader_def body_empty_def
      split: sum.splits option.splits if_splits prod.splits res.splits dest!: read_exact_facts)

lemma parse_request_progress:
  assumes "parse_request E s = (Inr req, src)"
  shows "case src of Some s' \<Rightarrow> stream_size s' < stream_size s \<and> body_owner (rq_body req) = None
    | None \<Rightarrow> (\<exists>t. body_owner (rq_body req) = Some t \<and> stream_size t < stream_size s)"
proof -
  from assms obtain buf s1 m u ver h b where
    h: "read_head [] s = (Ok buf, s1)" "request_head E buf = Inr (m, u, ver, h)"
      "request_body E h s1 = (Inr b, src)" "rq_body req = b"
    by (auto simp: parse_request_def split: prod.splits res.splits sum.splits)
  have "buf \<noteq> []" using h(2) by (auto simp: request_head_def)
  with h(1) have "stream_size s1 < stream_size s" by (rule read_head_less)
  with request_body_source [OF h(3)] h(4) show ?thesis by (auto split: option.splits)
qed

end
