(* ===== verification/Message_Properties.thy ===== *)
theory Message_Properties
  imports Round_Trip Panic_Freedom Sources Reference_Crates
begin

text \<open>
  The properties of messages: what is written, what is parsed, and that the two fit together.
\<close>

text \<open>
  C4: A response that the server's half writes for a \<^verbatim>\<open>Body\<close> is the response that the client's
  half parses, with the same status, version, headers and body content, for every way in which
  the network cuts the bytes; and after its body has been read the connection is where the next
  message starts, up to the trailer section of a chunked body.
\<close>

theorem response_roundtrip:
  fixes res :: "(body, 'h) response"
  assumes "typed_insert_law E" "remove_te_law E" "chunk_size_law E"
    and "response_plan E (body_len (rs_body res)) res = Ok (enc, h)"
    and "response_readable E (rs_version res) (rs_status res) h" "clean_headers E h"
    and "body_good E (rs_body res)" "body_exact (rs_body res)"
    and "body_len (rs_body res) = None \<Longrightarrow> enc \<in> {Chunked, CloseDelimited}"
    and "enc = Chunked \<Longrightarrow> chunks_sendable (body_chunks E (body_impl E) (rs_body res))"
    and "w_cap w = None" "w_out w = []"
    and "write_response E (body_impl E) res True w = (out, src, w')"
    and "quiet s" "bytes_of s = w_out w' @ rest" "enc = CloseDelimited \<Longrightarrow> rest = []"
  shows "out = Ok (response_outcome E (rs_upgrade res) enc h) \<and>
    (\<exists>b src s'. parse_response E s =
       (Inr \<lparr>rs_status = rs_status res, rs_version = rs_version res, rs_headers = h,
          rs_upgrade = None :: 'h option, rs_body = b\<rparr>, src) \<and>
       body_good E b \<and> body_content E b = body_content E (rs_body res) \<and>
       source_after E b src = Some s' \<and> quiet s' \<and>
       bytes_of s' = unread_part E (body_chunks E (body_impl E) (rs_body res)) enc @ rest)"
proof -
  let ?xs = "body_chunks E (body_impl E) (rs_body res)"
  have len: "hb_len (body_impl E) (rs_body res) = body_len (rs_body res)" by (simp add: body_impl_def)
  have good: "body_good E (rs_body res) \<and> body_exact (rs_body res)" using assms(7,8) by simp
  have ver: "rs_version res = HTTP_10 \<or> rs_version res = HTTP_11"
    using assms(5) version_of_Inr by (auto simp: response_readable_def simp del: version_of.simps)
  have framed: "framed E h enc (body_content E (rs_body res)) ?xs"
    by (rule body_chunks.framed_of_response) (use assms ver good len in simp_all)
  have "\<exists>src w'. write_response E (body_impl E) res True w = (Ok (response_outcome E (rs_upgrade res) enc h), src, w') \<and>
      w_out w' = w_out w @ response_text E res h @ body_wire E (body_impl E) (body_content E) enc (rs_body res) \<and>
      w_cap w' = None"
    by (rule body_chunks.write_response_wire) (use assms good len in simp_all)
  with assms(12,13) have out: "out = Ok (response_outcome E (rs_upgrade res) enc h)"
    "w_out w' = response_text E res h @ framed_wire E enc (body_content E (rs_body res)) ?xs"
    by (auto simp: body_chunks.body_wire_framed)
  have "bytes_of s = (status_line E (rs_version res) (rs_status res) @ concat (map header_line h) @ crlf) @
      framed_wire E enc (body_content E (rs_body res)) ?xs @ rest"
    using assms(15) out(2) by (simp add: response_text_def)
  from parse_response_framed [OF assms(5) framed assms(14) this assms(16)] out(1) show ?thesis by blast
qed

lemma clean_headersI:
  "c_transfer_encoding E h \<in> {Inr None, Inr (Some True)} \<Longrightarrow> c_content_length E h = Inr l \<Longrightarrow> clean_headers E h"
  by (simp add: clean_headers_def)

definition hello_response :: "(body, unit) response" where
  "hello_response = \<lparr>rs_status = 200, rs_version = HTTP_11, rs_headers = [(''host'', ''a'')],
     rs_upgrade = None, rs_body = Body (Some (Buffered ''hello''))\<rparr>"

definition hello_headers :: header_map where
  "hello_headers = [(''host'', ''a''), (''content-length'', ''5'')]"

definition hello_wire :: bytes where
  "hello_wire = ''HTTP/1.1 200 OK'' @ crlf @ ''host: a'' @ crlf @ ''content-length: 5'' @ crlf @ crlf @ ''hello''"

lemma hello_plan: "response_plan ref_crates (body_len (rs_body hello_response)) hello_response =
    Ok (FixedLength 5, hello_headers)"
  by code_simp

lemma hello_readable: "response_readable ref_crates HTTP_11 200 hello_headers"
proof -
  have "c_parse_response ref_crates (status_line ref_crates HTTP_11 200 @ concat (map header_line hello_headers) @ crlf) =
    Inr \<lparr>ps_code = Some 200, ps_version = Some 1, ps_headers = hello_headers @ replicate 0 EMPTY_HEADER\<rparr>"
    by code_simp
  then show ?thesis
    unfolding response_readable_def
    by (intro conjI exI [of _ 1] exI [of _ 0])
      (code_simp | simp add: builds_headers_def hello_headers_def ref_crates_def less_Suc_eq)+
qed

lemma hello_written:
  "\<exists>src. write_response ref_crates (body_impl ref_crates) hello_response True new_writer =
     (Ok KeepAlive, src, \<lparr>w_out = hello_wire, w_flushed = 0, w_cap = None\<rparr>)"
  by (rule exI [of _ None]) code_simp

text \<open>The response in two blocks, the cut being inside the status line.\<close>

theorem response_roundtrip_witness:
  "\<exists>b src s'. parse_response ref_crates [Avail (take 7 hello_wire), Avail (drop 7 hello_wire)] =
     (Inr \<lparr>rs_status = 200, rs_version = HTTP_11, rs_headers = hello_headers,
        rs_upgrade = None :: unit option, rs_body = b\<rparr>, src) \<and>
     body_good ref_crates b \<and> body_content ref_crates b = ''hello'' \<and>
     source_after ref_crates b src = Some s' \<and> quiet s' \<and> bytes_of s' = []"
proof -
  obtain src where w: "write_response ref_crates (body_impl ref_crates) hello_response True new_writer =
     (Ok KeepAlive, src, \<lparr>w_out = hello_wire, w_flushed = 0, w_cap = None\<rparr>)"
    using hello_written by blast
  have r: "response_readable ref_crates (rs_version hello_response) (rs_status hello_response) hello_headers"
    using hello_readable by (simp add: hello_response_def)
  have "quiet [Avail (take 7 hello_wire), Avail (drop 7 hello_wire)]" by code_simp
  moreover have "bytes_of [Avail (take 7 hello_wire), Avail (drop 7 hello_wire)] =
      w_out \<lparr>w_out = hello_wire, w_flushed = 0, w_cap = None\<rparr> @ []" by simp
  moreover have "clean_headers ref_crates hello_headers"
    by (rule clean_headersI [where l = "Some 5"]) code_simp+
  ultimately show ?thesis
    using response_roundtrip [OF ref_typed_insert_law ref_remove_te_law ref_chunk_size_law hello_plan r _ _ _ _ _ _ _ w,
        of "[Avail (take 7 hello_wire), Avail (drop 7 hello_wire)]" "[]"]
    by (simp add: hello_response_def new_writer_def unread_part_def)
qed

text \<open>
  C5: A request that the client's half writes for a \<^verbatim>\<open>Body\<close> over HTTP/1.1 is the request that the
  server's half parses, for every way in which the network cuts the bytes.
\<close>

theorem request_roundtrip:
  assumes "typed_insert_law E" "chunk_size_law E" "rq_version req = HTTP_11"
    and "request_plan E (body_len (rq_body req)) req = Ok (enc, h)"
    and "request_readable E (rq_method req) (rq_uri req) ''HTTP/1.1'' HTTP_11 h" "clean_headers E h"
    and "body_good E (rq_body req)" "body_exact (rq_body req)"
    and "body_len (rq_body req) = None \<Longrightarrow> enc = Chunked"
    and "enc = Chunked \<Longrightarrow> chunks_sendable (body_chunks E (body_impl E) (rq_body req))"
    and "w_cap w = None" "w_out w = []"
    and "write_request E (body_impl E) req w = (out, src, w')"
    and "quiet s" "bytes_of s = w_out w' @ rest"
  shows "out = Ok () \<and>
    (\<exists>b src s'. parse_request E s =
       (Inr \<lparr>rq_method = rq_method req, rq_uri = rq_uri req, rq_version = HTTP_11, rq_headers = h,
          rq_body = b\<rparr>, src) \<and>
       body_good E b \<and> body_content E b = body_content E (rq_body req) \<and>
       source_after E b src = Some s' \<and> quiet s' \<and>
       bytes_of s' = unread_part E (body_chunks E (body_impl E) (rq_body req)) enc @ rest)"
proof -
  let ?xs = "body_chunks E (body_impl E) (rq_body req)"
  have len: "hb_len (body_impl E) (rq_body req) = body_len (rq_body req)" by (simp add: body_impl_def)
  have good: "body_good E (rq_body req) \<and> body_exact (rq_body req)" using assms(7,8) by simp
  have framed: "framed E h enc (body_content E (rq_body req)) ?xs \<and> enc \<noteq> CloseDelimited"
    by (rule body_chunks.framed_of_request) (use assms good len in simp_all)
  have "\<exists>src w'. write_request E (body_impl E) req w = (Ok (), src, w') \<and>
      w_out w' = w_out w @ request_text req ''HTTP/1.1'' h @
        body_wire E (body_impl E) (body_content E) enc (rq_body req) \<and> w_cap w' = None"
    by (rule body_chunks.write_request_wire) (use assms good len in simp_all)
  with assms(12,13) have out: "out = Ok ()"
    "w_out w' = request_text req ''HTTP/1.1'' h @ framed_wire E enc (body_content E (rq_body req)) ?xs"
    by (auto simp: body_chunks.body_wire_framed)
  have bs: "bytes_of s = (request_line (rq_method req) (rq_uri req) ''HTTP/1.1'' @ concat (map header_line h) @ crlf) @
      framed_wire E enc (body_content E (rq_body req)) ?xs @ rest"
    using assms(15) out(2) by (simp add: request_text_def)
  from parse_request_framed [OF assms(5) conjunct1 [OF framed] assms(14) bs conjunct2 [OF framed]] out(1)
  show ?thesis by blast
qed

text \<open>A chunked upload: two data chunks and a trailer, cut inside the first chunk.\<close>

definition upload_request :: "body request" where
  "upload_request = \<lparr>rq_method = ''POST'', rq_uri = ''/a'', rq_version = HTTP_11, rq_headers = [],
     rq_body = Body (Some (Iter (Items [Inr (Data ''ab''), Inr (Data ''c''), Inr (Trailers [(''x'', ''1'')])])))\<rparr>"

definition upload_headers :: header_map where
  "upload_headers = [(''transfer-encoding'', ''chunked'')]"

definition upload_wire :: bytes where
  "upload_wire = ''POST /a HTTP/1.1'' @ crlf @ ''transfer-encoding: chunked'' @ crlf @ crlf @
     ''2'' @ crlf @ ''ab'' @ crlf @ ''1'' @ crlf @ ''c'' @ crlf @ ''0'' @ crlf @ ''x: 1'' @ crlf @ crlf"

lemma upload_plan: "request_plan ref_crates (body_len (rq_body upload_request)) upload_request =
    Ok (Chunked, upload_headers)"
  by code_simp

lemma upload_readable: "request_readable ref_crates ''POST'' ''/a'' ''HTTP/1.1'' HTTP_11 upload_headers"
proof -
  have "c_parse_request ref_crates (request_line ''POST'' ''/a'' ''HTTP/1.1'' @ concat (map header_line upload_headers) @ crlf) =
    Inr \<lparr>pr_method = Some ''POST'', pr_path = Some ''/a'', pr_version = Some 1,
      pr_headers = upload_headers @ replicate 0 EMPTY_HEADER\<rparr>"
    by code_simp
  then show ?thesis
    unfolding request_readable_def
    by (intro conjI exI [of _ 1] exI [of _ 0])
      (code_simp | simp add: builds_headers_def upload_headers_def ref_crates_def less_Suc_eq)+
qed

lemma upload_written:
  "\<exists>src f. write_request ref_crates (body_impl ref_crates) upload_request new_writer =
     (Ok (), src, \<lparr>w_out = upload_wire, w_flushed = f, w_cap = None\<rparr>)"
  by (rule exI [of _ None], rule exI [of _ 61]) code_simp

theorem request_roundtrip_witness:
  "\<exists>b src s'. parse_request ref_crates [Avail (take 51 upload_wire), Avail (drop 51 upload_wire)] =
     (Inr \<lparr>rq_method = ''POST'', rq_uri = ''/a'', rq_version = HTTP_11, rq_headers = upload_headers,
        rq_body = b\<rparr>, src) \<and>
     body_good ref_crates b \<and> body_content ref_crates b = ''abc'' \<and>
     source_after ref_crates b src = Some s' \<and> quiet s' \<and> bytes_of s' = ''x: 1'' @ crlf @ crlf"
proof -
  let ?s = "[Avail (take 51 upload_wire), Avail (drop 51 upload_wire)]"
  let ?b = "rq_body upload_request"
  obtain src f where w: "write_request ref_crates (body_impl ref_crates) upload_request new_writer =
     (Ok (), src, \<lparr>w_out = upload_wire, w_flushed = f, w_cap = None\<rparr>)"
    using upload_written by blast
  have r: "request_readable ref_crates (rq_method upload_request) (rq_uri upload_request) ''HTTP/1.1'' HTTP_11 upload_headers"
    using upload_readable by (simp add: upload_request_def)
  have c: "clean_headers ref_crates upload_headers"
    by (rule clean_headersI [where l = None]) code_simp+
  have ver: "rq_version upload_request = HTTP_11" by (simp add: upload_request_def)
  have g: "body_good ref_crates ?b" "body_exact ?b" by code_simp+
  have xs: "body_chunks ref_crates (body_impl ref_crates) ?b = [Inr (Data ''ab''), Inr (Data ''c''), Inr (Trailers [(''x'', ''1'')])]"
    by code_simp
  have sendable: "chunks_sendable (body_chunks ref_crates (body_impl ref_crates) ?b)"
    unfolding xs by (simp add: chunks_sendable_def)
  have q: "quiet ?s" by code_simp
  have bs: "bytes_of ?s = w_out \<lparr>w_out = upload_wire, w_flushed = f, w_cap = None\<rparr> @ []" by simp
  have content: "body_content ref_crates ?b = ''abc''" by code_simp
  have unread: "unread_part ref_crates (body_chunks ref_crates (body_impl ref_crates) ?b) Chunked = ''x: 1'' @ crlf @ crlf"
    by code_simp
  show ?thesis
    using request_roundtrip [OF ref_typed_insert_law ref_chunk_size_law ver upload_plan r c g _ sendable _ _ w q bs]
    by (simp add: content unread new_writer_def) (simp add: upload_request_def)
qed

section \<open>Parsing\<close>

text \<open>
  C11: On a fault-free connection \<^verbatim>\<open>parse_request\<close> is a function of the bytes alone: the result, the
  body and the bytes left for the next request do not depend on how the network cuts the stream.
\<close>

theorem parse_request_segmentation:
  assumes "quiet s"
  shows "abs_parsed (parse_request E s) = parse_request_bytes E (bytes_of s)"
  by (rule parse_request_abs [OF assms])

theorem parse_request_segmentation_witness:
  "abs_parsed (parse_request ref_crates [Avail ''GET /a HT'', Avail (''TP/1.1'' @ [CR]), Avail (LF # crlf @ ''rest'')]) =
     (Inr \<lparr>rq_method = ''GET'', rq_uri = ''/a'', rq_version = HTTP_11, rq_headers = [], rq_body = AEmpty\<rparr>,
      Some ''rest'')"
proof -
  have "parse_request_bytes ref_crates
      (bytes_of [Avail ''GET /a HT'', Avail (''TP/1.1'' @ [CR]), Avail (LF # crlf @ ''rest'')]) =
     (Inr \<lparr>rq_method = ''GET'', rq_uri = ''/a'', rq_version = HTTP_11, rq_headers = [], rq_body = AEmpty\<rparr>,
      Some ''rest'')"
    by code_simp
  then show ?thesis by (subst parse_request_segmentation) simp_all
qed

text \<open>
  Parsing a request uses the connection up: on any connection, faults included, what is left
  (free again, or owned by the request's body) is strictly smaller, and exactly one of the two
  owns it.
\<close>

lemma parse_request_consumes:
  assumes "parse_request E s = (Inr req, src)"
  shows "case src of Some s' \<Rightarrow> stream_size s' < stream_size s \<and> body_owner (rq_body req) = None
    | None \<Rightarrow> (\<exists>t. body_owner (rq_body req) = Some t \<and> stream_size t < stream_size s)"
  by (rule parse_request_progress [OF assms])

definition get_conn :: stream where
  "get_conn = [Fault Interrupted, Avail (''GET / HTTP/1.0'' @ crlf @ crlf)]"

section \<open>Framing\<close>

text \<open>
  The header fields of a written response announce the framing that is used: chunked exactly
  with a chunked transfer coding and only on HTTP/1.1, a fixed length with that content length and
  without transfer coding, otherwise the end of the connection with \<^verbatim>\<open>connection: close\<close>; a fixed
  length is the length of the body whenever that is known.
\<close>

lemma response_announces_framing:
  assumes "typed_insert_law E" "remove_te_law E" "rs_version res = HTTP_10 \<or> rs_version res = HTTP_11"
    and "response_plan E l res = Ok (enc, h)"
  shows "announces E h enc \<and> length_agrees enc l \<and> (enc = Chunked \<longrightarrow> rs_version res = HTTP_11)"
  using response_plan_announced [OF assms] by simp

definition lengths_contradict :: "crates \<Rightarrow> 'b http_body \<Rightarrow> ('b, 'h) response \<Rightarrow> bool" where
  "lengths_contradict E B res \<longleftrightarrow>
     \<not> (has_chunked E (rs_headers res) \<and> rs_version res = HTTP_11) \<and>
     (case (get_content_length E (rs_headers res), hb_len B (rs_body res)) of
        (Some m, Some n) \<Rightarrow> m \<noteq> n | _ \<Rightarrow> False)"

lemma lengths_contradict_iff:
  "lengths_contradict E B res \<longleftrightarrow>
     response_encoding E (rs_version res) (rs_headers res) (hb_len B (rs_body res)) =
       Err (Other ''content-length doesn't match body length'')"
  by (auto simp: lengths_contradict_def response_encoding_total split: option.splits)

text \<open>
  Writing a response fails before the first byte exactly when its content length contradicts
  the known length of its body and it is not sent chunked; otherwise its framing is decided and,
  without the body, exactly its head is written.
\<close>

lemma response_plan_decides:
  assumes "w_cap w = None"
  shows "case response_plan E (hb_len B (rs_body res)) res of
      Ok (enc, h) \<Rightarrow> \<not> lengths_contradict E B res \<and>
        write_response E B res False w =
          (Ok (response_outcome E (rs_upgrade res) enc h), hb_drop B (rs_body res),
           w\<lparr>w_out := w_out w @ response_text E res h\<rparr>)
    | Err err \<Rightarrow> lengths_contradict E B res \<and>
        (\<forall>wb. write_response E B res wb w =
           (Err (Other ''content-length doesn't match body length''), hb_drop B (rs_body res), w))
    | Panic \<Rightarrow> False"
proof (cases "response_plan E (hb_len B (rs_body res)) res")
  case (Ok p)
  then obtain enc h where p: "response_plan E (hb_len B (rs_body res)) res = Ok (enc, h)" by (cases p) auto
  then have "\<not> lengths_contradict E B res" by (auto simp: lengths_contradict_iff response_plan_eq)
  with p write_response_head [OF p assms] show ?thesis by simp
next
  case (Err e)
  then have "response_encoding E (rs_version res) (rs_headers res) (hb_len B (rs_body res)) = Err e"
    by (simp add: response_plan_eq)
  then have "lengths_contradict E B res" "e = Other ''content-length doesn't match body length''"
    by (auto simp: lengths_contradict_iff response_encoding_total)
  with Err write_response_mismatch [OF Err] show ?thesis by simp
next
  case Panic
  then show ?thesis by (simp add: response_plan_eq)
qed

text \<open>
  Writing never panics, on any connection and with any faults in the body's source, unless the
  body has been consumed before; the \<^verbatim>\<open>unreachable!\<close> in the choice of the encoding is unreachable.
\<close>

lemma writing_never_panics:
  "(rs_body res \<noteq> body_default \<longrightarrow> fst (write_response E (body_impl E) res wb w) \<noteq> Panic) \<and>
   (rq_body req \<noteq> body_default \<longrightarrow> fst (write_request E (body_impl E) req w) \<noteq> Panic) \<and>
   response_encoding E ver h l \<noteq> Panic \<and> request_encoding E m ver h l \<noteq> Panic"
  using live_body.write_response_not_Panic [of res E E wb w]
    live_body.write_request_not_Panic [of req E E w]
  by (simp add: body_default_def response_encoding_total request_encoding_total)

end
