(* ===== verification/Read_Queue.thy ===== *)
theory Read_Queue
  imports Touche_Prelude
begin

text \<open>
  \<^verbatim>\<open>src/read_queue.rs\<close>: the queue that hands one connection reader from request to request.
  Each \<^verbatim>\<open>QueuedReader\<close> gets the reader from its predecessor over a channel and passes it to its
  successor when it is dropped.  The channels live in a store that all operations thread
  through; waiting on an empty channel and \<^verbatim>\<open>unwrap\<close> on a closed one are results of their own.
\<close>

section \<open>Channels\<close>

text \<open>\<^verbatim>\<open>mpsc::channel\<close>: queued messages, and whether the two ends still exist.\<close>

record 'r chan =
  msgs :: "'r list"
  tx_live :: bool
  rx_live :: bool

type_synonym 'r chans = "'r chan list"

datatype 'a blocking = Done 'a | Blocked | Panicked

definition channel :: "'r chans \<Rightarrow> nat \<times> 'r chans" where
  "channel st = (length st, st @ [\<lparr>msgs = [], tx_live = True, rx_live = True\<rparr>])"

text \<open>\<^verbatim>\<open>Sender::send\<close>; the error of a closed channel is ignored by the only caller.\<close>

definition send :: "nat \<Rightarrow> 'r \<Rightarrow> 'r chans \<Rightarrow> 'r chans" where
  "send c r st =
     (if rx_live (st ! c) then st[c := (st ! c)\<lparr>msgs := msgs (st ! c) @ [r]\<rparr>] else st)"

text \<open>\<^verbatim>\<open>rx.recv().unwrap()\<close>.\<close>

definition recv :: "nat \<Rightarrow> 'r chans \<Rightarrow> ('r \<times> 'r chans) blocking" where
  "recv c st =
     (case msgs (st ! c) of
        r # rs \<Rightarrow> Done (r, st[c := (st ! c)\<lparr>msgs := rs\<rparr>])
      | [] \<Rightarrow> if tx_live (st ! c) then Blocked else Panicked)"

definition drop_sender :: "nat \<Rightarrow> 'r chans \<Rightarrow> 'r chans" where
  "drop_sender c st = st[c := (st ! c)\<lparr>tx_live := False\<rparr>]"

definition drop_receiver :: "nat \<Rightarrow> 'r chans \<Rightarrow> 'r chans" where
  "drop_receiver c st = st[c := (st ! c)\<lparr>rx_live := False, msgs := []\<rparr>]"

section \<open>The queue and its readers\<close>

datatype 'r read_queue = Head 'r | Next nat

datatype 'r queued_inner = Current 'r | Waiting nat

record 'r queued_reader =
  qr_reader :: "'r queued_inner option"
  qr_next :: nat

definition rq_new :: "'r \<Rightarrow> 'r read_queue" where
  "rq_new reader = Head reader"

definition enqueue :: "'r read_queue \<Rightarrow> 'r chans \<Rightarrow> 'r queued_reader \<times> 'r read_queue \<times> 'r chans" where
  "enqueue q st =
     (case channel st of (c, st') \<Rightarrow>
        (case q of
           Head reader \<Rightarrow> (\<lparr>qr_reader = Some (Current reader), qr_next = c\<rparr>, Next c, st')
         | Next previous \<Rightarrow> (\<lparr>qr_reader = Some (Waiting previous), qr_next = c\<rparr>, Next c, st')))"

text \<open>
  \<^verbatim>\<open>Read::read\<close> on a queued reader, for a read operation \<open>rd\<close> of the reader itself: a waiting
  reader first receives, and is the current one from then on.  The receiver is dropped with it.
\<close>

definition qr_read ::
  "('r \<Rightarrow> 'a \<times> 'r) \<Rightarrow> 'r queued_reader \<Rightarrow> 'r chans \<Rightarrow> ('a \<times> 'r queued_reader \<times> 'r chans) blocking" where
  "qr_read rd q st =
     (case qr_reader q of
        None \<Rightarrow> Panicked
      | Some (Current reader) \<Rightarrow>
          (case rd reader of (a, reader') \<Rightarrow> Done (a, q\<lparr>qr_reader := Some (Current reader')\<rparr>, st))
      | Some (Waiting rx) \<Rightarrow>
          (case recv rx st of
             Done (reader, st') \<Rightarrow>
               (case rd reader of (a, reader') \<Rightarrow>
                  Done (a, q\<lparr>qr_reader := Some (Current reader')\<rparr>, drop_receiver rx st'))
           | Blocked \<Rightarrow> Blocked
           | Panicked \<Rightarrow> Panicked))"

text \<open>
  \<^verbatim>\<open>BufRead::fill_buf\<close> and \<^verbatim>\<open>consume\<close>: the same hand-over, written as a recursive call after
  storing the received reader.
\<close>

definition qr_acquire :: "'r queued_reader \<Rightarrow> 'r chans \<Rightarrow> ('r queued_reader \<times> 'r chans) blocking" where
  "qr_acquire q st =
     (case qr_reader q of
        None \<Rightarrow> Panicked
      | Some (Current reader) \<Rightarrow> Done (q, st)
      | Some (Waiting rx) \<Rightarrow>
          (case recv rx st of
             Done (reader, st') \<Rightarrow> Done (q\<lparr>qr_reader := Some (Current reader)\<rparr>, drop_receiver rx st')
           | Blocked \<Rightarrow> Blocked
           | Panicked \<Rightarrow> Panicked))"

definition qr_fill_buf ::
  "('r \<Rightarrow> 'a \<times> 'r) \<Rightarrow> 'r queued_reader \<Rightarrow> 'r chans \<Rightarrow> ('a \<times> 'r queued_reader \<times> 'r chans) blocking" where
  "qr_fill_buf fill q st =
     (case qr_acquire q st of
        Done (q', st') \<Rightarrow> qr_read fill q' st'
      | Blocked \<Rightarrow> Blocked
      | Panicked \<Rightarrow> Panicked)"

definition qr_consume ::
  "('r \<Rightarrow> 'r) \<Rightarrow> 'r queued_reader \<Rightarrow> 'r chans \<Rightarrow> ('r queued_reader \<times> 'r chans) blocking" where
  "qr_consume eat q st =
     (case qr_acquire q st of
        Done (q', st') \<Rightarrow>
          (case qr_read (\<lambda>r. ((), eat r)) q' st' of
             Done (_, q'', st'') \<Rightarrow> Done (q'', st'')
           | Blocked \<Rightarrow> Blocked
           | Panicked \<Rightarrow> Panicked)
      | Blocked \<Rightarrow> Blocked
      | Panicked \<Rightarrow> Panicked)"

text \<open>
  \<^verbatim>\<open>Drop for QueuedReader\<close>: the reader (received first, if still waited for) goes to the
  successor; then the fields are dropped, which closes this end of the channel.
\<close>

definition qr_drop :: "'r queued_reader \<Rightarrow> 'r chans \<Rightarrow> 'r chans blocking" where
  "qr_drop q st =
     (case qr_reader q of
        None \<Rightarrow> Done (drop_sender (qr_next q) st)
      | Some (Current reader) \<Rightarrow> Done (drop_sender (qr_next q) (send (qr_next q) reader st))
      | Some (Waiting rx) \<Rightarrow>
          (case recv rx st of
             Done (reader, st') \<Rightarrow>
               Done (drop_sender (qr_next q) (send (qr_next q) reader (drop_receiver rx st')))
           | Blocked \<Rightarrow> Blocked
           | Panicked \<Rightarrow> Panicked))"

text \<open>Dropping the queue itself closes the receiving end of its last channel.\<close>

definition rq_drop :: "'r read_queue \<Rightarrow> 'r chans \<Rightarrow> 'r chans" where
  "rq_drop q st = (case q of Head _ \<Rightarrow> st | Next c \<Rightarrow> drop_receiver c st)"

text \<open>The three reading operations agree on when they wait and on what they hand over.\<close>

lemma qr_fill_buf_eq: "qr_fill_buf fill q st = qr_read fill q st"
  by (auto simp: qr_fill_buf_def qr_acquire_def qr_read_def
      split: option.splits queued_inner.splits blocking.splits prod.splits)

lemma qr_consume_eq:
  "qr_consume eat q st =
     (case qr_read (\<lambda>r. ((), eat r)) q st of
        Done (_, q', st') \<Rightarrow> Done (q', st')
      | Blocked \<Rightarrow> Blocked
      | Panicked \<Rightarrow> Panicked)"
  by (auto simp: qr_consume_def qr_acquire_def qr_read_def
      split: option.splits queued_inner.splits blocking.splits prod.splits)

section \<open>Handing over in sequence\<close>

text \<open>
  The contract the connection loop relies on.  \<open>ready q h c x\<close>: \<open>h\<close> is the reader enqueued
  last, and acquiring it gives \<open>r\<close> (\<open>x = Some r\<close>) or waits (\<open>x = None\<close>); \<open>held q h c\<close>: \<open>h\<close> has been
  acquired and no reader was enqueued behind it yet.  Whether a reader is released before or
  after its successor is enqueued makes no difference.
\<close>

locale handover =
  fixes ready :: "'q \<Rightarrow> 'h \<Rightarrow> 'c \<Rightarrow> 'r option \<Rightarrow> bool"
    and held :: "'q \<Rightarrow> 'h \<Rightarrow> 'c \<Rightarrow> bool"
    and acquire :: "'h \<Rightarrow> 'c \<Rightarrow> ('h \<times> 'c) blocking"
    and current :: "'h \<Rightarrow> 'r option"
    and enq :: "'q \<Rightarrow> 'c \<Rightarrow> 'h \<times> 'q \<times> 'c"
    and release :: "'h \<Rightarrow> 'r \<Rightarrow> 'c \<Rightarrow> 'c blocking"
    and abandon :: "'h \<Rightarrow> 'c \<Rightarrow> 'c blocking"
  assumes acquire_ready: "ready q h c (Some r) \<Longrightarrow>
      \<exists>h' c'. acquire h c = Done (h', c') \<and> current h' = Some r \<and> held q h' c'"
    and acquire_waits: "ready q h c None \<Longrightarrow> acquire h c = Blocked"
    and release_enq: "held q h c \<Longrightarrow>
      \<exists>c1. release h r c = Done c1 \<and> (\<forall>h2 q2 c2. enq q c1 = (h2, q2, c2) \<longrightarrow> ready q2 h2 c2 (Some r))"
    and enq_held: "held q h c \<Longrightarrow> enq q c = (h2, q2, c2) \<Longrightarrow> ready q2 h2 c2 None"
    and enq_release: "held q h c \<Longrightarrow> enq q c = (h2, q2, c2) \<Longrightarrow>
      \<exists>c3. release h r c2 = Done c3 \<and> ready q2 h2 c3 (Some r)"
    and abandon_ready: "ready q h c (Some r) \<Longrightarrow> \<exists>c'. abandon h c = Done c'"
    and abandon_waits: "ready q h c None \<Longrightarrow> abandon h c = Blocked"
begin

text \<open>One full turn, with the reader given back early, late or not at all.\<close>

lemma turn:
  assumes "ready q h c (Some r)"
  obtains h' c' where "acquire h c = Done (h', c')" "current h' = Some r" "held q h' c'"
    "\<And>r'. \<exists>c1. release h' r' c' = Done c1 \<and>
       (\<forall>h2 q2 c2. enq q c1 = (h2, q2, c2) \<longrightarrow> ready q2 h2 c2 (Some r'))"
    "\<And>h2 q2 c2. enq q c' = (h2, q2, c2) \<Longrightarrow> ready q2 h2 c2 None"
    "\<And>h2 q2 c2 r'. enq q c' = (h2, q2, c2) \<Longrightarrow> \<exists>c3. release h' r' c2 = Done c3 \<and> ready q2 h2 c3 (Some r')"
  using acquire_ready [OF assms] release_enq enq_held enq_release by metis

end

definition chan_idle :: "nat \<Rightarrow> 'r chans \<Rightarrow> bool" where
  "chan_idle c st \<longleftrightarrow> c < length st \<and> st ! c = \<lparr>msgs = [], tx_live = True, rx_live = True\<rparr>"

definition rq_held :: "'r read_queue \<Rightarrow> 'r queued_reader \<Rightarrow> 'r chans \<Rightarrow> bool" where
  "rq_held q rd st \<longleftrightarrow>
     q = Next (qr_next rd) \<and> chan_idle (qr_next rd) st \<and> (\<exists>r. qr_reader rd = Some (Current r))"

definition rq_ready :: "'r read_queue \<Rightarrow> 'r queued_reader \<Rightarrow> 'r chans \<Rightarrow> 'r option \<Rightarrow> bool" where
  "rq_ready q rd st x \<longleftrightarrow>
     q = Next (qr_next rd) \<and> chan_idle (qr_next rd) st \<and>
     (case x of
        Some r \<Rightarrow>
          qr_reader rd = Some (Current r) \<or>
          (\<exists>c. qr_reader rd = Some (Waiting c) \<and> c \<noteq> qr_next rd \<and> c < length st \<and> msgs (st ! c) = [r])
      | None \<Rightarrow>
          (\<exists>c. qr_reader rd = Some (Waiting c) \<and> c \<noteq> qr_next rd \<and> chan_idle c st))"

definition qr_current :: "'r queued_reader \<Rightarrow> 'r option" where
  "qr_current rd = (case qr_reader rd of Some (Current r) \<Rightarrow> Some r | _ \<Rightarrow> None)"

definition qr_release :: "'r queued_reader \<Rightarrow> 'r \<Rightarrow> 'r chans \<Rightarrow> 'r chans blocking" where
  "qr_release rd r st = qr_drop (rd\<lparr>qr_reader := Some (Current r)\<rparr>) st"

lemmas rq_unfold = rq_held_def rq_ready_def chan_idle_def qr_acquire_def qr_current_def
  qr_release_def qr_drop_def recv_def send_def drop_sender_def drop_receiver_def enqueue_def channel_def

interpretation rq: handover rq_ready rq_held qr_acquire qr_current enqueue qr_release qr_drop
proof
  fix q :: "'r read_queue" and h :: "'r queued_reader" and c and r
  assume "rq_ready q h c (Some r)"
  then show "\<exists>h' c'. qr_acquire h c = Done (h', c') \<and> qr_current h' = Some r \<and> rq_held q h' c'"
    by (auto simp: rq_unfold)
next
  fix q :: "'r read_queue" and h :: "'r queued_reader" and c
  assume "rq_ready q h c None"
  then show "qr_acquire h c = Blocked" by (auto simp: rq_unfold)
next
  fix q :: "'r read_queue" and h :: "'r queued_reader" and c and r
  assume "rq_held q h c"
  then show "\<exists>c1. qr_release h r c = Done c1 \<and>
      (\<forall>h2 q2 c2. enqueue q c1 = (h2, q2, c2) \<longrightarrow> rq_ready q2 h2 c2 (Some r))"
    by (auto simp: rq_unfold nth_append)
next
  fix q q2 :: "'r read_queue" and h h2 :: "'r queued_reader" and c c2
  assume "rq_held q h c" "enqueue q c = (h2, q2, c2)"
  then show "rq_ready q2 h2 c2 None" by (auto simp: rq_unfold nth_append)
next
  fix q q2 :: "'r read_queue" and h h2 :: "'r queued_reader" and c c2 and r
  assume "rq_held q h c" "enqueue q c = (h2, q2, c2)"
  then show "\<exists>c3. qr_release h r c2 = Done c3 \<and> rq_ready q2 h2 c3 (Some r)"
    by (auto simp: rq_unfold nth_append)
next
  fix q :: "'r read_queue" and h :: "'r queued_reader" and c and r
  assume "rq_ready q h c (Some r)"
  then show "\<exists>c'. qr_drop h c = Done c'" by (auto simp: rq_unfold)
next
  fix q :: "'r read_queue" and h :: "'r queued_reader" and c
  assume "rq_ready q h c None"
  then show "qr_drop h c = Blocked" by (auto simp: rq_unfold)
qed

end
