(* ===== verification/Server.thy ===== *)
theory Server
  imports Response Read_Queue
begin

text \<open>
  \<^verbatim>\<open>src/server.rs\<close>: the connection loop \<^verbatim>\<open>serve\<close> and what surrounds it.  The reader of the
  connection travels through the read queue; the application is a record of operations on its
  own state.  Requests and their bodies are values, so the application also says what became of
  a body that owns the reader: dropped (with the reader as it left it), moved into the response,
  or kept somewhere else.
\<close>

section \<open>The Service trait\<close>

datatype body_fate = Dropped stream | InResponse | Kept

record ('b, 'h, 's) service =
  sv_call :: "'s \<Rightarrow> body request \<Rightarrow> (string + ('b, 'h) response) \<times> body_fate \<times> 's"
  sv_should_continue :: "'s \<Rightarrow> body request \<Rightarrow> status_code \<times> 's"

text \<open>The provided method \<^verbatim>\<open>should_continue\<close>, and the implementation for closures.\<close>

definition default_should_continue :: "'s \<Rightarrow> body request \<Rightarrow> status_code \<times> 's" where
  "default_should_continue s req = (CONTINUE, s)"

definition fn_service ::
  "('s \<Rightarrow> body request \<Rightarrow> (string + ('b, 'h) response) \<times> body_fate \<times> 's) \<Rightarrow> ('b, 'h, 's) service" where
  "fn_service f = \<lparr>sv_call = f, sv_should_continue = default_should_continue\<rparr>"

section \<open>Decisions of the loop\<close>

definition demands_close :: "crates \<Rightarrow> version \<Rightarrow> header_map \<Rightarrow> bool" where
  "demands_close E ver headers =
     (case ver of
        HTTP_09 \<Rightarrow> True
      | HTTP_10 \<Rightarrow> \<not> connection_has E ''keep-alive'' headers
      | _ \<Rightarrow> connection_has E ''close'' headers)"

definition should_write_body :: "http_method \<Rightarrow> status_code \<Rightarrow> bool" where
  "should_write_body meth status =
     (if meth = ''HEAD'' then False
      else if meth = ''CONNECT'' then is_success status
      else True)"

text \<open>\<^verbatim>\<open>Response::builder().status(status).body(())\<close>: HTTP/1.1 and no headers.\<close>

definition interim_response :: "status_code \<Rightarrow> (unit, 'h) response" where
  "interim_response status = \<lparr>rs_status = status, rs_version = HTTP_11, rs_headers = [],
     rs_upgrade = None, rs_body = ()\<rparr>"

text \<open>The response of the application, with the version of the request and the added headers.\<close>

definition prepare_response ::
  "crates \<Rightarrow> bytes \<Rightarrow> version \<Rightarrow> bool \<Rightarrow> ('b, 'h) response \<Rightarrow> ('b, 'h) response" where
  "prepare_response E now ver asks_for_keep_alive res =
     (let h0 = rs_headers res;
          h1 = (if ver = HTTP_10 \<and> \<not> asks_for_keep_alive then c_insert E ''connection'' ''close'' h0 else h0);
          h2 = (if typed_get (c_date E h1) = None then c_insert_date E now h1 else h1)
      in res\<lparr>rs_version := ver, rs_headers := h2\<rparr>)"

section \<open>One request\<close>

datatype 'h control = Continue | Break | Fail io_error | Crash | HandOver 'h

text \<open>
  Writing the interim response and flushing it; \<^term>\<open>None\<close> when both succeeded.
\<close>

definition write_interim :: "crates \<Rightarrow> status_code \<Rightarrow> writer \<Rightarrow> 'h control option \<times> writer" where
  "write_interim E status w =
     (case write_response E unit_impl (interim_response status :: (unit, unit) response) True w of
        (Ok _, src, w') \<Rightarrow>
          (case flush w' of
             (Ok _, w'') \<Rightarrow> (None, w'')
           | (Err err, w'') \<Rightarrow> (Some (Fail err), w'')
           | (Panic, w'') \<Rightarrow> (Some Crash, w''))
      | (Err err, src, w') \<Rightarrow> (Some (Fail err), w')
      | (Panic, src, w') \<Rightarrow> (Some Crash, w'))"

text \<open>
  From the call of the application to the end of the loop's body.  The second component is the
  connection's reader, when the request's body owned it and it has been given back by then.
\<close>

definition given_back :: "body_fate \<Rightarrow> stream option \<Rightarrow> stream option" where
  "given_back fate src =
     (case fate of Dropped s \<Rightarrow> Some s | InResponse \<Rightarrow> src | Kept \<Rightarrow> None)"

definition answer_request ::
  "crates \<Rightarrow> 'b http_body \<Rightarrow> ('b, 'h, 's) service \<Rightarrow> bytes \<Rightarrow> body request \<Rightarrow> writer \<Rightarrow> 's \<Rightarrow>
     'h control \<times> stream option \<times> writer \<times> 's" where
  "answer_request E B A now req w app =
     (case sv_call A app req of
        (Inl err, fate, app') \<Rightarrow> (Fail (Other err), given_back fate None, w, app')
      | (Inr res0, fate, app') \<Rightarrow>
          (let ver = rq_version req;
               keep_alive = connection_has E ''keep-alive'' (rq_headers req);
               res = prepare_response E now ver keep_alive res0;
               with_body = should_write_body (rq_method req) (rs_status res)
           in case write_response E B res with_body w of
                (Err err, src, w') \<Rightarrow> (Fail err, given_back fate src, w', app')
              | (Panic, src, w') \<Rightarrow> (Crash, given_back fate src, w', app')
              | (Ok outcome, src, w') \<Rightarrow>
                  (case outcome of
                     KeepAlive \<Rightarrow>
                       if demands_close E ver (rq_headers req)
                       then (Break, given_back fate src, w', app')
                       else (case flush w' of
                           (Ok _, w'') \<Rightarrow> (Continue, given_back fate src, w'', app')
                         | (Err err, w'') \<Rightarrow> (Fail err, given_back fate src, w'', app')
                         | (Panic, w'') \<Rightarrow> (Crash, given_back fate src, w'', app'))
                   | Close \<Rightarrow> (Break, given_back fate src, w', app')
                   | Upgrade h \<Rightarrow> (HandOver h, given_back fate src, w', app'))))"

text \<open>
  The whole handling of a parsed request: first the \<^verbatim>\<open>Expect: 100-continue\<close> exchange.  When
  that refuses the request or fails, the request is dropped with its body.
\<close>

definition handle_request ::
  "crates \<Rightarrow> 'b http_body \<Rightarrow> ('b, 'h, 's) service \<Rightarrow> bytes \<Rightarrow> body request \<Rightarrow> writer \<Rightarrow> 's \<Rightarrow>
     'h control \<times> stream option \<times> writer \<times> 's" where
  "handle_request E B A now req w app =
     (if expects_continue E (rq_headers req) then
        (case sv_should_continue A app req of
           (status, app') \<Rightarrow>
             (case write_interim E status w of
                (Some c, w') \<Rightarrow> (c, drop_body (rq_body req), w', app')
              | (None, w') \<Rightarrow>
                  if status = CONTINUE then answer_request E B A now req w' app'
                  else (Continue, drop_body (rq_body req), w', app')))
      else answer_request E B A now req w app)"

section \<open>The connection loop\<close>

record 's serve_state =
  ss_queue :: "stream read_queue"
  ss_reader :: "stream queued_reader"
  ss_chans :: "stream chans"
  ss_writer :: writer
  ss_app :: 's
  ss_count :: nat

text \<open>
  How \<^verbatim>\<open>serve\<close> ends: it returns, waits for ever, panics, or hands the connection to an upgrade
  handler and then returns.  In that case it also says where the dropped reader stood.
\<close>

datatype 'h serve_end =
    Returned "unit res"
  | Upgraded 'h stream
  | WaitsForever
  | Panics
  | OutOfFuel

text \<open>Leaving the function drops the \<^verbatim>\<open>BufWriter\<close>, which flushes and ignores errors.\<close>

definition drop_writer :: "writer \<Rightarrow> writer" where
  "drop_writer w = snd (flush w)"

definition serve_init :: "stream \<Rightarrow> writer \<Rightarrow> 's \<Rightarrow> 's serve_state" where
  "serve_init conn w app =
     (case enqueue (rq_new conn) [] of (reader, q, chans) \<Rightarrow>
        \<lparr>ss_queue = q, ss_reader = reader, ss_chans = chans, ss_writer = w, ss_app = app, ss_count = 0\<rparr>)"

text \<open>Dropping a queued reader that holds the connection's reader in the given state.\<close>

definition give_back ::
  "stream queued_reader \<Rightarrow> stream option \<Rightarrow> stream chans \<Rightarrow> stream chans blocking" where
  "give_back reader src chans =
     (case src of
        Some s \<Rightarrow> qr_drop (reader\<lparr>qr_reader := Some (Current s)\<rparr>) chans
      | None \<Rightarrow> Done chans)"

text \<open>
  Leaving the loop after the next reader has been enqueued.  Locals are dropped in reverse
  order: the writer, then the enqueued reader, whose \<^verbatim>\<open>drop\<close> waits for the connection's reader.
  Before an upgrade the reader is dropped first and \<^verbatim>\<open>into_inner\<close> flushes the writer.
\<close>

definition reader_at :: "stream queued_reader \<Rightarrow> stream chans \<Rightarrow> stream" where
  "reader_at reader chans =
     (case qr_acquire reader chans of
        Done (r, _) \<Rightarrow> (case qr_reader r of Some (Current s) \<Rightarrow> s | _ \<Rightarrow> [])
      | _ \<Rightarrow> [])"

definition leave_loop ::
  "'h control \<Rightarrow> stream queued_reader \<Rightarrow> stream chans \<Rightarrow> writer \<Rightarrow> 's \<Rightarrow> 'h serve_end \<times> writer \<times> 's" where
  "leave_loop ctl reader chans w app =
     (case ctl of
        HandOver h \<Rightarrow>
          (case qr_drop reader chans of
             Done _ \<Rightarrow>
               (case flush w of
                  (Ok _, w') \<Rightarrow> (Upgraded h (reader_at reader chans), w', app)
                | (Err err, w') \<Rightarrow> (Returned (Err err), drop_writer w', app)
                | (Panic, w') \<Rightarrow> (Panics, w', app))
           | Blocked \<Rightarrow> (WaitsForever, w, app)
           | Panicked \<Rightarrow> (Panics, drop_writer w, app))
      | _ \<Rightarrow>
          (case qr_drop reader chans of
             Done _ \<Rightarrow>
               (case ctl of Break \<Rightarrow> Returned (Ok ()) | Fail err \<Rightarrow> Returned (Err err) | _ \<Rightarrow> Panics,
                drop_writer w, app)
           | Blocked \<Rightarrow> (WaitsForever, drop_writer w, app)
           | Panicked \<Rightarrow> (Panics, drop_writer w, app)))"

text \<open>What \<^verbatim>\<open>Err(..)\<close> of \<^verbatim>\<open>parse_request\<close> makes \<^verbatim>\<open>serve\<close> return.\<close>

definition parse_failure :: "parse_error \<Rightarrow> unit res" where
  "parse_failure err =
     (if err = ConnectionClosed then Ok () else Err (Other (parse_error_display err)))"

text \<open>
  One iteration.  \<^verbatim>\<open>parse_request(reader)\<close> starts by reading, so it first acquires the
  connection's reader; \<open>clock\<close> gives the date of the n-th answer.
\<close>

definition serve_step ::
  "crates \<Rightarrow> 'b http_body \<Rightarrow> ('b, 'h, 's) service \<Rightarrow> (nat \<Rightarrow> bytes) \<Rightarrow> 's serve_state \<Rightarrow>
     ('h serve_end \<times> writer \<times> 's) + 's serve_state" where
  "serve_step E B A clock st =
     (let w = ss_writer st; app = ss_app st in
      case qr_acquire (ss_reader st) (ss_chans st) of
        Blocked \<Rightarrow> Inl (WaitsForever, w, app)
      | Panicked \<Rightarrow> Inl (Panics, drop_writer w, app)
      | Done (reader, chans1) \<Rightarrow>
          (case qr_reader reader of
             Some (Current s) \<Rightarrow>
               (case parse_request E s of
                  (Inl err, src) \<Rightarrow> Inl (Returned (parse_failure err), drop_writer w, app)
                | (Inr req, src) \<Rightarrow>
                    (case give_back reader src chans1 of
                       Done chans2 \<Rightarrow>
                         (case enqueue (ss_queue st) chans2 of (reader', q', chans3) \<Rightarrow>
                            (case handle_request E B A (clock (ss_count st)) req w app of
                               (ctl, given, w', app') \<Rightarrow>
                                 (case give_back reader (if src = None then given else None) chans3 of
                                    Done chans4 \<Rightarrow>
                                      (case ctl of
                                         Continue \<Rightarrow>
                                           Inr \<lparr>ss_queue = q', ss_reader = reader', ss_chans = chans4,
                                             ss_writer = w', ss_app = app', ss_count = Suc (ss_count st)\<rparr>
                                       | _ \<Rightarrow> Inl (leave_loop ctl reader' chans4 w' app'))
                                  | Blocked \<Rightarrow> Inl (WaitsForever, w', app')
                                  | Panicked \<Rightarrow> Inl (Panics, drop_writer w', app'))))
                     | Blocked \<Rightarrow> Inl (WaitsForever, w, app)
                     | Panicked \<Rightarrow> Inl (Panics, drop_writer w, app)))
           | _ \<Rightarrow> Inl (Panics, drop_writer w, app)))"

fun serve_loop ::
  "nat \<Rightarrow> crates \<Rightarrow> 'b http_body \<Rightarrow> ('b, 'h, 's) service \<Rightarrow> (nat \<Rightarrow> bytes) \<Rightarrow> 's serve_state \<Rightarrow>
     'h serve_end \<times> writer \<times> 's" where
  "serve_loop 0 E B A clock st = (OutOfFuel, ss_writer st, ss_app st)"
| "serve_loop (Suc fuel) E B A clock st =
     (case serve_step E B A clock st of
        Inl result \<Rightarrow> result
      | Inr st' \<Rightarrow> serve_loop fuel E B A clock st')"

definition serve ::
  "nat \<Rightarrow> crates \<Rightarrow> 'b http_body \<Rightarrow> ('b, 'h, 's) service \<Rightarrow> (nat \<Rightarrow> bytes) \<Rightarrow> stream \<Rightarrow> writer \<Rightarrow> 's \<Rightarrow>
     'h serve_end \<times> writer \<times> 's" where
  "serve fuel E B A clock conn w app = serve_loop fuel E B A clock (serve_init conn w app)"

end
