(* ===== verification/Server_Spec.thy ===== *)
theory Server_Spec
  imports Server Panic_Freedom Round_Trip
begin

text \<open>
  The connection loop without its plumbing: one connection that is read by one request after
  the other.  \<open>serve\<close> is shown to be this loop, by the contract of the read queue alone.
\<close>

section \<open>The loop without the read queue\<close>

text \<open>
  \<open>pc_conn\<close> is the connection's reader, or \<^term>\<open>None\<close> when an application has kept it.
\<close>

record 's pipe =
  pc_conn :: "stream option"
  pc_writer :: writer
  pc_app :: 's
  pc_count :: nat

definition pipe_leave :: "'h control \<Rightarrow> stream option \<Rightarrow> writer \<Rightarrow> 's \<Rightarrow> 'h serve_end \<times> writer \<times> 's" where
  "pipe_leave ctl conn w app =
     (case ctl of
        HandOver h \<Rightarrow>
          (case conn of
             None \<Rightarrow> (WaitsForever, w, app)
           | Some s \<Rightarrow>
               (case flush w of
                  (Ok _, w') \<Rightarrow> (Upgraded h s, w', app)
                | (Err err, w') \<Rightarrow> (Returned (Err err), drop_writer w', app)
                | (Panic, w') \<Rightarrow> (Panics, w', app)))
      | _ \<Rightarrow>
          (if conn = None then WaitsForever
           else case ctl of Break \<Rightarrow> Returned (Ok ()) | Fail err \<Rightarrow> Returned (Err err) | _ \<Rightarrow> Panics,
           drop_writer w, app))"

definition pipe_step ::
  "crates \<Rightarrow> 'b http_body \<Rightarrow> ('b, 'h, 's) service \<Rightarrow> (nat \<Rightarrow> bytes) \<Rightarrow> 's pipe \<Rightarrow>
     ('h serve_end \<times> writer \<times> 's) + 's pipe" where
  "pipe_step E B A clock p =
     (case pc_conn p of
        None \<Rightarrow> Inl (WaitsForever, pc_writer p, pc_app p)
      | Some s \<Rightarrow>
          (case parse_request E s of
             (Inl err, src) \<Rightarrow> Inl (Returned (parse_failure err), drop_writer (pc_writer p), pc_app p)
           | (Inr req, src) \<Rightarrow>
               (case handle_request E B A (clock (pc_count p)) req (pc_writer p) (pc_app p) of
                  (ctl, given, w', app') \<Rightarrow>
                    (if ctl = Continue
                     then Inr \<lparr>pc_conn = or_source src given, pc_writer = w', pc_app = app',
                       pc_count = Suc (pc_count p)\<rparr>
                     else Inl (pipe_leave ctl (or_source src given) w' app')))))"

fun pipe_loop ::
  "nat \<Rightarrow> crates \<Rightarrow> 'b http_body \<Rightarrow> ('b, 'h, 's) service \<Rightarrow> (nat \<Rightarrow> bytes) \<Rightarrow> 's pipe \<Rightarrow>
     'h serve_end \<times> writer \<times> 's" where
  "pipe_loop 0 E B A clock p = (OutOfFuel, pc_writer p, pc_app p)"
| "pipe_loop (Suc fuel) E B A clock p =
     (case pipe_step E B A clock p of
        Inl result \<Rightarrow> result
      | Inr p' \<Rightarrow> pipe_loop fuel E B A clock p')"

section \<open>The simulation\<close>

definition pipe_rel :: "'s serve_state \<Rightarrow> 's pipe \<Rightarrow> bool" where
  "pipe_rel st p \<longleftrightarrow>
     rq_ready (ss_queue st) (ss_reader st) (ss_chans st) (pc_conn p) \<and>
     pc_writer p = ss_writer st \<and> pc_app p = ss_app st \<and> pc_count p = ss_count st"

lemma give_back_release: "give_back reader (Some s) chans = qr_release reader s chans"
  "give_back reader None chans = Done chans"
  by (simp_all add: give_back_def qr_release_def)

lemma qr_current_Some: "qr_current h = Some s \<Longrightarrow> qr_reader h = Some (Current s)"
  by (auto simp: qr_current_def split: option.splits queued_inner.splits)

lemma leave_loop_ready:
  "rq_ready q h c conn \<Longrightarrow> ctl \<noteq> Continue \<Longrightarrow> leave_loop ctl h c w app = pipe_leave ctl conn w app"
proof (cases conn)
  case None
  moreover assume "rq_ready q h c conn" "ctl \<noteq> Continue"
  ultimately show ?thesis
    using rq.abandon_waits [of q h c] by (cases ctl) (simp_all add: leave_loop_def pipe_leave_def)
next
  case (Some s)
  assume ready: "rq_ready q h c conn" "ctl \<noteq> Continue"
  with Some obtain c' where drop: "qr_drop h c = Done c'" using rq.abandon_ready [of q h c s] by auto
  from ready Some obtain h1 c1 where acq: "qr_acquire h c = Done (h1, c1)" "qr_current h1 = Some s"
    by (auto dest: rq.acquire_ready)
  then have "reader_at h c = s" by (simp add: reader_at_def qr_current_Some)
  with Some ready(2) drop show ?thesis
    by (cases ctl) (auto simp: leave_loop_def pipe_leave_def split: prod.splits res.splits)
qed

text \<open>
  What becomes of the reader after parsing and answering: released before the next one is
  enqueued, after it, or never.
\<close>

lemma release_any:
  assumes "rq_held q h c"
  obtains c2 h3 q3 c3 c4 where "give_back h src c = Done c2" "enqueue q c2 = (h3, q3, c3)"
    "\<And>given. \<exists>c4. give_back h (if src = None then given else None) c3 = Done c4 \<and>
       rq_ready q3 h3 c4 (or_source src given)"
proof (cases src)
  case (Some s)
  with rq.release_enq [OF assms, of s] obtain c2 where
    c2: "give_back h src c = Done c2" "\<And>h2 q2 c3. enqueue q c2 = (h2, q2, c3) \<Longrightarrow> rq_ready q2 h2 c3 (Some s)"
    by (auto simp: give_back_release)
  obtain h3 q3 c3 where e: "enqueue q c2 = (h3, q3, c3)" by (metis prod_cases3)
  from that [OF c2(1) e] c2(2) [OF e] Some show thesis by (auto simp: give_back_release)
next
  case None
  obtain h3 q3 c3 where e: "enqueue q c = (h3, q3, c3)" by (metis prod_cases3)
  have "\<exists>c4. give_back h given c3 = Done c4 \<and> rq_ready q3 h3 c4 given" for given
    using rq.enq_release [OF assms e] rq.enq_held [OF assms e]
    by (cases given) (auto simp: give_back_release)
  with None e that [of c] show thesis by (auto simp: give_back_release)
qed

lemma serve_step_pipe:
  assumes "pipe_rel st p"
  shows "case pipe_step E B A clock p of
      Inl r \<Rightarrow> serve_step E B A clock st = Inl r
    | Inr p' \<Rightarrow> \<exists>st'. serve_step E B A clock st = Inr st' \<and> pipe_rel st' p'"
proof -
  have ready: "rq_ready (ss_queue st) (ss_reader st) (ss_chans st) (pc_conn p)"
    and eqs: "pc_writer p = ss_writer st" "pc_app p = ss_app st" "pc_count p = ss_count st"
    using assms by (simp_all add: pipe_rel_def)
  show ?thesis
  proof (cases "pc_conn p")
    case None
    with ready have "qr_acquire (ss_reader st) (ss_chans st) = Blocked" by (simp add: rq.acquire_waits)
    with None eqs show ?thesis by (simp add: pipe_step_def serve_step_def Let_def)
  next
    case (Some s)
    with ready obtain h c where acq: "qr_acquire (ss_reader st) (ss_chans st) = Done (h, c)"
      "qr_current h = Some s" and held: "rq_held (ss_queue st) h c"
      by (auto dest: rq.acquire_ready)
    obtain r src where pr: "parse_request E s = (r, src)" by (metis surj_pair)
    note cur = qr_current_Some [OF acq(2)]
    show ?thesis
    proof (cases r)
      case (Inl err)
      with Some acq(1) cur pr eqs show ?thesis by (simp add: pipe_step_def serve_step_def Let_def)
    next
      case (Inr req)
      obtain c2 h3 q3 c3 where rel: "give_back h src c = Done c2" "enqueue (ss_queue st) c2 = (h3, q3, c3)"
        "\<And>given. \<exists>c4. give_back h (if src = None then given else None) c3 = Done c4 \<and>
           rq_ready q3 h3 c4 (or_source src given)"
        using release_any [OF held, of src] by metis
      obtain ctl given w' app' where hr:
        "handle_request E B A (clock (ss_count st)) req (ss_writer st) (ss_app st) = (ctl, given, w', app')"
        by (metis prod_cases4)
      from rel(3) [of given] obtain c4 where
        c4: "give_back h (if src = None then given else None) c3 = Done c4"
          "rq_ready q3 h3 c4 (or_source src given)" by blast
      show ?thesis
        using Some acq(1) cur pr Inr eqs rel(1,2) hr c4 leave_loop_ready [OF c4(2), of ctl w' app']
        by (cases ctl) (simp_all add: pipe_step_def serve_step_def Let_def pipe_rel_def)
    qed
  qed
qed

lemma serve_loop_pipe: "pipe_rel st p \<Longrightarrow> serve_loop fuel E B A clock st = pipe_loop fuel E B A clock p"
proof (induction fuel arbitrary: st p)
  case 0
  then show ?case by (simp add: pipe_rel_def)
next
  case (Suc fuel)
  from serve_step_pipe [OF Suc.prems, of E B A clock] Suc.IH show ?case
    by (auto split: sum.splits)
qed

definition pipe_init :: "stream \<Rightarrow> writer \<Rightarrow> 's \<Rightarrow> 's pipe" where
  "pipe_init conn w app = \<lparr>pc_conn = Some conn, pc_writer = w, pc_app = app, pc_count = 0\<rparr>"

lemma serve_init_pipe: "pipe_rel (serve_init conn w app) (pipe_init conn w app)"
  by (simp add: pipe_rel_def serve_init_def pipe_init_def rq_new_def enqueue_def channel_def
      rq_ready_def chan_idle_def)

lemma serve_pipe: "serve fuel E B A clock conn w app = pipe_loop fuel E B A clock (pipe_init conn w app)"
  unfolding serve_def by (rule serve_loop_pipe [OF serve_init_pipe])

end
