(* ===== verification/Server_Live.thy ===== *)
theory Server_Live
  imports Server_Spec Sources
begin

text \<open>
  The connection loop always ends and never panics, for every connection script, every writer
  and every application that answers with bodies of its own or with the one it was given.
\<close>

section \<open>Applications\<close>

text \<open>
  An application cannot make a connection longer: the reader that it drops, or returns inside
  its response, is what it left of the request's body.
\<close>

definition honest :: "('b \<Rightarrow> stream option) \<Rightarrow> ('b, 'h, 's) service \<Rightarrow> bool" where
  "honest owner A \<longleftrightarrow>
     (\<forall>app req r fate app' t.
        sv_call A app req = (r, fate, app') \<longrightarrow> body_owner (rq_body req) = Some t \<longrightarrow>
        (case fate of
           Dropped s \<Rightarrow> stream_size s \<le> stream_size t
         | InResponse \<Rightarrow> (\<forall>res. r = Inr res \<longrightarrow> src_le (owner (rs_body res)) (Some t))
         | Kept \<Rightarrow> True))"

text \<open>To a request whose body has not been consumed yet, its responses carry such bodies, too.\<close>

definition answers_live :: "('b \<Rightarrow> bool) \<Rightarrow> ('b, 'h, 's) service \<Rightarrow> bool" where
  "answers_live live A \<longleftrightarrow>
     (\<forall>app req res fate app'. rq_body req \<noteq> body_default \<longrightarrow>
        sv_call A app req = (Inr res, fate, app') \<longrightarrow> live (rs_body res))"

lemma answers_liveD:
  "answers_live live A \<Longrightarrow> rq_body req \<noteq> body_default \<Longrightarrow> sv_call A app req = (Inr res, fate, app') \<Longrightarrow>
     live (rs_body res)"
  unfolding answers_live_def by blast

section \<open>Termination\<close>

definition conn_size :: "stream option \<Rightarrow> nat" where
  "conn_size c = (case c of None \<Rightarrow> 0 | Some s \<Rightarrow> Suc (stream_size s))"

lemma conn_size_simps [simp]: "conn_size None = 0" "conn_size (Some s) = Suc (stream_size s)"
  by (simp_all add: conn_size_def)

lemma src_le_conn_size: "src_le a b \<Longrightarrow> conn_size a \<le> conn_size b"
  by (auto simp: src_le_def split: option.splits)

lemma prepare_response_body [simp]:
  "rs_body (prepare_response E now ver k res) = rs_body res"
  by (simp add: prepare_response_def Let_def)

context sourced_body
begin

lemma answer_request_src:
  assumes "honest owner A" "body_owner (rq_body req) = Some t"
    and "answer_request E B A now req w app = (ctl, given, w', app')"
  shows "src_le given (Some t)"
proof -
  obtain r fate app1 where call: "sv_call A app req = (r, fate, app1)" by (metis prod_cases3)
  from assms(1) [unfolded honest_def, rule_format, OF call assms(2)]
  have fate: "case fate of Dropped s \<Rightarrow> stream_size s \<le> stream_size t
    | InResponse \<Rightarrow> (\<forall>res. r = Inr res \<longrightarrow> src_le (owner (rs_body res)) (Some t)) | Kept \<Rightarrow> True" .
  show ?thesis
  proof (cases r)
    case (Inl err)
    with assms(3) call fate show ?thesis
      by (auto simp: answer_request_def given_back_def split: body_fate.splits)
  next
    case (Inr res)
    let ?res = "prepare_response E now (rq_version req) (connection_has E ''keep-alive'' (rq_headers req)) res"
    let ?wr = "write_response E B ?res (should_write_body (rq_method req) (rs_status ?res)) w"
    have "given = given_back fate (fst (snd ?wr))"
      using assms(3) call Inr
      by (auto simp: answer_request_def Let_def split: prod.splits res.splits outcome.splits if_splits)
    moreover have "src_le (fst (snd ?wr)) (owner (rs_body res))"
      using write_response_src [of E ?res] by simp
    ultimately show ?thesis
      using fate Inr by (auto simp: given_back_def split: body_fate.splits intro: src_le_trans)
  qed
qed

lemma handle_request_src:
  assumes "honest owner A" "body_owner (rq_body req) = Some t"
    and "handle_request E B A now req w app = (ctl, given, w', app')"
  shows "src_le given (Some t)"
  using assms(3) answer_request_src [OF assms(1,2)] drop_body_source_le [of "rq_body req"] assms(2)
  by (auto simp: handle_request_def split: if_splits prod.splits option.splits)

lemma pipe_step_less:
  assumes "honest owner A" "pipe_step E B A clock p = Inr p'"
  shows "conn_size (pc_conn p') < conn_size (pc_conn p)"
proof -
  from assms(2) obtain s req src ctl given w' app' where
    s: "pc_conn p = Some s" "parse_request E s = (Inr req, src)"
      "handle_request E B A (clock (pc_count p)) req (pc_writer p) (pc_app p) = (ctl, given, w', app')"
      "pc_conn p' = or_source src given"
    by (auto simp: pipe_step_def split: option.splits prod.splits sum.splits if_splits)
  from parse_request_progress [OF s(2)] show ?thesis
    using s handle_request_src [OF assms(1) _ s(3)]
    by (auto split: option.splits dest!: src_le_conn_size)
qed

lemma pipe_leave_ends: "fst (pipe_leave ctl conn w app) \<noteq> OutOfFuel"
  by (auto simp: pipe_leave_def split: control.splits prod.splits res.splits)

lemma pipe_step_ends: "pipe_step E B A clock p = Inl r \<Longrightarrow> fst r \<noteq> OutOfFuel"
  by (auto simp: pipe_step_def pipe_leave_ends split: option.splits prod.splits sum.splits if_splits)

lemma pipe_loop_ends:
  "honest owner A \<Longrightarrow> conn_size (pc_conn p) < fuel \<Longrightarrow> fst (pipe_loop fuel E B A clock p) \<noteq> OutOfFuel"
proof (induction fuel arbitrary: p)
  case (Suc fuel)
  show ?case
  proof (cases "pipe_step E B A clock p")
    case (Inl r)
    with pipe_step_ends [OF Inl] show ?thesis by simp
  next
    case (Inr p')
    with pipe_step_less [OF Suc.prems(1) Inr] Suc show ?thesis by simp
  qed
qed simp

lemma serve_ends:
  "honest owner A \<Longrightarrow> Suc (stream_size conn) < fuel \<Longrightarrow>
     fst (serve fuel E B A clock conn w app) \<noteq> OutOfFuel"
  unfolding serve_pipe by (rule pipe_loop_ends) (simp_all add: pipe_init_def)

end

text \<open>More fuel than enough changes nothing.\<close>

lemma pipe_loop_fuel:
  "fst (pipe_loop fuel E B A clock p) \<noteq> OutOfFuel \<Longrightarrow>
     pipe_loop (fuel + k) E B A clock p = pipe_loop fuel E B A clock p"
  by (induction fuel arbitrary: p) (auto split: sum.splits)

section \<open>No panic\<close>

lemma write_interim_no_crash: "write_interim E status w \<noteq> (Some Crash, w')"
  using live_unit.write_response_not_Panic
    [where res = "interim_response status :: (unit, unit) response" and E = E and wb = True and w = w]
  by (auto simp: write_interim_def flush_not_Panic fst_not_Panic split: prod.splits res.splits)

lemma pipe_leave_no_panic:
  "ctl \<noteq> Crash \<Longrightarrow> ctl \<noteq> Continue \<Longrightarrow> fst (pipe_leave ctl conn w app) \<noteq> Panics"
  by (cases ctl) (auto simp: pipe_leave_def flush_not_Panic split: prod.splits res.splits option.splits)

text \<open>The body of a parsed request has not been consumed.\<close>

lemma request_body_live: "request_body E h s = (Inr b, src) \<Longrightarrow> b \<noteq> body_default"
  by (auto simp: request_body_def body_from_vec_def body_from_reader_def body_empty_def body_default_def
      split: sum.splits option.splits if_splits prod.splits res.splits)

lemma parse_request_live: "parse_request E s = (Inr req, src) \<Longrightarrow> rq_body req \<noteq> body_default"
  by (auto simp: parse_request_def dest: request_body_live split: prod.splits res.splits sum.splits)

context panic_free_body
begin

lemma answer_request_no_crash:
  assumes "answers_live live A" "rq_body req \<noteq> body_default"
  shows "fst (answer_request E B A now req w app) \<noteq> Crash"
proof -
  obtain r fate app1 where call: "sv_call A app req = (r, fate, app1)" by (metis prod_cases3)
  show ?thesis
  proof (cases r)
    case (Inl err)
    with call show ?thesis by (simp add: answer_request_def)
  next
    case (Inr res)
    let ?res = "prepare_response E now (rq_version req) (connection_has E ''keep-alive'' (rq_headers req)) res"
    have "live (rs_body res)"
      by (rule answers_liveD [OF assms call [unfolded Inr]])
    then have "live (rs_body ?res)" by simp
    from write_response_not_Panic [OF this, of E "should_write_body (rq_method req) (rs_status ?res)" w]
    show ?thesis
      using call Inr
      by (auto simp: answer_request_def Let_def flush_not_Panic split: prod.splits res.splits outcome.splits)
  qed
qed

lemma handle_request_no_crash:
  assumes "answers_live live A" "rq_body req \<noteq> body_default"
  shows "fst (handle_request E B A now req w app) \<noteq> Crash"
  using answer_request_no_crash [OF assms]
  by (auto simp: handle_request_def write_interim_no_crash split: prod.splits option.splits)

lemma pipe_step_no_panic:
  assumes "answers_live live A" "pipe_step E B A clock p = Inl r"
  shows "fst r \<noteq> Panics"
proof (cases "\<exists>s req src. pc_conn p = Some s \<and> parse_request E s = (Inr req, src)")
  case False
  with assms(2) show ?thesis
    by (auto simp: pipe_step_def split: option.splits prod.splits sum.splits)
next
  case True
  then obtain s req src where s: "pc_conn p = Some s" "parse_request E s = (Inr req, src)" by blast
  obtain ctl given w' app' where hr:
    "handle_request E B A (clock (pc_count p)) req (pc_writer p) (pc_app p) = (ctl, given, w', app')"
    by (metis prod_cases4)
  with handle_request_no_crash [OF assms(1) parse_request_live [OF s(2)], of E "clock (pc_count p)" "pc_writer p" "pc_app p"]
  have "ctl \<noteq> Crash" by simp
  with assms(2) s hr show ?thesis
    by (auto simp: pipe_step_def pipe_leave_no_panic split: if_splits)
qed

lemma pipe_loop_no_panic: "answers_live live A \<Longrightarrow> fst (pipe_loop fuel E B A clock p) \<noteq> Panics"
  by (induction fuel arbitrary: p) (auto split: sum.splits dest: pipe_step_no_panic)

lemma serve_no_panic: "answers_live live A \<Longrightarrow> fst (serve fuel E B A clock conn w app) \<noteq> Panics"
  unfolding serve_pipe by (rule pipe_loop_no_panic)

end

end
