(* ===== verification/Server_Pipeline.thy ===== *)
theory Server_Pipeline
  imports Server_Live
begin

text \<open>
  What the connection loop computes on a healthy connection: pipelined requests are answered one
  by one and in order, each with exactly its response, independently of how the network cuts
  the requests; and when the connection is kept, closed or handed over.
\<close>

section \<open>Requests that are read at once\<close>

text \<open>A request whose body does not own the connection: none, or less than 1024 bytes.\<close>

fun unstreamed_body :: "body \<Rightarrow> bool" where
  "unstreamed_body (Body (Some Empty)) \<longleftrightarrow> True"
| "unstreamed_body (Body (Some (Buffered bs))) \<longleftrightarrow> True"
| "unstreamed_body b \<longleftrightarrow> False"

lemma abs_body_inj: "unstreamed_body a \<Longrightarrow> unstreamed_body b \<Longrightarrow> abs_body a = abs_body b \<Longrightarrow> a = b"
  by (induction a rule: unstreamed_body.induct; induction b rule: unstreamed_body.induct) auto

lemma abs_request_inj:
  "unstreamed_body (rq_body r) \<Longrightarrow> unstreamed_body (rq_body q) \<Longrightarrow> abs_request r = abs_request q \<Longrightarrow> r = q"
  by (cases r; cases q) (auto simp: abs_request_def intro: abs_body_inj)

lemma parse_request_unstreamed:
  "parse_request E s = (Inr req, Some s') \<Longrightarrow> unstreamed_body (rq_body req)"
  by (auto simp: parse_request_def request_body_def body_from_vec_def body_from_reader_def body_empty_def
      split: prod.splits res.splits sum.splits option.splits if_splits)

text \<open>\<open>msg\<close> is a complete request on the wire, and parses as \<open>req\<close>.\<close>

definition carries :: "crates \<Rightarrow> bytes \<Rightarrow> body request \<Rightarrow> bool" where
  "carries E msg req \<longleftrightarrow>
     unstreamed_body (rq_body req) \<and>
     (\<forall>rest. parse_request_bytes E (msg @ rest) = (Inr (abs_request req), Some rest))"

lemma abs_parsed_eqD:
  assumes "quiet s" "parse_request_bytes E (bytes_of s) = (r, x)"
  shows "map_sum id abs_request (fst (parse_request E s)) = r"
    "map_option bytes_of (snd (parse_request E s)) = x"
  using parse_request_abs [OF assms(1), of E] assms(2)
  by (auto simp: abs_parsed_def split: prod.splits)

lemma read_head_stays_quiet: "quiet s \<Longrightarrow> read_head b s = (r, s') \<Longrightarrow> quiet s'"
  using read_head_quiet [of s b] by auto

lemma request_body_quiet: "quiet s \<Longrightarrow> request_body E h s = (r, Some s') \<Longrightarrow> quiet s'"
  by (auto simp: request_body_def read_exact_quiet split: sum.splits option.splits if_splits)

lemma parse_request_quiet:
  assumes "quiet s" "parse_request E s = (r, Some s')"
  shows "quiet s'"
proof -
  obtain x s1 where h: "read_head [] s = (x, s1)" by (metis surj_pair)
  with assms(1) have "quiet s1" by (rule read_head_stays_quiet)
  with assms(2) h show ?thesis
    by (auto simp: parse_request_def split: res.splits sum.splits prod.splits dest: request_body_quiet)
qed

lemma carries_parse:
  assumes "carries E msg req" "quiet s" "bytes_of s = msg @ rest"
  obtains s' where "parse_request E s = (Inr req, Some s')" "quiet s'" "bytes_of s' = rest"
proof -
  from assms have "parse_request_bytes E (bytes_of s) = (Inr (abs_request req), Some rest)"
    by (simp add: carries_def)
  note abs = abs_parsed_eqD [OF assms(2) this]
  obtain r src where p: "parse_request E s = (r, src)" by (metis surj_pair)
  with abs obtain req' s' where r: "r = Inr req'" "abs_request req' = abs_request req"
    "src = Some s'" "bytes_of s' = rest" by (cases r) auto
  with p have "unstreamed_body (rq_body req')" by (simp add: parse_request_unstreamed)
  with r assms(1) have "req' = req" by (auto simp: carries_def intro: abs_request_inj)
  with p r assms(2) that show thesis by (auto dest: parse_request_quiet)
qed

section \<open>One after the other\<close>

text \<open>
  The reference: answering a list of requests in order, until one of them ends the connection;
  \<open>fin\<close> is how it ends behind the last one.
\<close>

fun answer_all ::
  "crates \<Rightarrow> 'b http_body \<Rightarrow> ('b, 'h, 's) service \<Rightarrow> (nat \<Rightarrow> bytes) \<Rightarrow> nat \<Rightarrow> unit res \<Rightarrow>
     body request list \<Rightarrow> writer \<Rightarrow> 's \<Rightarrow> 'h serve_end \<times> writer \<times> 's" where
  "answer_all E B A clock n fin [] w app = (Returned fin, drop_writer w, app)"
| "answer_all E B A clock n fin (req # reqs) w app =
     (case handle_request E B A (clock n) req w app of
        (ctl, given, w', app') \<Rightarrow>
          if ctl = Continue then answer_all E B A clock (Suc n) fin reqs w' app'
          else pipe_leave ctl (Some []) w' app')"

text \<open>Where the reader stood when it was dropped for an upgrade depends on the segmentation.\<close>

fun forget_position :: "'h serve_end \<Rightarrow> 'h serve_end" where
  "forget_position (Upgraded h s) = Upgraded h []"
| "forget_position e = e"

abbreviation forgetting :: "'h serve_end \<times> writer \<times> 's \<Rightarrow> 'h serve_end \<times> writer \<times> 's" where
  "forgetting r \<equiv> apfst forget_position r"

lemma forgetting_Returned: "forgetting r = (Returned x, p) \<longleftrightarrow> r = (Returned x, p)"
  by (cases r; cases "fst r") auto

lemma pipe_leave_Some:
  "forgetting (pipe_leave ctl (Some s) w app) = pipe_leave ctl (Some []) w app"
  by (cases ctl) (simp_all add: pipe_leave_def split: prod.split res.split)

lemma pipe_loop_answer_all:
  assumes "quiet tail" "parse_request_bytes E (bytes_of tail) = (Inl err, x)"
  shows "list_all2 (carries E) ms reqs \<Longrightarrow> pc_conn p = Some s \<Longrightarrow> quiet s \<Longrightarrow>
    bytes_of s = concat ms @ bytes_of tail \<Longrightarrow> length reqs < fuel \<Longrightarrow>
    forgetting (pipe_loop fuel E B A clock p) =
      answer_all E B A clock (pc_count p) (parse_failure err) reqs (pc_writer p) (pc_app p)"
proof (induction ms reqs arbitrary: p s fuel rule: list_all2_induct)
  case Nil
  then obtain k where k: "fuel = Suc k" by (cases fuel) auto
  have "map_sum id abs_request (fst (parse_request E s)) = Inl err"
    using abs_parsed_eqD(1) [OF Nil(2)] assms(2) Nil(3) by simp
  then obtain src where "parse_request E s = (Inl err, src)"
    by (cases "parse_request E s"; cases "fst (parse_request E s)") auto
  with Nil k show ?case by (simp add: pipe_step_def)
next
  case (Cons msg ms req reqs)
  from Cons.prems obtain k where k: "fuel = Suc k" "length reqs < k" by (cases fuel) auto
  from carries_parse [OF Cons.hyps(1) Cons.prems(2), of "concat ms @ bytes_of tail"] Cons.prems(3)
  obtain s' where s': "parse_request E s = (Inr req, Some s')" "quiet s'"
    "bytes_of s' = concat ms @ bytes_of tail" by auto
  obtain ctl given w' app' where hr:
    "handle_request E B A (clock (pc_count p)) req (pc_writer p) (pc_app p) = (ctl, given, w', app')"
    by (metis prod_cases4)
  show ?case
  proof (cases "ctl = Continue")
    case True
    let ?p = "\<lparr>pc_conn = Some s', pc_writer = w', pc_app = app', pc_count = Suc (pc_count p)\<rparr>"
    have "pipe_step E B A clock p = Inr ?p"
      using Cons.prems(1) s'(1) hr True by (simp add: pipe_step_def)
    with Cons.IH [of ?p s' k] s'(2,3) k hr True show ?thesis by simp
  next
    case False
    with Cons.prems(1) s'(1) hr k pipe_leave_Some [of ctl s' w' app'] show ?thesis
      by (simp add: pipe_step_def)
  qed
qed

lemma serve_answer_all:
  assumes "list_all2 (carries E) ms reqs" "quiet conn" "bytes_of conn = concat ms @ tail"
    and "parse_request_bytes E tail = (Inl err, x)" "length reqs < fuel"
  shows "forgetting (serve fuel E B A clock conn w app) =
    answer_all E B A clock 0 (parse_failure err) reqs w app"
proof -
  define t where "t = (if tail = [] then [] else [Avail tail])"
  have t: "quiet t" "bytes_of t = tail" by (auto simp: t_def)
  show ?thesis
    using pipe_loop_answer_all [OF t(1) _ assms(1), of err x "pipe_init conn w app" conn fuel B A clock]
      assms t(2)
    by (simp add: serve_pipe pipe_init_def)
qed

lemma parse_request_bytes_Nil: "parse_request_bytes E [] = (Inl ConnectionClosed, Some [])"
  by (simp add: parse_request_bytes_def request_head_def)

section \<open>One answer\<close>

text \<open>What the loop does after the response of a request has been written.\<close>

definition next_control :: "crates \<Rightarrow> 'b request \<Rightarrow> 'h outcome \<Rightarrow> 'h control" where
  "next_control E req out =
     (case out of
        KeepAlive \<Rightarrow> if demands_close E (rq_version req) (rq_headers req) then Break else Continue
      | Close \<Rightarrow> Break
      | Upgrade h \<Rightarrow> HandOver h)"

lemma answer_request_keeps:
  assumes "answer_request E B A now req w app = (Continue, given, w', app')"
  shows "\<not> demands_close E (rq_version req) (rq_headers req) \<and> w_flushed w' = length (w_out w')"
  using assms
  by (auto simp: answer_request_def Let_def flush_def
      split: prod.splits sum.splits res.splits outcome.splits if_splits)

context chunked_body_contract
begin

lemma answer_request_healthy:
  fixes A :: "('a, 'h, 's) service" and req :: "body request" and now :: bytes
  defines "res \<equiv> \<lambda>res0. prepare_response E now (rq_version req)
    (connection_has E ''keep-alive'' (rq_headers req)) res0"
  assumes "sv_call A app req = (Inr res0, fate, app')"
    and plan: "response_plan E (hb_len B (rs_body res0)) (res res0) = Ok (enc, h)"
    and good: "good (rs_body res0)" and w: "w_cap w = None"
  shows "\<exists>given w'. answer_request E B A now req w app =
      (next_control E req (response_outcome E (rs_upgrade res0) enc h), given, w', app') \<and>
    w_out w' = w_out w @ response_text E (res res0) h @
      (if should_write_body (rq_method req) (rs_status res0) then body_wire E B content enc (rs_body res0)
       else []) \<and> w_cap w' = None"
proof -
  let ?r = "res res0"
  have same: "rs_body ?r = rs_body res0" "rs_status ?r = rs_status res0" "rs_upgrade ?r = rs_upgrade res0"
    by (simp_all add: res_def prepare_response_def Let_def)
  have plan': "response_plan E (hb_len B (rs_body ?r)) ?r = Ok (enc, h)" and good': "good (rs_body ?r)"
    using plan good by (simp_all add: same)
  have "\<exists>src w'. write_response E B ?r (should_write_body (rq_method req) (rs_status ?r)) w =
      (Ok (response_outcome E (rs_upgrade res0) enc h), src, w') \<and>
    w_out w' = w_out w @ response_text E ?r h @
      (if should_write_body (rq_method req) (rs_status res0) then body_wire E B content enc (rs_body res0)
       else []) \<and> w_cap w' = None"
    using write_response_wire [OF plan' w good'] write_response_head [OF plan' w] w
    by (cases "should_write_body (rq_method req) (rs_status res0)") (auto simp: same)
  then obtain src w' where wr:
    "write_response E B ?r (should_write_body (rq_method req) (rs_status ?r)) w =
      (Ok (response_outcome E (rs_upgrade res0) enc h), src, w')"
    "w_out w' = w_out w @ response_text E ?r h @
      (if should_write_body (rq_method req) (rs_status res0) then body_wire E B content enc (rs_body res0)
       else [])" "w_cap w' = None" by blast
  show ?thesis
    using assms(2) wr
    by (auto simp: answer_request_def Let_def res_def next_control_def split: outcome.split)
qed

end

section \<open>Expectations\<close>

text \<open>The interim response of a healthy connection: written and flushed before the application.\<close>

definition interim_text :: "crates \<Rightarrow> status_code \<Rightarrow> bytes" where
  "interim_text E status = status_line E HTTP_11 status
     @ concat (map header_line (c_insert_content_length E 0 [])) @ crlf"

lemma interim_plan:
  "empty_headers_law E \<Longrightarrow>
     response_plan E (Some 0) (interim_response status) = Ok (FixedLength 0, c_insert_content_length E 0 [])"
  by (simp add: response_plan_def response_encoding_def interim_response_def Let_def empty_headers_law_def
      has_chunked_def get_content_length_def response_headers_def)

lemma write_interim_healthy:
  assumes "empty_headers_law E" "w_cap w = None"
  shows "write_interim E status w =
    (None, w\<lparr>w_out := w_out w @ interim_text E status,
       w_flushed := length (w_out w @ interim_text E status)\<rparr>)"
proof -
  have "hb_len unit_impl (rs_body (interim_response status :: (unit, unit) response)) = Some 0"
    by (simp add: unit_impl_def)
  with interim_plan [OF assms(1), of status]
  have plan: "response_plan E (hb_len unit_impl (rs_body (interim_response status :: (unit, unit) response)))
    (interim_response status :: (unit, unit) response) = Ok (FixedLength 0, c_insert_content_length E 0 [])"
    by simp
  show ?thesis
    using write_response_body [OF plan assms(2)] assms(2)
    by (simp add: write_interim_def write_body_def unit_impl_def interim_text_def response_text_def
        interim_response_def)
qed

lemma handle_request_refused:
  assumes "empty_headers_law E" "w_cap w = None" "expects_continue E (rq_headers req)"
    and "sv_should_continue A app req = (status, app')" "status \<noteq> CONTINUE"
  shows "handle_request E B A now req w app =
    (Continue, drop_body (rq_body req),
     w\<lparr>w_out := w_out w @ interim_text E status,
       w_flushed := length (w_out w @ interim_text E status)\<rparr>, app')"
  using assms by (simp add: handle_request_def write_interim_healthy)

lemma handle_request_continued:
  assumes "empty_headers_law E" "w_cap w = None" "expects_continue E (rq_headers req)"
    and "sv_should_continue A app req = (CONTINUE, app')"
  shows "handle_request E B A now req w app =
    answer_request E B A now req
      (w\<lparr>w_out := w_out w @ interim_text E CONTINUE,
         w_flushed := length (w_out w @ interim_text E CONTINUE)\<rparr>) app'"
  using assms by (simp add: handle_request_def write_interim_healthy)

lemma handle_request_plain:
  "\<not> expects_continue E (rq_headers req) \<Longrightarrow>
     handle_request E B A now req w app = answer_request E B A now req w app"
  by (simp add: handle_request_def)

end
