(* ===== verification/Reader_Returned.thy ===== *)
theory Reader_Returned
  imports Server_Live
begin

text \<open>
  The connection's reader is never lost: whatever is done with a body that owns it, the reader comes
  back, so the next turn of the connection loop, and its end, have it.
\<close>

section \<open>Owning a source\<close>

text \<open>Both own a source, or neither does.\<close>

definition owns_alike :: "stream option \<Rightarrow> stream option \<Rightarrow> bool" where
  "owns_alike a b \<longleftrightarrow> (a = None \<longleftrightarrow> b = None)"

lemma owns_alike_simps [simp]:
  "owns_alike a a"
  "owns_alike None b \<longleftrightarrow> b = None"
  "owns_alike a None \<longleftrightarrow> a = None"
  "owns_alike (Some s) b \<longleftrightarrow> b \<noteq> None"
  by (auto simp: owns_alike_def)

lemma owns_alike_trans: "owns_alike a b \<Longrightarrow> owns_alike b c \<Longrightarrow> owns_alike a c"
  by (auto simp: owns_alike_def)

lemma or_source_None [simp]: "or_source a b = None \<longleftrightarrow> a = None \<and> b = None"
  by (cases a) auto

section \<open>Iterators and readers\<close>

lemma iter_source_alike: "owns_alike (iter_source (snd (iter_next E it))) (iter_source it)"
  by (induction E it rule: iter_next.induct) (auto split: prod.splits option.splits)

lemma data_source_alike: "owns_alike (iter_source (snd (data_next E it))) (iter_source it)"
proof (induction E it rule: data_next.induct)
  case (1 E it)
  then show ?case
    using iter_source_alike [of E it]
    by (subst data_next.simps) (auto split: prod.splits option.splits intro: owns_alike_trans)
qed

lemma collect_source_alike: "owns_alike (iter_source (snd (collect_data E it))) (iter_source it)"
proof (induction E it rule: collect_data.induct)
  case (1 E it)
  then show ?case
    using data_source_alike [of E it]
    by (subst collect_data.simps, auto split: prod.splits option.splits sum.splits res.splits)
      (blast intro: owns_alike_trans)+
qed

lemma iter_read_alike: "owns_alike (iter_source (fst (snd (iter_read E n it l)))) (iter_source it)"
proof (induction E n it l rule: iter_read.induct)
  case (2 E n it c)
  then show ?case
    using data_source_alike [of E it]
    by (subst iter_read.simps, auto split: prod.splits option.splits sum.splits)
      (blast intro: owns_alike_trans)+
qed simp

lemma body_read_alike: "owns_alike (reader_source (snd (body_read E n r))) (reader_source r)"
proof (induction E n r rule: body_read.induct)
  case (4 E n it l)
  then show ?case using iter_read_alike [of E n it l] by (cases "iter_read E n it l") auto
qed (auto split: prod.splits)

lemma io_copy_alike: "owns_alike (reader_source (fst (snd (io_copy E r w)))) (reader_source r)"
proof (induction E r w rule: io_copy.induct)
  case (1 E r w)
  then show ?case
    using body_read_alike [of E CHUNK_BUF r]
    by (subst io_copy.simps, auto split: prod.splits res.splits)
      (blast intro: owns_alike_trans)+
qed

lemma chunk_source_alike:
  "chunk_next E it = (x, it', src) \<Longrightarrow> owns_alike (or_source src (chunk_source it')) (chunk_source it)"
proof (induction E it rule: chunk_next.induct)
  case (3 E it)
  then show ?case
    using iter_source_alike [of E it] by (auto simp: owns_alike_def split: prod.splits option.splits sum.splits)
qed (auto split: prod.splits res.splits option.splits if_splits)

lemma owns_alike_or:
  "owns_alike b b' \<Longrightarrow> owns_alike (or_source a b') c \<Longrightarrow> owns_alike (or_source a b) c"
  by (auto simp: owns_alike_def)

lemma write_chunks_alike: "owns_alike (fst (snd (write_chunks E it t w))) (chunk_source it)"
proof (induction E it t w rule: write_chunks.induct)
  case (1 E it t w)
  obtain x it' src where n: "chunk_next E it = (x, it', src)" by (metis prod_cases3)
  note alike = chunk_source_alike [OF n]
  show ?case
  proof (cases "\<exists>c w'. x = Some (Inr (Data c)) \<and> write_chunk c w = (Ok (), w')")
    case True
    then obtain c w' where x: "x = Some (Inr (Data c))" "write_chunk c w = (Ok (), w')" by blast
    from "1.IH"(1) [OF n [symmetric] x(1) refl refl refl x(2) [symmetric] refl]
    show ?thesis using n x alike
      by (subst write_chunks.simps) (auto split: prod.splits intro: owns_alike_or)
  next
    case False
    show ?thesis
    proof (cases "\<exists>te. x = Some (Inr (Trailers te))")
      case True
      then obtain te where x: "x = Some (Inr (Trailers te))" by blast
      from "1.IH"(2) [OF n [symmetric] x refl refl refl]
      show ?thesis using n x alike
        by (subst write_chunks.simps) (auto split: prod.splits intro: owns_alike_or)
    next
      case no: False
      with False n alike show ?thesis
        by (subst write_chunks.simps) (auto split: option.splits sum.splits chunk.splits prod.splits res.splits)
    qed
  qed
qed

section \<open>Body types\<close>

text \<open>
  \<open>owner\<close> is the source that a body owns; a body that owns one can be read and comes back with it.
\<close>

locale returning_body =
  fixes B :: "'b http_body" and owner :: "'b \<Rightarrow> stream option"
  assumes bytes_alike: "owns_alike (snd (hb_into_bytes B b)) (owner b)"
    and drop_alike: "owns_alike (hb_drop B b) (owner b)"
    and reader_alike: "hb_into_reader B b = Ok r \<Longrightarrow> owns_alike (reader_source r) (owner b)"
    and chunks_alike: "hb_into_chunks B b = Ok it \<Longrightarrow> owns_alike (chunk_source it) (owner b)"
    and not_Ok: "\<not> is_ok (hb_into_reader B b) \<or> \<not> is_ok (hb_into_chunks B b) \<Longrightarrow> owner b = None"
begin

lemma copy_body_alike: "owns_alike (fst (snd (copy_body E B b w))) (owner b)"
proof (cases "hb_into_reader B b")
  case (Ok r)
  with owns_alike_trans [OF io_copy_alike reader_alike [OF Ok]] show ?thesis
    by (simp add: copy_body_def split: prod.split) (metis fst_conv snd_conv)
qed (use not_Ok [of b] in \<open>auto simp: copy_body_def\<close>)

lemma chunked_body_alike:
  "hb_into_chunks B b = Ok it \<Longrightarrow> owns_alike (fst (snd (write_chunked_body E it w))) (owner b)"
  using owns_alike_trans [OF write_chunks_alike [of E it "[]" w] chunks_alike]
  by (auto simp: write_chunked_body_def split: prod.splits res.splits)

lemma write_body_alike: "owns_alike (fst (snd (write_body E B enc b w))) (owner b)"
proof (cases enc)
  case (FixedLength n)
  then show ?thesis
    using bytes_alike [of b] copy_body_alike
    by (auto simp: write_body_def split: prod.splits res.splits)
next
  case Chunked
  then show ?thesis
    using chunked_body_alike [of b] not_Ok [of b]
    by (cases "hb_into_chunks B b") (auto simp: write_body_def)
next
  case CloseDelimited
  then show ?thesis using copy_body_alike by (simp add: write_body_def)
qed

lemma write_response_alike: "owns_alike (fst (snd (write_response E B res wb w))) (owner (rs_body res))"
  using write_body_alike [of E _ "rs_body res"] drop_alike [of "rs_body res"]
  by (auto simp: write_response_def Let_def split: prod.splits res.splits)
    (metis fst_conv snd_conv)+

end

lemma drop_body_alike: "owns_alike (drop_body b) (body_owner b)"
  by (induction b rule: drop_body.induct) auto

lemma into_bytes_alike: "owns_alike (snd (into_bytes E b)) (body_owner b)"
proof (induction E b rule: into_bytes.induct)
  case (4 E it)
  then show ?case using collect_source_alike [of E it] by (auto split: prod.splits res.splits)
qed (auto split: prod.splits)

lemma into_reader_alike: "into_reader E b = Ok r \<Longrightarrow> owns_alike (reader_source r) (body_owner b)"
proof (induction E b rule: into_reader.induct)
  case (4 E it)
  then show ?case using data_source_alike [of E it] by (auto split: prod.splits option.splits sum.splits)
qed auto

lemma into_reader_is_ok: "b \<noteq> body_default \<Longrightarrow> is_ok (into_reader E b) \<and> is_ok (into_chunks b)"
  by (induction E b rule: into_reader.induct)
    (auto simp: body_default_def split: prod.splits option.splits sum.splits)

interpretation body_returning: returning_body "body_impl E" body_owner for E
proof
  fix b
  show "\<not> is_ok (hb_into_reader (body_impl E) b) \<or> \<not> is_ok (hb_into_chunks (body_impl E) b) \<Longrightarrow> body_owner b = None"
    using into_reader_is_ok [of b E] by (cases "b = body_default") (auto simp: body_impl_def body_default_def)
  show "hb_into_chunks (body_impl E) b = Ok it \<Longrightarrow> owns_alike (chunk_source it) (body_owner b)" for it
    by (cases b rule: into_chunks.cases) (auto simp: body_impl_def)
qed (simp_all add: body_impl_def drop_body_alike into_bytes_alike into_reader_alike)

section \<open>The connection loop\<close>

text \<open>An application that drops a body which owns the reader, or returns it in its response.\<close>

definition releases :: "('b \<Rightarrow> stream option) \<Rightarrow> ('b, 'h, 's) service \<Rightarrow> bool" where
  "releases owner A \<longleftrightarrow>
     (\<forall>app req r fate app'. body_owner (rq_body req) \<noteq> None \<longrightarrow> sv_call A app req = (r, fate, app') \<longrightarrow>
        (case fate of
           Dropped s \<Rightarrow> True
         | InResponse \<Rightarrow> (\<exists>res. r = Inr res \<and> owner (rs_body res) \<noteq> None)
         | Kept \<Rightarrow> False))"

lemma releasesD:
  "releases owner A \<Longrightarrow> body_owner (rq_body req) \<noteq> None \<Longrightarrow> sv_call A app req = (r, fate, app') \<Longrightarrow>
     fate \<noteq> Kept \<and> (fate = InResponse \<longrightarrow> (\<exists>res. r = Inr res \<and> owner (rs_body res) \<noteq> None))"
  unfolding releases_def by (cases fate) fastforce+

context returning_body
begin

lemma answer_request_returned:
  assumes "releases owner A" "body_owner (rq_body req) \<noteq> None"
    and "answer_request E B A now req w app = (ctl, given, w', app')"
  shows "given \<noteq> None"
proof -
  obtain r fate app1 where call: "sv_call A app req = (r, fate, app1)" by (metis prod_cases3)
  note rel = releasesD [OF assms(1,2) call]
  show ?thesis
  proof (cases r)
    case (Inl err)
    with assms(3) call rel show ?thesis
      by (auto simp: answer_request_def given_back_def split: body_fate.splits)
  next
    case (Inr res)
    let ?res = "prepare_response E now (rq_version req) (connection_has E ''keep-alive'' (rq_headers req)) res"
    let ?wr = "write_response E B ?res (should_write_body (rq_method req) (rs_status ?res)) w"
    have "given = given_back fate (fst (snd ?wr))"
      using assms(3) call Inr
      by (auto simp: answer_request_def Let_def split: prod.splits res.splits outcome.splits if_splits)
    moreover have "owns_alike (fst (snd ?wr)) (owner (rs_body res))"
      using write_response_alike [of E ?res] by simp
    ultimately show ?thesis
      using rel Inr by (auto simp: given_back_def owns_alike_def split: body_fate.splits)
  qed
qed

lemma handle_request_returned:
  assumes "releases owner A" "body_owner (rq_body req) \<noteq> None"
    and "handle_request E B A now req w app = (ctl, given, w', app')"
  shows "given \<noteq> None"
proof -
  obtain t where t: "drop_body (rq_body req) = Some t"
    using drop_body_alike [of "rq_body req"] assms(2) by (auto simp: owns_alike_def)
  from assms(3) [unfolded handle_request_def t] answer_request_returned [OF assms(1,2)] show ?thesis
    by (auto split: if_splits prod.splits option.splits)
qed

lemma pipe_leave_returned: "fst (pipe_leave ctl (Some s) w app) \<noteq> WaitsForever"
  by (auto simp: pipe_leave_def split: control.splits prod.splits res.splits)

lemma pipe_step_returned:
  assumes "releases owner A" "pc_conn p \<noteq> None"
  shows "case pipe_step E B A clock p of Inl r \<Rightarrow> fst r \<noteq> WaitsForever | Inr p' \<Rightarrow> pc_conn p' \<noteq> None"
proof -
  obtain s where s: "pc_conn p = Some s" using assms(2) by blast
  obtain r src where pr: "parse_request E s = (r, src)" by (metis surj_pair)
  show ?thesis
  proof (cases r)
    case (Inl err)
    with s pr show ?thesis by (simp add: pipe_step_def)
  next
    case (Inr req)
    obtain ctl given w' app' where hr:
      "handle_request E B A (clock (pc_count p)) req (pc_writer p) (pc_app p) = (ctl, given, w', app')"
      by (metis prod_cases4)
    have "or_source src given \<noteq> None"
      using parse_request_progress [OF pr [unfolded Inr]] handle_request_returned [OF assms(1) _ hr]
      by (cases src) auto
    then obtain t where "or_source src given = Some t" by blast
    with s pr Inr hr show ?thesis by (simp add: pipe_step_def pipe_leave_returned)
  qed
qed

lemma pipe_loop_returned:
  "releases owner A \<Longrightarrow> pc_conn p \<noteq> None \<Longrightarrow> fst (pipe_loop fuel E B A clock p) \<noteq> WaitsForever"
proof (induction fuel arbitrary: p)
  case (Suc fuel)
  with pipe_step_returned [OF Suc.prems, of E clock] show ?case by (auto split: sum.splits)
qed simp

lemma serve_returned: "releases owner A \<Longrightarrow> fst (serve fuel E B A clock conn w app) \<noteq> WaitsForever"
  unfolding serve_pipe by (rule pipe_loop_returned) (simp_all add: pipe_init_def)

end

end
