(* ===== verification/Connection.thy ===== *)
theory Connection
  imports Io_Streams "HOL-Library.Sublist"
begin

text \<open>
  \<^verbatim>\<open>src/connection.rs\<close> and \<^verbatim>\<open>src/tls.rs\<close>: the three kinds of streams behind one type.  The sockets
  are those of the operating system: their options, what they deliver and what they have
  accepted.  The TLS stream is a third-party type \<open>'tls\<close> that is used through a record of operations;
  \<^verbatim>\<open>Arc<Mutex<_>>\<close> around it is a reference count and a poison flag.
\<close>

section \<open>Sockets\<close>

type_synonym sock_addr = string

record tcp_stream =
  tcp_peer :: "sock_addr res"
  tcp_local :: "sock_addr res"
  tcp_timeout :: "nat option"
  tcp_nodelay :: bool
  tcp_fault :: "io_error option"
  tcp_in :: stream
  tcp_out :: writer

record unix_stream =
  ux_timeout :: "nat option"
  ux_fault :: "io_error option"
  ux_in :: stream
  ux_out :: writer

text \<open>
  \<^verbatim>\<open>set_read_timeout\<close> of the standard library refuses a zero duration; any option call may fail,
  which the socket says in its \<open>fault\<close>.
\<close>

definition tcp_set_read_timeout :: "nat option \<Rightarrow> tcp_stream \<Rightarrow> unit res \<times> tcp_stream" where
  "tcp_set_read_timeout t s =
     (if t = Some 0 then (Err (OsError 22), s)
      else case tcp_fault s of Some e \<Rightarrow> (Err e, s) | None \<Rightarrow> (Ok (), s\<lparr>tcp_timeout := t\<rparr>))"

definition tcp_set_nodelay :: "bool \<Rightarrow> tcp_stream \<Rightarrow> unit res \<times> tcp_stream" where
  "tcp_set_nodelay b s =
     (case tcp_fault s of Some e \<Rightarrow> (Err e, s) | None \<Rightarrow> (Ok (), s\<lparr>tcp_nodelay := b\<rparr>))"

definition unix_set_read_timeout :: "nat option \<Rightarrow> unix_stream \<Rightarrow> unit res \<times> unix_stream" where
  "unix_set_read_timeout t s =
     (if t = Some 0 then (Err (OsError 22), s)
      else case ux_fault s of Some e \<Rightarrow> (Err e, s) | None \<Rightarrow> (Ok (), s\<lparr>ux_timeout := t\<rparr>))"

text \<open>\<^verbatim>\<open>Write::write\<close>: accepts what the peer still takes and says how much.\<close>

definition write_some :: "bytes \<Rightarrow> writer \<Rightarrow> nat res \<times> writer" where
  "write_some bs w =
     (case w_cap w of
        None \<Rightarrow> (Ok (length bs), w\<lparr>w_out := w_out w @ bs\<rparr>)
      | Some k \<Rightarrow>
          if k = 0 \<and> bs \<noteq> [] then (Err BrokenPipe, w)
          else (Ok (min k (length bs)),
                w\<lparr>w_out := w_out w @ take k bs, w_cap := Some (k - min k (length bs))\<rparr>))"

section \<open>TLS connections\<close>

text \<open>
  Like a socket, a TLS stream is seen through what its reads will deliver and what it has accepted
  (both decrypted), and through the socket under it.
\<close>

record 'tls tls_ops =
  to_sock :: "'tls \<Rightarrow> tcp_stream"
  to_set_sock :: "tcp_stream \<Rightarrow> 'tls \<Rightarrow> 'tls"
  to_in :: "'tls \<Rightarrow> stream"
  to_set_in :: "stream \<Rightarrow> 'tls \<Rightarrow> 'tls"
  to_out :: "'tls \<Rightarrow> writer"
  to_set_out :: "writer \<Rightarrow> 'tls \<Rightarrow> 'tls"

text \<open>The three views are independent fields of the stream.\<close>

definition tls_law :: "'tls tls_ops \<Rightarrow> bool" where
  "tls_law T \<longleftrightarrow>
     (\<forall>t s. to_sock T (to_set_sock T s t) = s \<and> to_in T (to_set_sock T s t) = to_in T t \<and>
        to_out T (to_set_sock T s t) = to_out T t) \<and>
     (\<forall>t. to_set_sock T (to_sock T t) t = t) \<and>
     (\<forall>t i. to_in T (to_set_in T i t) = i \<and> to_sock T (to_set_in T i t) = to_sock T t \<and>
        to_out T (to_set_in T i t) = to_out T t) \<and>
     (\<forall>t w. to_out T (to_set_out T w t) = w \<and> to_sock T (to_set_out T w t) = to_sock T t \<and>
        to_in T (to_set_out T w t) = to_in T t)"

record 'tls rustls_connection =
  rc_stream :: 'tls
  rc_poisoned :: bool
  rc_refs :: nat

definition lock_failed :: io_error where
  "lock_failed = Other ''Failed to aquire lock''"

text \<open>\<^verbatim>\<open>self.0.lock().unwrap()\<close> and \<^verbatim>\<open>self.0.lock().map_err(..)?\<close>, with an operation on the stream.\<close>

definition with_lock_unwrap ::
  "('tls \<Rightarrow> 'a res \<times> 'tls) \<Rightarrow> 'tls rustls_connection \<Rightarrow> 'a res \<times> 'tls rustls_connection" where
  "with_lock_unwrap f c =
     (if rc_poisoned c then (Panic, c)
      else case f (rc_stream c) of (r, t) \<Rightarrow> (r, c\<lparr>rc_stream := t\<rparr>))"

definition with_lock ::
  "('tls \<Rightarrow> 'a res \<times> 'tls) \<Rightarrow> 'tls rustls_connection \<Rightarrow> 'a res \<times> 'tls rustls_connection" where
  "with_lock f c =
     (if rc_poisoned c then (Err lock_failed, c)
      else case f (rc_stream c) of (r, t) \<Rightarrow> (r, c\<lparr>rc_stream := t\<rparr>))"

definition on_sock ::
  "'tls tls_ops \<Rightarrow> (tcp_stream \<Rightarrow> unit res \<times> tcp_stream) \<Rightarrow> 'tls \<Rightarrow> unit res \<times> 'tls" where
  "on_sock T f t = (case f (to_sock T t) of (r, s) \<Rightarrow> (r, to_set_sock T s t))"

definition tls_set_read_timeout ::
  "'tls tls_ops \<Rightarrow> nat option \<Rightarrow> 'tls rustls_connection \<Rightarrow> unit res \<times> 'tls rustls_connection" where
  "tls_set_read_timeout T t = with_lock_unwrap (on_sock T (tcp_set_read_timeout t))"

definition tls_set_nodelay ::
  "'tls tls_ops \<Rightarrow> bool \<Rightarrow> 'tls rustls_connection \<Rightarrow> unit res \<times> 'tls rustls_connection" where
  "tls_set_nodelay T b = with_lock_unwrap (on_sock T (tcp_set_nodelay b))"

text \<open>\<^verbatim>\<open>Arc::try_unwrap\<close> succeeds on the last reference; the mutex is then opened with \<^verbatim>\<open>unwrap\<close>.\<close>

definition tls_into_inner :: "'tls rustls_connection \<Rightarrow> ('tls rustls_connection + 'tls) res" where
  "tls_into_inner c =
     (if rc_refs c = 1 then (if rc_poisoned c then Panic else Ok (Inr (rc_stream c)))
      else Ok (Inl c))"

definition tls_from :: "'tls \<Rightarrow> 'tls rustls_connection" where
  "tls_from t = \<lparr>rc_stream = t, rc_poisoned = False, rc_refs = 1\<rparr>"

definition tls_peer_addr :: "'tls tls_ops \<Rightarrow> 'tls rustls_connection \<Rightarrow> sock_addr res" where
  "tls_peer_addr T c = (if rc_poisoned c then Err lock_failed else tcp_peer (to_sock T (rc_stream c)))"

definition tls_local_addr :: "'tls tls_ops \<Rightarrow> 'tls rustls_connection \<Rightarrow> sock_addr res" where
  "tls_local_addr T c = (if rc_poisoned c then Err lock_failed else tcp_local (to_sock T (rc_stream c)))"

definition tls_read ::
  "'tls tls_ops \<Rightarrow> nat \<Rightarrow> 'tls rustls_connection \<Rightarrow> bytes res \<times> 'tls rustls_connection" where
  "tls_read T n = with_lock (\<lambda>t. case read n (to_in T t) of (r, i) \<Rightarrow> (r, to_set_in T i t))"

definition tls_write ::
  "'tls tls_ops \<Rightarrow> bytes \<Rightarrow> 'tls rustls_connection \<Rightarrow> nat res \<times> 'tls rustls_connection" where
  "tls_write T bs = with_lock (\<lambda>t. case write_some bs (to_out T t) of (r, o') \<Rightarrow> (r, to_set_out T o' t))"

definition tls_flush ::
  "'tls tls_ops \<Rightarrow> 'tls rustls_connection \<Rightarrow> unit res \<times> 'tls rustls_connection" where
  "tls_flush T = with_lock (\<lambda>t. case flush (to_out T t) of (r, o') \<Rightarrow> (r, to_set_out T o' t))"

section \<open>Connections\<close>

datatype 'tls connection =
    Tcp tcp_stream
  | Unix unix_stream
  | Rustls "'tls rustls_connection"

definition ok_option :: "'a res \<Rightarrow> 'a option" where
  "ok_option r = (case r of Ok a \<Rightarrow> Some a | _ \<Rightarrow> None)"

fun conn_peer_addr :: "'tls tls_ops \<Rightarrow> 'tls connection \<Rightarrow> sock_addr option" where
  "conn_peer_addr T (Tcp tcp) = ok_option (tcp_peer tcp)"
| "conn_peer_addr T (Unix _) = None"
| "conn_peer_addr T (Rustls tls) = ok_option (tls_peer_addr T tls)"

fun conn_local_addr :: "'tls tls_ops \<Rightarrow> 'tls connection \<Rightarrow> sock_addr option" where
  "conn_local_addr T (Tcp tcp) = ok_option (tcp_local tcp)"
| "conn_local_addr T (Unix _) = None"
| "conn_local_addr T (Rustls tls) = ok_option (tls_local_addr T tls)"

fun conn_set_read_timeout ::
  "'tls tls_ops \<Rightarrow> nat option \<Rightarrow> 'tls connection \<Rightarrow> unit res \<times> 'tls connection" where
  "conn_set_read_timeout T t (Tcp tcp) = map_prod id Tcp (tcp_set_read_timeout t tcp)"
| "conn_set_read_timeout T t (Unix unix) = map_prod id Unix (unix_set_read_timeout t unix)"
| "conn_set_read_timeout T t (Rustls tls) = map_prod id Rustls (tls_set_read_timeout T t tls)"

fun conn_set_nodelay ::
  "'tls tls_ops \<Rightarrow> bool \<Rightarrow> 'tls connection \<Rightarrow> unit res \<times> 'tls connection" where
  "conn_set_nodelay T b (Tcp tcp) = map_prod id Tcp (tcp_set_nodelay b tcp)"
| "conn_set_nodelay T b (Unix unix) = (Ok (), Unix unix)"
| "conn_set_nodelay T b (Rustls tls) = map_prod id Rustls (tls_set_nodelay T b tls)"

fun conn_read :: "'tls tls_ops \<Rightarrow> nat \<Rightarrow> 'tls connection \<Rightarrow> bytes res \<times> 'tls connection" where
  "conn_read T n (Tcp tcp) = (case read n (tcp_in tcp) of (r, s) \<Rightarrow> (r, Tcp (tcp\<lparr>tcp_in := s\<rparr>)))"
| "conn_read T n (Unix unix) = (case read n (ux_in unix) of (r, s) \<Rightarrow> (r, Unix (unix\<lparr>ux_in := s\<rparr>)))"
| "conn_read T n (Rustls tls) = map_prod id Rustls (tls_read T n tls)"

fun conn_write :: "'tls tls_ops \<Rightarrow> bytes \<Rightarrow> 'tls connection \<Rightarrow> nat res \<times> 'tls connection" where
  "conn_write T bs (Tcp tcp) = (case write_some bs (tcp_out tcp) of (r, w) \<Rightarrow> (r, Tcp (tcp\<lparr>tcp_out := w\<rparr>)))"
| "conn_write T bs (Unix unix) = (case write_some bs (ux_out unix) of (r, w) \<Rightarrow> (r, Unix (unix\<lparr>ux_out := w\<rparr>)))"
| "conn_write T bs (Rustls tls) = map_prod id Rustls (tls_write T bs tls)"

fun conn_flush :: "'tls tls_ops \<Rightarrow> 'tls connection \<Rightarrow> unit res \<times> 'tls connection" where
  "conn_flush T (Tcp tcp) = (case flush (tcp_out tcp) of (r, w) \<Rightarrow> (r, Tcp (tcp\<lparr>tcp_out := w\<rparr>)))"
| "conn_flush T (Unix unix) = (case flush (ux_out unix) of (r, w) \<Rightarrow> (r, Unix (unix\<lparr>ux_out := w\<rparr>)))"
| "conn_flush T (Rustls tls) = map_prod id Rustls (tls_flush T tls)"

text \<open>
  \<^verbatim>\<open>Clone\<close>: the duplicate of a socket shares everything with it; a TLS connection counts one more
  reference.  The result is what both handles now are, or the panic of \<^verbatim>\<open>try_clone().unwrap()\<close>.
\<close>

fun conn_clone :: "'tls connection \<Rightarrow> 'tls connection res" where
  "conn_clone (Tcp tcp) = (if tcp_fault tcp = None then Ok (Tcp tcp) else Panic)"
| "conn_clone (Unix unix) = (if ux_fault unix = None then Ok (Unix unix) else Panic)"
| "conn_clone (Rustls tls) = Ok (Rustls (tls\<lparr>rc_refs := Suc (rc_refs tls)\<rparr>))"

text \<open>\<^verbatim>\<open>downcast::<T>()\<close>, for the three stream types and any other \<^verbatim>\<open>T\<close>.\<close>

datatype stream_type = TcpStreamT | UnixStreamT | TlsStreamT | OtherT

datatype 'tls any_stream = AnyTcp tcp_stream | AnyUnix unix_stream | AnyTls 'tls

fun conn_downcast :: "stream_type \<Rightarrow> 'tls connection \<Rightarrow> ('tls connection + 'tls any_stream) res" where
  "conn_downcast T (Tcp tcp) = Ok (if T = TcpStreamT then Inr (AnyTcp tcp) else Inl (Tcp tcp))"
| "conn_downcast T (Unix unix) = Ok (if T = UnixStreamT then Inr (AnyUnix unix) else Inl (Unix unix))"
| "conn_downcast T (Rustls tls) =
     (case tls_into_inner tls of
        Ok (Inr t) \<Rightarrow> Ok (if T = TlsStreamT then Inr (AnyTls t) else Inl (Rustls (tls_from t)))
      | Ok (Inl c) \<Rightarrow> Ok (Inl (Rustls c))
      | Err e \<Rightarrow> Err e
      | Panic \<Rightarrow> Panic)"

definition conn_from_tcp :: "tcp_stream \<Rightarrow> 'tls connection" where
  "conn_from_tcp tcp = Tcp tcp"

definition conn_from_accepted :: "tcp_stream \<times> sock_addr \<Rightarrow> 'tls connection" where
  "conn_from_accepted p = (case p of (tcp, addr) \<Rightarrow> Tcp tcp)"

definition conn_from_unix :: "unix_stream \<Rightarrow> 'tls connection" where
  "conn_from_unix unix = Unix unix"

definition conn_from_tls :: "'tls \<Rightarrow> 'tls connection" where
  "conn_from_tls t = Rustls (tls_from t)"

section \<open>A connection as a pair of streams\<close>

text \<open>
  The view under which the rest of the library uses a connection: the script of its reads, the
  record of its writes, and its options.
\<close>

fun conn_in :: "'tls tls_ops \<Rightarrow> 'tls connection \<Rightarrow> stream" where
  "conn_in T (Tcp tcp) = tcp_in tcp"
| "conn_in T (Unix unix) = ux_in unix"
| "conn_in T (Rustls tls) = to_in T (rc_stream tls)"

fun conn_out :: "'tls tls_ops \<Rightarrow> 'tls connection \<Rightarrow> writer" where
  "conn_out T (Tcp tcp) = tcp_out tcp"
| "conn_out T (Unix unix) = ux_out unix"
| "conn_out T (Rustls tls) = to_out T (rc_stream tls)"

fun conn_with :: "'tls tls_ops \<Rightarrow> stream \<Rightarrow> writer \<Rightarrow> 'tls connection \<Rightarrow> 'tls connection" where
  "conn_with T i w (Tcp tcp) = Tcp (tcp\<lparr>tcp_in := i, tcp_out := w\<rparr>)"
| "conn_with T i w (Unix unix) = Unix (unix\<lparr>ux_in := i, ux_out := w\<rparr>)"
| "conn_with T i w (Rustls tls) = Rustls (tls\<lparr>rc_stream := to_set_out T w (to_set_in T i (rc_stream tls))\<rparr>)"

fun conn_poisoned :: "'tls connection \<Rightarrow> bool" where
  "conn_poisoned (Rustls tls) \<longleftrightarrow> rc_poisoned tls"
| "conn_poisoned _ \<longleftrightarrow> False"

fun conn_timeout :: "'tls tls_ops \<Rightarrow> 'tls connection \<Rightarrow> nat option" where
  "conn_timeout T (Tcp tcp) = tcp_timeout tcp"
| "conn_timeout T (Unix unix) = ux_timeout unix"
| "conn_timeout T (Rustls tls) = tcp_timeout (to_sock T (rc_stream tls))"

text \<open>A Unix socket has no such option.\<close>

fun conn_nodelay :: "'tls tls_ops \<Rightarrow> 'tls connection \<Rightarrow> bool option" where
  "conn_nodelay T (Tcp tcp) = Some (tcp_nodelay tcp)"
| "conn_nodelay T (Unix unix) = None"
| "conn_nodelay T (Rustls tls) = Some (tcp_nodelay (to_sock T (rc_stream tls)))"

lemmas conn_views = tcp_set_read_timeout_def tcp_set_nodelay_def unix_set_read_timeout_def
  tls_set_read_timeout_def tls_set_nodelay_def with_lock_unwrap_def with_lock_def on_sock_def
  tls_read_def tls_write_def tls_flush_def

text \<open>
  The contract of an object that is read and written piecewise: its calls are those of a source
  and of a writer.  \<^verbatim>\<open>Write::write_all\<close> repeats \<^verbatim>\<open>write\<close>; under the contract it is \<open>write_all\<close>.
\<close>

fun write_fully :: "(bytes \<Rightarrow> 'c \<Rightarrow> nat res \<times> 'c) \<Rightarrow> nat \<Rightarrow> bytes \<Rightarrow> 'c \<Rightarrow> unit res \<times> 'c" where
  "write_fully wr fuel [] c = (Ok (), c)"
| "write_fully wr 0 bs c = (Err (Other ''out of fuel''), c)"
| "write_fully wr (Suc fuel) bs c =
     (case wr bs c of
        (Ok n, c') \<Rightarrow>
          if n = 0 then (Err (Other ''failed to write whole buffer''), c')
          else write_fully wr fuel (drop n bs) c'
      | (Err err, c') \<Rightarrow> if err = Interrupted then write_fully wr fuel bs c' else (Err err, c')
      | (Panic, c') \<Rightarrow> (Panic, c'))"

lemma write_some_Ok:
  "write_some bs w = (Ok n, w') \<Longrightarrow> bs \<noteq> [] \<Longrightarrow>
     0 < n \<and> n \<le> length bs \<and> write_all bs w = write_all (drop n bs) w'"
  by (auto simp: write_some_def write_all_def min_def split: option.splits if_splits)

lemma write_some_Err:
  "write_some bs w = (Err err, w') \<Longrightarrow>
     err = BrokenPipe \<and> w' = w \<and> write_all bs w = (Err BrokenPipe, w)"
  by (cases w; cases bs) (auto simp: write_some_def write_all_def split: option.splits if_splits)

lemma write_some_not_Panic [simp]: "write_some bs w \<noteq> (Panic, w')"
  by (auto simp: write_some_def split: option.splits)

lemma write_all_Nil: "write_all [] w = (Ok (), w)"
  by (cases w) (auto simp: write_all_def split: option.splits)

locale duplex =
  fixes rd :: "nat \<Rightarrow> 'c \<Rightarrow> bytes res \<times> 'c" and wr :: "bytes \<Rightarrow> 'c \<Rightarrow> nat res \<times> 'c"
    and fl :: "'c \<Rightarrow> unit res \<times> 'c"
    and inp :: "'c \<Rightarrow> stream" and out :: "'c \<Rightarrow> writer" and usable :: "'c \<Rightarrow> bool"
  assumes reads: "usable c \<Longrightarrow> rd n c = (r, c') \<Longrightarrow> read n (inp c) = (r, inp c') \<and> out c' = out c \<and> usable c'"
    and writes: "usable c \<Longrightarrow> wr bs c = (m, c') \<Longrightarrow>
      write_some bs (out c) = (m, out c') \<and> inp c' = inp c \<and> usable c'"
    and flushes: "usable c \<Longrightarrow> fl c = (u, c') \<Longrightarrow> flush (out c) = (u, out c') \<and> inp c' = inp c \<and> usable c'"
begin

lemma write_fully_all:
  "usable c \<Longrightarrow> length bs \<le> fuel \<Longrightarrow> write_fully wr fuel bs c = (r, c') \<Longrightarrow>
     write_all bs (out c) = (r, out c') \<and> inp c' = inp c \<and> usable c'"
proof (induction fuel arbitrary: bs c)
  case 0
  then show ?case by (auto simp: write_all_Nil)
next
  case (Suc fuel)
  show ?case
  proof (cases bs)
    case Nil
    with Suc.prems show ?thesis by (auto simp: write_all_Nil)
  next
    case (Cons b bs')
    obtain m c1 where w: "wr bs c = (m, c1)" by (metis surj_pair)
    note w1 = writes [OF Suc.prems(1) w]
    show ?thesis
    proof (cases m)
      case (Ok n)
      with w1 have ok: "write_some bs (out c) = (Ok n, out c1)" by simp
      with Cons have n: "0 < n" "n \<le> length bs" "write_all bs (out c) = write_all (drop n bs) (out c1)"
        using write_some_Ok [OF ok] by simp_all
      then have "write_fully wr fuel (drop n bs) c1 = (r, c')" "length (drop n bs) \<le> fuel"
        using Suc.prems Cons w Ok by simp_all
      with Suc.IH [of c1 "drop n bs"] w1 n(3) show ?thesis by simp
    next
      case (Err err)
      with w1 have err: "write_some bs (out c) = (Err err, out c1)" by simp
      from write_some_Err [OF err] Suc.prems(3) Cons w Err w1 show ?thesis by auto
    next
      case Panic
      with w1 show ?thesis by simp
    qed
  qed
qed

lemma read_quiet_prefix:
  "usable c \<Longrightarrow> quiet (inp c) \<Longrightarrow> 0 < n \<Longrightarrow> rd n c = (r, c') \<Longrightarrow>
     \<exists>bs. r = Ok bs \<and> bytes_of (inp c) = bs @ bytes_of (inp c') \<and> (bs = [] \<longleftrightarrow> inp c = []) \<and> quiet (inp c')"
  using reads [of c n r c']
  by (cases "inp c" rule: fill_buf.cases) (auto dest!: sym [of "push_back _ _"])

end

interpretation tcp_duplex: duplex
  "\<lambda>n s. case read n (tcp_in s) of (r, i) \<Rightarrow> (r, s\<lparr>tcp_in := i\<rparr>)"
  "\<lambda>bs s. case write_some bs (tcp_out s) of (r, w) \<Rightarrow> (r, s\<lparr>tcp_out := w\<rparr>)"
  "\<lambda>s. case flush (tcp_out s) of (r, w) \<Rightarrow> (r, s\<lparr>tcp_out := w\<rparr>)"
  tcp_in tcp_out "\<lambda>_. True"
  by unfold_locales (auto split: prod.splits)

text \<open>A TLS stream keeps the contract while its lock is not poisoned, and so does every connection.\<close>

interpretation tls_duplex: duplex
  "tls_read T" "tls_write T" "tls_flush T" "\<lambda>c. to_in T (rc_stream c)" "\<lambda>c. to_out T (rc_stream c)"
  "\<lambda>c. tls_law T \<and> \<not> rc_poisoned c" for T
  by unfold_locales (auto simp: conn_views tls_law_def split: prod.splits)

interpretation conn_duplex: duplex
  "conn_read T" "conn_write T" "conn_flush T" "conn_in T" "conn_out T"
  "\<lambda>c. tls_law T \<and> \<not> conn_poisoned c" for T
proof (unfold_locales, goal_cases)
  case (1 c n r c')
  then show ?case by (cases c) (auto simp: conn_views tls_law_def split: prod.splits)
next
  case (2 c bs m c')
  then show ?case by (cases c) (auto simp: conn_views tls_law_def split: prod.splits)
next
  case (3 c u c')
  then show ?case by (cases c) (auto simp: conn_views tls_law_def split: prod.splits)
qed

lemma conn_with_in_out:
  "tls_law T \<Longrightarrow> conn_in T (conn_with T i w c) = i \<and> conn_out T (conn_with T i w c) = w"
  by (cases c) (auto simp: tls_law_def)

section \<open>What a buffered reader leaves behind\<close>

text \<open>
  A \<^verbatim>\<open>BufReader\<close> takes whole blocks from its socket.  Of the block that the reader is in the middle of
  nothing is left in the socket when it is dropped: only the blocks that it has not touched are
  still there for the next reader.
\<close>

definition socket_after :: "stream \<Rightarrow> stream \<Rightarrow> stream" where
  "socket_after s rest = (if suffix rest s then rest else tl rest)"

lemma socket_after_Nil [simp]: "socket_after s [] = []"
  by (simp add: socket_after_def)

lemma socket_after_suffix [simp]: "suffix t s \<Longrightarrow> socket_after s t = t"
  by (simp add: socket_after_def)

lemma socket_after_block:
  "y \<noteq> [] \<Longrightarrow> socket_after (pre @ Avail (y @ x) # post) (push_back x post) = post"
  by (auto simp: socket_after_def push_back_def suffix_def dest: append_eq_append_conv2 [THEN iffD1])

section \<open>Options\<close>

text \<open>An option call that succeeds sets its option and nothing else; one that fails sets nothing.\<close>

lemma conn_set_read_timeout_Ok:
  "tls_law T \<Longrightarrow> conn_set_read_timeout T t c = (Ok (), c') \<Longrightarrow>
     conn_timeout T c' = t \<and> conn_nodelay T c' = conn_nodelay T c \<and>
     conn_in T c' = conn_in T c \<and> conn_out T c' = conn_out T c"
  by (cases c) (auto simp: conn_views tls_law_def split: if_splits option.splits prod.splits)

lemma conn_set_nodelay_Ok:
  "tls_law T \<Longrightarrow> conn_set_nodelay T b c = (Ok (), c') \<Longrightarrow>
     conn_nodelay T c' = map_option (\<lambda>_. b) (conn_nodelay T c) \<and> conn_timeout T c' = conn_timeout T c \<and>
     conn_in T c' = conn_in T c \<and> conn_out T c' = conn_out T c"
  by (cases c) (auto simp: conn_views tls_law_def split: if_splits option.splits prod.splits)

lemma conn_set_read_timeout_fails:
  "tls_law T \<Longrightarrow> conn_set_read_timeout T t c = (r, c') \<Longrightarrow> r \<noteq> Ok () \<Longrightarrow> c' = c"
  by (cases c) (auto simp: conn_views tls_law_def split: if_splits option.splits prod.splits)

lemma conn_set_nodelay_fails:
  "tls_law T \<Longrightarrow> conn_set_nodelay T b c = (r, c') \<Longrightarrow> r \<noteq> Ok () \<Longrightarrow> c' = c"
  by (cases c) (auto simp: conn_views tls_law_def split: if_splits option.splits prod.splits)

lemma conn_options_not_Panic:
  "\<not> conn_poisoned c \<Longrightarrow> conn_set_read_timeout T t c \<noteq> (Panic, c')"
  "\<not> conn_poisoned c \<Longrightarrow> conn_set_nodelay T b c \<noteq> (Panic, c')"
  by (cases c; auto simp: conn_views split: if_splits option.splits prod.splits)+

end
