(* ===== verification/Server_Builder.thy ===== *)
theory Server_Builder
  imports Server Connection
begin

text \<open>
  \<^verbatim>\<open>src/server.rs\<close>: the builder of a server, the connections that reach it, and the three loops
  that hand each connection to \<^verbatim>\<open>serve\<close>.  A listener is the script of what its \<^verbatim>\<open>accept\<close> calls
  answer, after which the next call waits; the thread pool is a third-party value \<open>'p\<close>.
\<close>

section \<open>The builder\<close>

record server_builder =
  sb_max_threads :: nat
  sb_read_timeout :: "nat option"
  sb_nodelay :: bool

definition builder_default :: server_builder where
  "builder_default = \<lparr>sb_max_threads = 512, sb_read_timeout = None, sb_nodelay = False\<rparr>"

definition builder_max_threads :: "nat \<Rightarrow> server_builder \<Rightarrow> server_builder" where
  "builder_max_threads n b = b\<lparr>sb_max_threads := n\<rparr>"

definition builder_read_timeout :: "nat option \<Rightarrow> server_builder \<Rightarrow> server_builder" where
  "builder_read_timeout t b = b\<lparr>sb_read_timeout := t\<rparr>"

definition builder_nodelay :: "bool \<Rightarrow> server_builder \<Rightarrow> server_builder" where
  "builder_nodelay d b = b\<lparr>sb_nodelay := d\<rparr>"

section \<open>Where connections come from\<close>

type_synonym listener = "(io_error + tcp_stream \<times> sock_addr) list"

text \<open>\<^verbatim>\<open>TcpAcceptor::next\<close>: any error of \<^verbatim>\<open>accept\<close> is the end of the iterator.\<close>

fun acceptor_next :: "listener \<Rightarrow> ('tls connection option \<times> listener) blocking" where
  "acceptor_next [] = Blocked"
| "acceptor_next (Inr p # l) = Done (Some (conn_from_accepted p), l)"
| "acceptor_next (Inl err # l) = Done (None, l)"

text \<open>
  The connections of a server: the acceptor's, those of an iterator that ends, or those of one that, like
  \<^verbatim>\<open>TcpListener::incoming\<close>, waits for the next instead.
\<close>

datatype 'tls incoming =
    FromListener listener
  | FromIterator "'tls connection list"
  | FromWaiting "'tls connection list"

fun incoming_next :: "'tls incoming \<Rightarrow> ('tls connection option \<times> 'tls incoming) blocking" where
  "incoming_next (FromListener l) =
     (case acceptor_next l of
        Done (c, l') \<Rightarrow> Done (c, FromListener l')
      | Blocked \<Rightarrow> Blocked
      | Panicked \<Rightarrow> Panicked)"
| "incoming_next (FromIterator []) = Done (None, FromIterator [])"
| "incoming_next (FromIterator (c # cs)) = Done (Some c, FromIterator cs)"
| "incoming_next (FromWaiting []) = Blocked"
| "incoming_next (FromWaiting (c # cs)) = Done (Some c, FromWaiting cs)"

fun incoming_size :: "'tls incoming \<Rightarrow> nat" where
  "incoming_size (FromListener l) = length l"
| "incoming_size (FromIterator cs) = length cs"
| "incoming_size (FromWaiting cs) = length cs"

lemma incoming_next_less: "incoming_next inc = Done (Some c, inc') \<Longrightarrow> incoming_size inc' < incoming_size inc"
  by (cases inc rule: incoming_next.cases)
    (auto split: blocking.splits elim: acceptor_next.elims)

text \<open>The closure of \<^verbatim>\<open>from_connections\<close>: a connection whose options cannot be set is skipped.\<close>

definition configure :: "'tls tls_ops \<Rightarrow> server_builder \<Rightarrow> 'tls connection \<Rightarrow> 'tls connection res" where
  "configure T b c =
     (case conn_set_read_timeout T (sb_read_timeout b) c of
        (Ok _, c1) \<Rightarrow>
          (case conn_set_nodelay T (sb_nodelay b) c1 of
             (Ok _, c2) \<Rightarrow> Ok c2
           | (Err err, _) \<Rightarrow> Err err
           | (Panic, _) \<Rightarrow> Panic)
      | (Err err, _) \<Rightarrow> Err err
      | (Panic, _) \<Rightarrow> Panic)"

function server_next ::
  "'tls tls_ops \<Rightarrow> server_builder \<Rightarrow> 'tls incoming \<Rightarrow> ('tls connection option \<times> 'tls incoming) blocking" where
  "server_next T b inc =
     (case incoming_next inc of
        Done (Some c, inc') \<Rightarrow>
          (case configure T b c of
             Ok c' \<Rightarrow> Done (Some c', inc')
           | Err _ \<Rightarrow> server_next T b inc'
           | Panic \<Rightarrow> Panicked)
      | Done (None, inc') \<Rightarrow> Done (None, inc')
      | Blocked \<Rightarrow> Blocked
      | Panicked \<Rightarrow> Panicked)"
  by pat_completeness auto
termination
  by (relation "measure (\<lambda>(T, b, inc). incoming_size inc)") (auto dest: incoming_next_less)

declare server_next.simps [simp del]

lemma server_next_less: "server_next T b inc = Done (Some c, inc') \<Longrightarrow> incoming_size inc' < incoming_size inc"
proof (induction T b inc rule: server_next.induct)
  case (1 T b inc)
  show ?case
  proof (cases "\<exists>c1 inc1 err. incoming_next inc = Done (Some c1, inc1) \<and> configure T b c1 = Err err")
    case True
    then obtain c1 inc1 err where s: "incoming_next inc = Done (Some c1, inc1)" "configure T b c1 = Err err"
      by blast
    with "1.prems" have "server_next T b inc1 = Done (Some c, inc')"
      by (simp add: server_next.simps [of T b inc])
    from "1.IH" [OF s(1) refl refl s(2) this] incoming_next_less [OF s(1)] show ?thesis by simp
  next
    case False
    with "1.prems" show ?thesis
      by (auto simp: server_next.simps [of T b inc] dest: incoming_next_less
          split: blocking.splits prod.splits option.splits res.splits)
  qed
qed

section \<open>Servers\<close>

record ('p, 'tls) server =
  srv_pool :: 'p
  srv_builder :: server_builder
  srv_incoming :: "'tls incoming"

definition from_connections ::
  "(nat \<Rightarrow> 'p res) \<Rightarrow> 'tls incoming \<Rightarrow> server_builder \<Rightarrow> ('p, 'tls) server res" where
  "from_connections pool_new conns b =
     map_res (\<lambda>pool. \<lparr>srv_pool = pool, srv_builder = b, srv_incoming = conns\<rparr>)
       (pool_new (sb_max_threads b))"

text \<open>\<^verbatim>\<open>From<TcpListener>\<close>, \<^verbatim>\<open>try_bind\<close> and \<^verbatim>\<open>bind\<close>; \<open>tcp_bind\<close> is \<^verbatim>\<open>TcpListener::bind\<close>.\<close>

definition server_from_listener :: "(nat \<Rightarrow> 'p res) \<Rightarrow> listener \<Rightarrow> ('p, 'tls) server res" where
  "server_from_listener pool_new l = from_connections pool_new (FromListener l) builder_default"

definition try_bind ::
  "(nat \<Rightarrow> 'p res) \<Rightarrow> ('addr \<Rightarrow> listener res) \<Rightarrow> 'addr \<Rightarrow> server_builder \<Rightarrow> ('p, 'tls) server res" where
  "try_bind pool_new tcp_bind addr b =
     (case tcp_bind addr of
        Ok l \<Rightarrow> from_connections pool_new (FromListener l) b
      | Err err \<Rightarrow> Err err
      | Panic \<Rightarrow> Panic)"

definition builder_bind ::
  "(nat \<Rightarrow> 'p res) \<Rightarrow> ('addr \<Rightarrow> listener res) \<Rightarrow> 'addr \<Rightarrow> server_builder \<Rightarrow> ('p, 'tls) server res" where
  "builder_bind pool_new tcp_bind addr b =
     (case try_bind pool_new tcp_bind addr b of Err err \<Rightarrow> Panic | r \<Rightarrow> r)"

definition server_bind ::
  "(nat \<Rightarrow> 'p res) \<Rightarrow> ('addr \<Rightarrow> listener res) \<Rightarrow> 'addr \<Rightarrow> ('p, 'tls) server res" where
  "server_bind pool_new tcp_bind addr = builder_bind pool_new tcp_bind addr builder_default"

section \<open>The loops\<close>

text \<open>
  \<^verbatim>\<open>for conn in self.incoming\<close> with a body that may end the thread: \<open>AllServed\<close> is \<^verbatim>\<open>Ok(())\<close>,
  \<open>Accepting\<close> waits in \<^verbatim>\<open>accept\<close>, \<open>Stuck\<close> waits in a connection, \<open>Crashed\<close> is a panic.
\<close>

datatype listen_end = AllServed | Accepting | Stuck | Crashed

function accept_loop ::
  "'tls tls_ops \<Rightarrow> server_builder \<Rightarrow> ('tls connection \<Rightarrow> 'x \<Rightarrow> 'x \<times> listen_end option) \<Rightarrow>
     'tls incoming \<Rightarrow> 'x \<Rightarrow> 'x \<times> listen_end" where
  "accept_loop T b body inc x =
     (case server_next T b inc of
        Done (Some c, inc') \<Rightarrow>
          (case body c x of
             (x', None) \<Rightarrow> accept_loop T b body inc' x'
           | (x', Some fin) \<Rightarrow> (x', fin))
      | Done (None, inc') \<Rightarrow> (x, AllServed)
      | Blocked \<Rightarrow> (x, Accepting)
      | Panicked \<Rightarrow> (x, Crashed))"
  by pat_completeness auto
termination
  by (relation "measure (\<lambda>(T, b, body, inc, x). incoming_size inc)") (auto dest: server_next_less)

declare accept_loop.simps [simp del]

text \<open>
  \<^verbatim>\<open>serve(conn, &mut app)\<close> on a connection: it is cloned first, then one half is read and the other
  written.
\<close>

definition serve_conn ::
  "nat \<Rightarrow> crates \<Rightarrow> 'b http_body \<Rightarrow> ('b, 'h, 's) service \<Rightarrow> (nat \<Rightarrow> bytes) \<Rightarrow> 'tls tls_ops \<Rightarrow>
     'tls connection \<Rightarrow> 's \<Rightarrow> 'h serve_end \<times> writer \<times> 's" where
  "serve_conn fuel E B A clock T c app =
     (case conn_clone c of
        Ok c' \<Rightarrow> serve fuel E B A clock (conn_in T c') (conn_out T c') app
      | _ \<Rightarrow> (Panics, conn_out T c, app))"

text \<open>
  \<^verbatim>\<open>upgrade.handler.handle(writer.into_inner()?)\<close>: the connection that the handler gets, once the
  reader, which stood at \<open>s\<close>, and with it its buffer has been dropped.
\<close>

definition handed_over :: "'tls tls_ops \<Rightarrow> 'tls connection \<Rightarrow> stream \<Rightarrow> writer \<Rightarrow> 'tls connection" where
  "handed_over T c s w = conn_with T (socket_after (conn_in T c) s) w c"

fun serve_ended :: "'h serve_end \<Rightarrow> bool" where
  "serve_ended (Returned r) \<longleftrightarrow> True"
| "serve_ended (Upgraded h s) \<longleftrightarrow> True"
| "serve_ended WaitsForever \<longleftrightarrow> False"
| "serve_ended Panics \<longleftrightarrow> False"
| "serve_ended OutOfFuel \<longleftrightarrow> False"

text \<open>What a server has done: each connection with how its \<^verbatim>\<open>serve\<close> ended and what was written.\<close>

type_synonym ('tls, 'h) served = "('tls connection \<times> 'h serve_end \<times> writer) list"

text \<open>One connection after the other, with one application.\<close>

definition single_body ::
  "nat \<Rightarrow> crates \<Rightarrow> 'b http_body \<Rightarrow> ('b, 'h, 's) service \<Rightarrow> (nat \<Rightarrow> nat \<Rightarrow> bytes) \<Rightarrow> 'tls tls_ops \<Rightarrow>
     'tls connection \<Rightarrow> ('tls, 'h) served \<times> 's \<Rightarrow> (('tls, 'h) served \<times> 's) \<times> listen_end option" where
  "single_body fuel E B A clocks T c x =
     (case x of (log, app) \<Rightarrow>
        (case serve_conn fuel E B A (clocks (length log)) T c app of
           (e, w, app') \<Rightarrow>
             ((log @ [(c, e, w)], app'),
              if serve_ended e then None else if e = Panics then Some Crashed else Some Stuck)))"

definition serve_single_thread ::
  "nat \<Rightarrow> crates \<Rightarrow> 'b http_body \<Rightarrow> ('b, 'h, 's) service \<Rightarrow> (nat \<Rightarrow> nat \<Rightarrow> bytes) \<Rightarrow> 'tls tls_ops \<Rightarrow>
     ('p, 'tls) server \<Rightarrow> 's \<Rightarrow> (('tls, 'h) served \<times> 's) \<times> listen_end" where
  "serve_single_thread fuel E B A clocks T srv app =
     accept_loop T (srv_builder srv) (single_body fuel E B A clocks T) (srv_incoming srv) ([], app)"

text \<open>
  On the pool: each connection is a job of its own with a clone of the application.  Whatever a job
  does, a panic included, stays in its thread; the log holds what each job does when it runs.
\<close>

definition pool_body ::
  "nat \<Rightarrow> crates \<Rightarrow> 'b http_body \<Rightarrow> ('b, 'h, 's) service \<Rightarrow> (nat \<Rightarrow> nat \<Rightarrow> bytes) \<Rightarrow> 'tls tls_ops \<Rightarrow> 's \<Rightarrow>
     'tls connection \<Rightarrow> ('tls, 'h) served \<Rightarrow> ('tls, 'h) served \<times> listen_end option" where
  "pool_body fuel E B A clocks T app c log =
     (case serve_conn fuel E B A (clocks (length log)) T c app of
        (e, w, app') \<Rightarrow> (log @ [(c, e, w)], None))"

definition serve_pool ::
  "nat \<Rightarrow> crates \<Rightarrow> 'b http_body \<Rightarrow> ('b, 'h, 's) service \<Rightarrow> (nat \<Rightarrow> nat \<Rightarrow> bytes) \<Rightarrow> 'tls tls_ops \<Rightarrow>
     ('p, 'tls) server \<Rightarrow> 's \<Rightarrow> ('tls, 'h) served \<times> listen_end" where
  "serve_pool fuel E B A clocks T srv app =
     accept_loop T (srv_builder srv) (pool_body fuel E B A clocks T app) (srv_incoming srv) []"

text \<open>\<^verbatim>\<open>make_service\<close>: the application is made for the connection, or the connection is dropped.\<close>

type_synonym ('b, 'h, 's, 'tls) make_service = "'tls connection \<Rightarrow> string + ('b, 'h, 's) service \<times> 's"

definition make_body ::
  "nat \<Rightarrow> crates \<Rightarrow> 'b http_body \<Rightarrow> ('b, 'h, 's, 'tls) make_service \<Rightarrow> (nat \<Rightarrow> nat \<Rightarrow> bytes) \<Rightarrow>
     'tls tls_ops \<Rightarrow> 'tls connection \<Rightarrow> ('tls, 'h) served \<Rightarrow> ('tls, 'h) served \<times> listen_end option" where
  "make_body fuel E B M clocks T c log =
     (case M c of
        Inl err \<Rightarrow> (log, None)
      | Inr (A, app) \<Rightarrow>
          (case serve_conn fuel E B A (clocks (length log)) T c app of
             (e, w, app') \<Rightarrow> (log @ [(c, e, w)], None)))"

definition serve_make_service ::
  "nat \<Rightarrow> crates \<Rightarrow> 'b http_body \<Rightarrow> ('b, 'h, 's, 'tls) make_service \<Rightarrow> (nat \<Rightarrow> nat \<Rightarrow> bytes) \<Rightarrow>
     'tls tls_ops \<Rightarrow> ('p, 'tls) server \<Rightarrow> ('tls, 'h) served \<times> listen_end" where
  "serve_make_service fuel E B M clocks T srv =
     accept_loop T (srv_builder srv) (make_body fuel E B M clocks T) (srv_incoming srv) []"

section \<open>The connections that a server serves\<close>

text \<open>
  The reference for the filter and the loops: the connections that arrive before the first failed
  \<^verbatim>\<open>accept\<close>, those of them that can be configured, and a loop over a list.
\<close>

definition accepted :: "listener \<Rightarrow> 'tls connection list \<times> listen_end" where
  "accepted l =
     (map (\<lambda>r. conn_from_accepted (projr r)) (takeWhile isr l), if list_all isr l then Accepting else AllServed)"

fun offered :: "'tls incoming \<Rightarrow> 'tls connection list \<times> listen_end" where
  "offered (FromListener l) = accepted l"
| "offered (FromIterator cs) = (cs, AllServed)"
| "offered (FromWaiting cs) = (cs, Accepting)"

fun configured ::
  "'tls tls_ops \<Rightarrow> server_builder \<Rightarrow> 'tls connection list \<Rightarrow> listen_end \<Rightarrow> 'tls connection list \<times> listen_end" where
  "configured T b [] fin = ([], fin)"
| "configured T b (c # cs) fin =
     (case configure T b c of
        Ok c' \<Rightarrow> (case configured T b cs fin of (cs', fin') \<Rightarrow> (c' # cs', fin'))
      | Err _ \<Rightarrow> configured T b cs fin
      | Panic \<Rightarrow> ([], Crashed))"

definition arriving :: "'tls tls_ops \<Rightarrow> server_builder \<Rightarrow> 'tls incoming \<Rightarrow> 'tls connection list \<times> listen_end" where
  "arriving T b inc = (case offered inc of (cs, fin) \<Rightarrow> configured T b cs fin)"

fun each :: "('c \<Rightarrow> 'x \<Rightarrow> 'x \<times> listen_end option) \<Rightarrow> 'c list \<Rightarrow> listen_end \<Rightarrow> 'x \<Rightarrow> 'x \<times> listen_end" where
  "each body [] fin x = (x, fin)"
| "each body (c # cs) fin x =
     (case body c x of (x', None) \<Rightarrow> each body cs fin x' | (x', Some fin') \<Rightarrow> (x', fin'))"

text \<open>What a blocking iterator promises: its items in order, and then its end.\<close>

locale blocking_iterator =
  fixes nxt :: "'i \<Rightarrow> ('c option \<times> 'i) blocking" and items :: "'i \<Rightarrow> 'c list \<times> listen_end"
  assumes nxt_Some: "nxt i = Done (Some c, i') \<Longrightarrow> items i = (c # fst (items i'), snd (items i'))"
    and nxt_None: "nxt i = Done (None, i') \<Longrightarrow> items i = ([], AllServed)"
    and nxt_Blocked: "nxt i = Blocked \<Longrightarrow> items i = ([], Accepting)"
    and nxt_Panicked: "nxt i = Panicked \<Longrightarrow> items i = ([], Crashed)"
begin

lemma each_items:
  "each body (fst (items i)) (snd (items i)) x =
     (case nxt i of
        Done (Some c, i') \<Rightarrow>
          (case body c x of
             (x', None) \<Rightarrow> each body (fst (items i')) (snd (items i')) x'
           | (x', Some fin) \<Rightarrow> (x', fin))
      | Done (None, i') \<Rightarrow> (x, AllServed)
      | Blocked \<Rightarrow> (x, Accepting)
      | Panicked \<Rightarrow> (x, Crashed))"
  by (auto simp: nxt_Some nxt_None nxt_Blocked nxt_Panicked
      split: blocking.split prod.split option.split)

end

interpretation acceptor: blocking_iterator acceptor_next accepted
proof (unfold_locales, goal_cases)
  case (1 i c i')
  then show ?case by (cases i rule: acceptor_next.cases) (auto simp: accepted_def)
next
  case (2 i i')
  then show ?case by (cases i rule: acceptor_next.cases) (auto simp: accepted_def)
next
  case (3 i)
  then show ?case by (cases i rule: acceptor_next.cases) (auto simp: accepted_def)
next
  case (4 i)
  then show ?case by (cases i rule: acceptor_next.cases) auto
qed

interpretation arrivals: blocking_iterator incoming_next offered
proof (unfold_locales, goal_cases)
  case (1 i c i')
  then show ?case
    by (cases i rule: incoming_next.cases) (auto dest: acceptor.nxt_Some split: blocking.splits)
next
  case (2 i i')
  then show ?case
    by (cases i rule: incoming_next.cases) (auto dest: acceptor.nxt_None split: blocking.splits)
next
  case (3 i)
  then show ?case
    by (cases i rule: incoming_next.cases) (auto dest: acceptor.nxt_Blocked split: blocking.splits)
next
  case (4 i)
  then show ?case
    by (cases i rule: incoming_next.cases) (auto dest: acceptor.nxt_Panicked split: blocking.splits)
qed

lemma server_next_arriving:
  "case server_next T b inc of
     Done (Some c, inc') \<Rightarrow> arriving T b inc = (c # fst (arriving T b inc'), snd (arriving T b inc'))
   | Done (None, inc') \<Rightarrow> arriving T b inc = ([], AllServed)
   | Blocked \<Rightarrow> arriving T b inc = ([], Accepting)
   | Panicked \<Rightarrow> arriving T b inc = ([], Crashed)"
proof (induction T b inc rule: server_next.induct)
  case (1 T b inc)
  show ?case
  proof (cases "incoming_next inc")
    case (Done p)
    obtain oc inc1 where p: "p = (oc, inc1)" by (metis surj_pair)
    show ?thesis
    proof (cases oc)
      case None
      with Done p arrivals.nxt_None [of inc inc1] show ?thesis
        by (simp add: server_next.simps [of T b inc] arriving_def)
    next
      case (Some c)
      from Done p Some have s: "incoming_next inc = Done (Some c, inc1)" by simp
      note off = arrivals.nxt_Some [OF s]
      show ?thesis
      proof (cases "configure T b c")
        case (Err err)
        with s off have skip: "server_next T b inc = server_next T b inc1"
          "arriving T b inc = arriving T b inc1"
          by (simp_all add: server_next.simps [of T b inc] arriving_def split: prod.split)
        show ?thesis unfolding skip by (rule "1.IH" [OF s refl refl Err])
      qed (use s off in \<open>auto simp: server_next.simps [of T b inc] arriving_def split: prod.splits\<close>)
    qed
  next
    case Blocked
    with arrivals.nxt_Blocked [OF Blocked] show ?thesis
      by (simp add: server_next.simps [of T b inc] arriving_def)
  next
    case Panicked
    with arrivals.nxt_Panicked [OF Panicked] show ?thesis
      by (simp add: server_next.simps [of T b inc] arriving_def)
  qed
qed

interpretation served: blocking_iterator "server_next T b" "arriving T b" for T b
  using server_next_arriving [of T b] by unfold_locales (force split: blocking.splits prod.splits option.splits)+

lemma accept_loop_each:
  "accept_loop T b body inc x = each body (fst (arriving T b inc)) (snd (arriving T b inc)) x"
proof (induction T b body inc x rule: accept_loop.induct)
  case (1 T b body inc x)
  show ?case
    unfolding accept_loop.simps [of T b body inc x] served.each_items [where T = T and b = b and body = body and i = inc and x = x]
    using "1.IH" by (auto split: blocking.split prod.split option.split)
qed

text \<open>TCP connections cannot make the configuration panic.\<close>

lemma configured_eq:
  "list_all (\<lambda>c. \<not> conn_poisoned c) cs \<Longrightarrow>
     configured T b cs fin = (List.map_filter (\<lambda>c. ok_option (configure T b c)) cs, fin)"
proof (induction cs)
  case (Cons c cs)
  have "conn_set_nodelay T d c1 \<noteq> (Panic, c2)"
    if "conn_set_read_timeout T t c = (Ok (), c1)" for d c1 c2 t
  proof -
    have "\<not> conn_poisoned c1"
      using that Cons.prems
      by (cases c) (auto simp: conn_views split: if_splits option.splits prod.splits)
    then show ?thesis by (rule conn_options_not_Panic)
  qed
  then have "configure T b c \<noteq> Panic"
    using Cons.prems conn_options_not_Panic(1) [of c T "sb_read_timeout b"]
    by (auto simp: configure_def split: prod.splits res.splits)
  with Cons show ?case by (cases "configure T b c") (simp_all add: ok_option_def List.map_filter_simps)
qed (simp add: List.map_filter_simps)

lemma configure_Ok:
  "tls_law T \<Longrightarrow> configure T b c = Ok c' \<Longrightarrow>
     conn_timeout T c' = sb_read_timeout b \<and>
     conn_nodelay T c' = map_option (\<lambda>_. sb_nodelay b) (conn_nodelay T c) \<and>
     conn_in T c' = conn_in T c \<and> conn_out T c' = conn_out T c"
proof -
  assume T: "tls_law T" and "configure T b c = Ok c'"
  then obtain c1 where c1: "conn_set_read_timeout T (sb_read_timeout b) c = (Ok (), c1)"
    "conn_set_nodelay T (sb_nodelay b) c1 = (Ok (), c')"
    by (auto simp: configure_def split: prod.splits res.splits)
  from conn_set_read_timeout_Ok [OF T c1(1)] conn_set_nodelay_Ok [OF T c1(2)] show ?thesis by simp
qed

section \<open>The three loops over a list of connections\<close>

text \<open>
  \<open>job\<close> is what one connection amounts to; \<open>app_after\<close> the state of the one application after the
  first connections.
\<close>

definition job ::
  "('tls connection \<Rightarrow> 's \<Rightarrow> 'h serve_end \<times> writer \<times> 's) \<Rightarrow> 'tls connection \<Rightarrow> 's \<Rightarrow>
     'tls connection \<times> 'h serve_end \<times> writer" where
  "job f c app = (case f c app of (e, w, app') \<Rightarrow> (c, e, w))"

fun app_after ::
  "(nat \<Rightarrow> 'tls connection \<Rightarrow> 's \<Rightarrow> 'h serve_end \<times> writer \<times> 's) \<Rightarrow> 'tls connection list \<Rightarrow> nat \<Rightarrow> 's \<Rightarrow> 's"
where
  "app_after f cs 0 app = app"
| "app_after f cs (Suc k) app = snd (snd (f k (cs ! k) (app_after f cs k app)))"

definition serves ::
  "nat \<Rightarrow> crates \<Rightarrow> 'b http_body \<Rightarrow> ('b, 'h, 's) service \<Rightarrow> (nat \<Rightarrow> nat \<Rightarrow> bytes) \<Rightarrow> 'tls tls_ops \<Rightarrow>
     nat \<Rightarrow> 'tls connection \<Rightarrow> 's \<Rightarrow> 'h serve_end \<times> writer \<times> 's" where
  "serves fuel E B A clocks T k = serve_conn fuel E B A (clocks k) T"

lemma single_body_serves:
  "single_body fuel E B A clocks T c (log, app) =
     ((log @ [job (serves fuel E B A clocks T (length log)) c app],
       snd (snd (serves fuel E B A clocks T (length log) c app))),
      (let e = fst (serves fuel E B A clocks T (length log) c app)
       in if serve_ended e then None else if e = Panics then Some Crashed else Some Stuck))"
  by (simp add: single_body_def job_def serves_def split: prod.split)

text \<open>\<open>turns f cs app n log\<close>: the log of the first \<open>n\<close> connections, one after the other.\<close>

definition turns ::
  "(nat \<Rightarrow> 'tls connection \<Rightarrow> 's \<Rightarrow> 'h serve_end \<times> writer \<times> 's) \<Rightarrow> 'tls connection list \<Rightarrow> 's \<Rightarrow> nat \<Rightarrow>
     ('tls, 'h) served" where
  "turns f cs app n = map (\<lambda>k. job (f k) (cs ! k) (app_after f cs k app)) [0..<n]"

lemma turns_simps [simp]:
  "length (turns f cs app n) = n"
  "turns f cs app (Suc n) = turns f cs app n @ [job (f n) (cs ! n) (app_after f cs n app)]"
  "k < n \<Longrightarrow> turns f cs app n ! k = job (f k) (cs ! k) (app_after f cs k app)"
  by (simp_all add: turns_def)

definition turn_ends ::
  "(nat \<Rightarrow> 'tls connection \<Rightarrow> 's \<Rightarrow> 'h serve_end \<times> writer \<times> 's) \<Rightarrow> 'tls connection list \<Rightarrow> 's \<Rightarrow> nat \<Rightarrow> bool" where
  "turn_ends f cs app k \<longleftrightarrow> serve_ended (fst (f k (cs ! k) (app_after f cs k app)))"

lemma each_single:
  fixes fuel E B A clocks T
  defines "f \<equiv> serves fuel E B A clocks T"
  assumes "k \<le> length cs" "\<forall>j < k. turn_ends f cs app j"
    and "each (single_body fuel E B A clocks T) (drop k cs) fin (turns f cs app k, app_after f cs k app) =
      ((log, app'), fin')"
  shows "\<exists>n. log = turns f cs app n \<and> app' = app_after f cs n app \<and>
    (n = length cs \<and> fin' = fin \<and> (\<forall>j < n. turn_ends f cs app j) \<or>
     (\<exists>m. n = Suc m \<and> n \<le> length cs \<and> fin' \<in> {Stuck, Crashed} \<and> \<not> turn_ends f cs app m \<and>
        (\<forall>j < m. turn_ends f cs app j)))"
  using assms(2-)
proof (induction "length cs - k" arbitrary: k)
  case 0
  then show ?case by (intro exI [of _ k]) simp
next
  case (Suc d)
  then have k: "k < length cs" by simp
  then have d: "drop k cs = cs ! k # drop (Suc k) cs" by (simp add: Cons_nth_drop_Suc)
  show ?case
  proof (cases "turn_ends f cs app k")
    case True
    with Suc.prems d have "each (single_body fuel E B A clocks T) (drop (Suc k) cs) fin
        (turns f cs app (Suc k), app_after f cs (Suc k) app) = ((log, app'), fin')"
      by (simp add: single_body_serves f_def turn_ends_def)
    moreover have "\<forall>j < Suc k. turn_ends f cs app j" using True Suc.prems(2) by (simp add: less_Suc_eq)
    moreover have "d = length cs - Suc k" "Suc k \<le> length cs" using Suc.hyps(2) k by simp_all
    ultimately show ?thesis using Suc.hyps(1) [of "Suc k"] by blast
  next
    case False
    with Suc.prems d have "log = turns f cs app (Suc k)" "app' = app_after f cs (Suc k) app"
      "fin' \<in> {Stuck, Crashed}"
      by (auto simp: single_body_serves f_def turn_ends_def Let_def split: if_splits)
    with False Suc.prems(2) k show ?thesis by (intro exI [of _ "Suc k"]) auto
  qed
qed

lemma each_pool:
  "each (pool_body fuel E B A clocks T app) cs fin log =
     (log @ map (\<lambda>k. job (serves fuel E B A clocks T (length log + k)) (cs ! k) app) [0..<length cs], fin)"
proof (induction cs arbitrary: log)
  case (Cons c cs)
  have "pool_body fuel E B A clocks T app c log = (log @ [job (serves fuel E B A clocks T (length log)) c app], None)"
    by (simp add: pool_body_def job_def serves_def split: prod.split)
  with Cons.IH [of "log @ [job (serves fuel E B A clocks T (length log)) c app]"] show ?case
    by (simp add: upt_conv_Cons map_Suc_upt [symmetric] del: upt_Suc)
qed simp

text \<open>The connections for which \<^verbatim>\<open>make_service\<close> made an application, with that application.\<close>

definition made ::
  "('b, 'h, 's, 'tls) make_service \<Rightarrow> 'tls connection list \<Rightarrow> ('tls connection \<times> ('b, 'h, 's) service \<times> 's) list"
where
  "made M cs = List.map_filter
     (\<lambda>c. case M c of Inl err \<Rightarrow> None | Inr (A, app) \<Rightarrow> Some (c, A, app)) cs"

definition made_job ::
  "nat \<Rightarrow> crates \<Rightarrow> 'b http_body \<Rightarrow> (nat \<Rightarrow> nat \<Rightarrow> bytes) \<Rightarrow> 'tls tls_ops \<Rightarrow> nat \<Rightarrow>
     'tls connection \<times> ('b, 'h, 's) service \<times> 's \<Rightarrow> 'tls connection \<times> 'h serve_end \<times> writer" where
  "made_job fuel E B clocks T k x = (case x of (c, A, app) \<Rightarrow> job (serves fuel E B A clocks T k) c app)"

lemma each_make:
  "each (make_body fuel E B M clocks T) cs fin log =
     (log @ map (\<lambda>k. made_job fuel E B clocks T (length log + k) (made M cs ! k)) [0..<length (made M cs)], fin)"
proof (induction cs arbitrary: log)
  case (Cons c cs)
  show ?case
  proof (cases "M c")
    case (Inl err)
    with Cons.IH [of log] show ?thesis by (simp add: make_body_def made_def List.map_filter_simps)
  next
    case (Inr x)
    obtain A app where x: "x = (A, app)" by (metis surj_pair)
    let ?j = "made_job fuel E B clocks T (length log) (c, A, app)"
    have "make_body fuel E B M clocks T c log = (log @ [?j], None)"
      using Inr x by (simp add: make_body_def made_job_def job_def serves_def split: prod.split)
    moreover have "made M (c # cs) = (c, A, app) # made M cs"
      using Inr x by (simp add: made_def List.map_filter_simps)
    ultimately show ?thesis using Cons.IH [of "log @ [?j]"]
      by (simp add: upt_conv_Cons map_Suc_upt [symmetric] del: upt_Suc)
  qed
qed (simp add: made_def List.map_filter_simps)

end
