(* ===== verification/Upgrade_Ext.thy ===== *)
theory Upgrade_Ext
  imports Response
begin

text \<open>
  \<^verbatim>\<open>src/upgrade.rs\<close>: the extension slot of a response.  On the server it holds the handler that
  takes the connection over, on the client the connection itself.
\<close>

text \<open>\<^verbatim>\<open>UpgradeHandler\<close> for closures: handling is calling.\<close>

type_synonym ('c, 'r) upgrade_handler = "'c \<Rightarrow> 'r"

definition upgrade_handle :: "('c, 'r) upgrade_handler \<Rightarrow> 'c \<Rightarrow> 'r" where
  "upgrade_handle f stream = f stream"

text \<open>
  \<^verbatim>\<open>Upgrade\<close> for a response and for its builder, which is an error once a part was refused.
\<close>

definition upgrade_response :: "'h \<Rightarrow> ('b, 'h) response \<Rightarrow> ('b, 'h) response" where
  "upgrade_response h res = res\<lparr>rs_upgrade := Some h\<rparr>"

definition upgrade_builder ::
  "'h \<Rightarrow> string + (unit, 'h) response \<Rightarrow> string + (unit, 'h) response" where
  "upgrade_builder h b = map_sum id (\<lambda>parts. parts\<lparr>rs_upgrade := Some h\<rparr>) b"

datatype client_upgrade_error = ConnectionNotUpgradable

text \<open>\<^verbatim>\<open>into_upgraded\<close> takes the connection out of the response.\<close>

definition into_upgraded :: "('b, 'c) response \<Rightarrow> client_upgrade_error + 'c" where
  "into_upgraded res =
     (case rs_upgrade res of Some conn \<Rightarrow> Inr conn | None \<Rightarrow> Inl ConnectionNotUpgradable)"

lemma response_outcome_upgrade:
  "response_outcome E (rs_upgrade (upgrade_response h res)) enc hs = Upgrade h"
  by (simp add: upgrade_response_def response_outcome_def)

end
