(* ===== verification/Utf8.thy ===== *)
theory Utf8
  imports Touche_Prelude
begin

text \<open>
  \<^verbatim>\<open>std::str::from_utf8\<close>: the characters of a byte string, or where and how it stops being UTF-8.
\<close>

section \<open>Decoding\<close>

text \<open>How many bytes a character has that begins with the given byte; 0 for none.\<close>

definition utf8_width :: "byte \<Rightarrow> nat" where
  "utf8_width b =
     (let n = of_char b :: nat in
      if n < 128 then 1
      else if 194 \<le> n \<and> n \<le> 223 then 2
      else if 224 \<le> n \<and> n \<le> 239 then 3
      else if 240 \<le> n \<and> n \<le> 244 then 4
      else 0)"

text \<open>The second byte excludes overlong forms, surrogates and what lies above \<^verbatim>\<open>U+10FFFF\<close>.\<close>

definition second_byte :: "byte \<Rightarrow> byte \<Rightarrow> bool" where
  "second_byte b c =
     (let n = of_char b :: nat; m = of_char c :: nat in
      if n = 224 then 160 \<le> m \<and> m \<le> 191
      else if n = 237 then 128 \<le> m \<and> m \<le> 159
      else if n = 240 then 144 \<le> m \<and> m \<le> 191
      else if n = 244 then 128 \<le> m \<and> m \<le> 143
      else 128 \<le> m \<and> m \<le> 191)"

definition continuation :: "byte \<Rightarrow> bool" where
  "continuation c = (let m = of_char c :: nat in 128 \<le> m \<and> m \<le> 191)"

text \<open>
  The first character and what follows it; otherwise \<^verbatim>\<open>error_len\<close>: the number of bytes that are
  wrong, or \<^term>\<open>None\<close> when the input ends within a character.
\<close>

definition utf8_char :: "bytes \<Rightarrow> nat option + bytes \<times> bytes" where
  "utf8_char bs =
     (case bs of
        [] \<Rightarrow> Inl None
      | b # r1 \<Rightarrow>
          (let w = utf8_width b in
           if w = 0 then Inl (Some 1)
           else if w = 1 then Inr ([b], r1)
           else (case r1 of
               [] \<Rightarrow> Inl None
             | c # r2 \<Rightarrow>
                 if \<not> second_byte b c then Inl (Some 1)
                 else if w = 2 then Inr ([b, c], r2)
                 else (case r2 of
                     [] \<Rightarrow> Inl None
                   | d # r3 \<Rightarrow>
                       if \<not> continuation d then Inl (Some 2)
                       else if w = 3 then Inr ([b, c, d], r3)
                       else (case r3 of
                           [] \<Rightarrow> Inl None
                         | e # r4 \<Rightarrow>
                             if \<not> continuation e then Inl (Some 3)
                             else Inr ([b, c, d, e], r4))))))"

lemma utf8_char_parts: "utf8_char bs = Inr (c, r) \<Longrightarrow> bs = c @ r \<and> c \<noteq> []"
  by (auto simp: utf8_char_def Let_def split: list.splits if_splits)

lemma utf8_char_shorter: "utf8_char bs = Inr (c, r) \<Longrightarrow> length r < length bs"
  by (drule utf8_char_parts) simp

text \<open>The four shapes of a character.\<close>

lemma utf8_charE:
  assumes "utf8_char bs = Inr (c, r)"
  obtains b where "c = [b]" "utf8_width b = 1"
  | b b2 where "c = [b, b2]" "utf8_width b = 2" "second_byte b b2"
  | b b2 b3 where "c = [b, b2, b3]" "utf8_width b = 3" "second_byte b b2" "continuation b3"
  | b b2 b3 b4 where "c = [b, b2, b3, b4]" "utf8_width b \<notin> {0, 1, 2, 3}" "second_byte b b2"
      "continuation b3" "continuation b4"
  using assms by (auto simp: utf8_char_def Let_def split: list.splits if_splits)

lemma utf8_char_prefix: "utf8_char bs = Inr (c, r) \<Longrightarrow> utf8_char (c @ x) = Inr (c, x)"
  by (erule utf8_charE) (simp_all add: utf8_char_def)

text \<open>\<^verbatim>\<open>Utf8Error\<close>: \<^verbatim>\<open>valid_up_to\<close> and \<^verbatim>\<open>error_len\<close>.\<close>

function utf8_chars :: "nat \<Rightarrow> bytes \<Rightarrow> nat \<times> nat option + bytes list" where
  "utf8_chars i bs =
     (if bs = [] then Inr []
      else case utf8_char bs of
        Inl l \<Rightarrow> Inl (i, l)
      | Inr (c, r) \<Rightarrow> map_sum id (\<lambda>cs. c # cs) (utf8_chars (i + length c) r))"
  by pat_completeness auto
termination
  by (relation "measure (\<lambda>(i, bs). length bs)") (auto dest: utf8_char_shorter)

declare utf8_chars.simps [simp del]

definition from_utf8 :: "bytes \<Rightarrow> nat \<times> nat option + bytes list" where
  "from_utf8 bs = utf8_chars 0 bs"

text \<open>\<^verbatim>\<open>Display\<close> of \<^verbatim>\<open>Utf8Error\<close>.\<close>

definition utf8_error_display :: "nat \<times> nat option \<Rightarrow> string" where
  "utf8_error_display e =
     (case e of
        (i, Some n) \<Rightarrow> ''invalid utf-8 sequence of '' @ dec n @ '' bytes from index '' @ dec i
      | (i, None) \<Rightarrow> ''incomplete utf-8 byte sequence from index '' @ dec i)"

section \<open>Characters\<close>

definition utf8_single :: "bytes \<Rightarrow> bool" where
  "utf8_single c \<longleftrightarrow> utf8_char c = Inr (c, [])"

lemma utf8_char_single: "utf8_single c \<Longrightarrow> utf8_char (c @ r) = Inr (c, r)"
  unfolding utf8_single_def by (rule utf8_char_prefix)

lemma utf8_single_char: "utf8_char bs = Inr (c, r) \<Longrightarrow> utf8_single c"
  using utf8_char_prefix [of bs c r "[]"] by (simp add: utf8_single_def)

lemma utf8_single_nonempty: "utf8_single c \<Longrightarrow> c \<noteq> []"
  by (auto simp: utf8_single_def dest: utf8_char_parts)

lemma utf8_chars_concat:
  "list_all utf8_single cs \<Longrightarrow> utf8_chars i (concat cs) = Inr cs"
proof (induction cs arbitrary: i)
  case (Cons c cs)
  then show ?case
    using utf8_char_single [of c "concat cs"] utf8_single_nonempty [of c]
    by (simp add: utf8_chars.simps [of i "c @ concat cs"])
qed (simp add: utf8_chars.simps)

lemma utf8_chars_singles:
  "utf8_chars i bs = Inr cs \<Longrightarrow> concat cs = bs \<and> list_all utf8_single cs"
proof (induction i bs arbitrary: cs rule: utf8_chars.induct)
  case (1 i bs)
  show ?case
  proof (cases "bs = []")
    case True
    with "1.prems" show ?thesis by (simp add: utf8_chars.simps)
  next
    case False
    with "1.prems" obtain c r where c: "utf8_char bs = Inr (c, r)"
      by (cases "utf8_char bs") (auto simp: utf8_chars.simps [of i bs])
    with False "1.prems" obtain ds where "utf8_chars (i + length c) r = Inr ds" "cs = c # ds"
      by (cases "utf8_chars (i + length c) r") (auto simp: utf8_chars.simps [of i bs])
    with "1.IH" [OF False c refl, of ds] utf8_char_parts [OF c] utf8_single_char [OF c]
    show ?thesis by simp
  qed
qed

lemma from_utf8_singles: "from_utf8 bs = Inr cs \<longleftrightarrow> concat cs = bs \<and> list_all utf8_single cs"
  using utf8_chars_concat utf8_chars_singles by (auto simp: from_utf8_def)

end
