(* ===== verification/Example_Apps.thy ===== *)
theory Example_Apps
  imports Server_Builder Upgrade_Ext Utf8
begin

text \<open>
  \<^verbatim>\<open>examples/\<close>: the example programs that need nothing but the library and \<^verbatim>\<open>std\<close>, as applications
  of the model.
\<close>

section \<open>Parts\<close>

text \<open>\<^verbatim>\<open>Response::builder().status(StatusCode::OK).body(b)\<close>.\<close>

definition ok_response :: "'b \<Rightarrow> ('b, 'h) response" where
  "ok_response b = \<lparr>rs_status = 200, rs_version = HTTP_11, rs_headers = [], rs_upgrade = None, rs_body = b\<rparr>"

text \<open>
  The same with header fields.  A refused one makes \<^verbatim>\<open>body\<close> return the error of the \<^verbatim>\<open>http\<close> crate,
  which is what the closure then returns.
\<close>

fun built_headers :: "crates \<Rightarrow> (header_name \<times> bytes) list \<Rightarrow> header_map \<Rightarrow> header_map option" where
  "built_headers E [] h = Some h"
| "built_headers E ((name, v) # hs) h =
     (case c_builder_header E name v h of None \<Rightarrow> None | Some h' \<Rightarrow> built_headers E hs h')"

definition build ::
  "crates \<Rightarrow> string \<Rightarrow> status_code \<Rightarrow> (header_name \<times> bytes) list \<Rightarrow> 'b \<Rightarrow> string + ('b, 'h) response" where
  "build E refused status hs b =
     (case built_headers E hs [] of
        None \<Rightarrow> Inl refused
      | Some h \<Rightarrow> Inr \<lparr>rs_status = status, rs_version = HTTP_11, rs_headers = h, rs_upgrade = None, rs_body = b\<rparr>)"

text \<open>A request that the closure still owns when it returns is dropped with its body.\<close>

definition rest_of_body :: "body request \<Rightarrow> body_fate" where
  "rest_of_body req = (case drop_body (rq_body req) of Some s \<Rightarrow> Dropped s | None \<Rightarrow> Kept)"

text \<open>\<^verbatim>\<open>Display\<close> of an \<^verbatim>\<open>i32\<close>.\<close>

definition show_i32 :: "32 word \<Rightarrow> string" where
  "show_i32 n = (if sint n < 0 then ''-'' @ dec (nat (- sint n)) else dec (nat (sint n)))"

text \<open>The surroundings of a program: what the model of the server takes as parameters.\<close>

record ('p, 'tls) host =
  h_fuel :: nat
  h_crates :: crates
  h_clocks :: "nat \<Rightarrow> nat \<Rightarrow> bytes"
  h_tls :: "'tls tls_ops"
  h_pool_new :: "nat \<Rightarrow> 'p res"
  h_tcp_bind :: "string \<Rightarrow> listener res"

definition host_serve ::
  "('p, 'tls) host \<Rightarrow> 'b http_body \<Rightarrow> ('b, 'h, 's) service \<Rightarrow> 's \<Rightarrow> ('p, 'tls) server res \<Rightarrow>
     (('tls, 'h) served \<times> listen_end) res" where
  "host_serve H B A app srv =
     map_res (\<lambda>srv. serve_pool (h_fuel H) (h_crates H) B A (h_clocks H) (h_tls H) srv app) srv"

section \<open>Closures without state\<close>

text \<open>\<^verbatim>\<open>echo.rs\<close>: the request's body is the response's.\<close>

definition echo_app :: "(body, 'h, unit) service" where
  "echo_app = fn_service (\<lambda>n req. (Inr (ok_response (rq_body req)), InResponse, n))"

definition echo_main :: "('p, 'tls) host \<Rightarrow> (('tls, 'h) served \<times> listen_end) res" where
  "echo_main H = host_serve H (body_impl (h_crates H)) echo_app ()
     (server_bind (h_pool_new H) (h_tcp_bind H) ''0.0.0.0:4444'')"

text \<open>
  \<^verbatim>\<open>hello-world.rs\<close>; \<open>env\<close> is the value of \<^verbatim>\<open>THREADS\<close> when it is set and is Unicode.  \<^verbatim>\<open>usize::from_str\<close>
  takes decimal digits with an optional sign, as long as the number fits.
\<close>

definition digit_value :: "byte \<Rightarrow> nat option" where
  "digit_value c = (let n = of_char c :: nat in if 48 \<le> n \<and> n \<le> 57 then Some (n - 48) else None)"

fun parse_digits :: "bytes \<Rightarrow> nat \<Rightarrow> nat option" where
  "parse_digits [] acc = (if acc < 2 ^ 64 then Some acc else None)"
| "parse_digits (c # cs) acc =
     (case digit_value c of Some d \<Rightarrow> parse_digits cs (10 * acc + d) | None \<Rightarrow> None)"

definition parse_usize :: "bytes \<Rightarrow> nat option" where
  "parse_usize bs =
     (let ds = (case bs of c # cs \<Rightarrow> if c = CHR ''+'' then cs else bs | [] \<Rightarrow> [])
      in if ds = [] then None else parse_digits ds 0)"

definition hello_app :: "(string, 'h, unit) service" where
  "hello_app = fn_service (\<lambda>n req. (Inr (ok_response ''Hello, world!''), rest_of_body req, n))"

definition hello_main :: "string option \<Rightarrow> ('p, 'tls) host \<Rightarrow> (('tls, 'h) served \<times> listen_end) res" where
  "hello_main env H =
     (case (case env of Some threads \<Rightarrow> parse_usize threads | None \<Rightarrow> Some 100) of
        None \<Rightarrow> Panic
      | Some threads \<Rightarrow>
          host_serve H str_impl hello_app ()
            (builder_bind (h_pool_new H) (h_tcp_bind H) ''0.0.0.0:4444''
              (builder_max_threads threads builder_default)))"

text \<open>\<^verbatim>\<open>file.rs\<close>; \<open>fs\<close> is the file system.\<close>

definition file_app :: "(string \<Rightarrow> io_error + os_file) \<Rightarrow> (body, 'h, unit) service" where
  "file_app fs = fn_service (\<lambda>n req.
     (Inr (case body_try_from_path fs ''./examples/file.rs'' of
             Inr file \<Rightarrow> ok_response file
           | Inl _ \<Rightarrow> (ok_response body_empty)\<lparr>rs_status := 404\<rparr>),
      rest_of_body req, n))"

definition file_main ::
  "(string \<Rightarrow> io_error + os_file) \<Rightarrow> ('p, 'tls) host \<Rightarrow> (('tls, 'h) served \<times> listen_end) res" where
  "file_main fs H = host_serve H (body_impl (h_crates H)) (file_app fs) ()
     (server_bind (h_pool_new H) (h_tcp_bind H) ''0.0.0.0:4444'')"

section \<open>Closures with state\<close>

text \<open>
  \<^verbatim>\<open>single-thread.rs\<close> and \<^verbatim>\<open>connection.rs\<close>: an \<^verbatim>\<open>i32\<close> counter, of the program and of a connection.
  It wraps as in a release build.
\<close>

definition counter_app :: "string \<Rightarrow> (string, 'h, 32 word) service" where
  "counter_app label = fn_service (\<lambda>counter req.
     (Inr (ok_response (label @ show_i32 (counter + 1))), rest_of_body req, counter + 1))"

definition single_thread_main ::
  "('p, 'tls) host \<Rightarrow> ((('tls, 'h) served \<times> 32 word) \<times> listen_end) res" where
  "single_thread_main H =
     map_res (\<lambda>srv. serve_single_thread (h_fuel H) (h_crates H) string_impl (counter_app ''Request count: '')
         (h_clocks H) (h_tls H) srv 0)
       (server_bind (h_pool_new H) (h_tcp_bind H) ''0.0.0.0:4444'')"

definition connection_service :: "(string, 'h, 32 word, 'tls) make_service" where
  "connection_service conn = Inr (counter_app ''Requests on this connection: '', 0)"

definition connection_main :: "('p, 'tls) host \<Rightarrow> (('tls, 'h) served \<times> listen_end) res" where
  "connection_main H =
     map_res (\<lambda>srv. serve_make_service (h_fuel H) (h_crates H) string_impl connection_service
         (h_clocks H) (h_tls H) srv)
       (builder_bind (h_pool_new H) (h_tcp_bind H) ''0.0.0.0:4444'' builder_default)"

text \<open>\<^verbatim>\<open>expect-continue.rs\<close>: uploads up to a length are welcome.\<close>

definition EXPECTATION_FAILED :: status_code where "EXPECTATION_FAILED = 417"

record upload_service =
  us_max_length :: nat

definition upload_app :: "crates \<Rightarrow> (string, 'h, upload_service) service" where
  "upload_app E = \<lparr>
     sv_call = (\<lambda>self req. (Inr (ok_response ''Thanks for the info!''), rest_of_body req, self)),
     sv_should_continue = (\<lambda>self req.
       (case get_content_length E (rq_headers req) of
          Some len \<Rightarrow> if len \<le> us_max_length self then CONTINUE else EXPECTATION_FAILED
        | None \<Rightarrow> EXPECTATION_FAILED, self))\<rparr>"

definition upload_main :: "('p, 'tls) host \<Rightarrow> (('tls, 'h) served \<times> listen_end) res" where
  "upload_main H = host_serve H str_impl (upload_app (h_crates H)) \<lparr>us_max_length = 1024\<rparr>
     (server_bind (h_pool_new H) (h_tcp_bind H) ''0.0.0.0:4444'')"

section \<open>Bodies sent by another thread\<close>

text \<open>
  \<^verbatim>\<open>chunked.rs\<close> and \<^verbatim>\<open>trailers.rs\<close>: the thread sends while the body is written, which waits for it; the
  first error ends the thread.  \<open>digest\<close> is the encoded MD5 sum.
\<close>

definition chunked_thread :: "(body_channel, unit) act" where
  "chunked_thread =
     act_then (channel_send ''chunk1'') (act_then (channel_send ''chunk2'') (channel_send ''chunk3''))"

definition chunked_app :: "crates \<Rightarrow> string \<Rightarrow> (body, 'h, unit) service" where
  "chunked_app E refused = fn_service (\<lambda>n req.
     (build E refused 200 [(''X-Content-Type-Options'', ''nosniff'')]
        (channel_body (snd (chunked_thread new_channel))),
      rest_of_body req, n))"

definition chunked_main :: "string \<Rightarrow> ('p, 'tls) host \<Rightarrow> (('tls, 'h) served \<times> listen_end) res" where
  "chunked_main refused H =
     host_serve H (body_impl (h_crates H)) (chunked_app (h_crates H) refused) ()
       (server_bind (h_pool_new H) (h_tcp_bind H) ''0.0.0.0:4444'')"

fun send_consumed :: "string list \<Rightarrow> bytes \<Rightarrow> (body_channel, bytes) act" where
  "send_consumed [] consumed = act_return consumed"
| "send_consumed (chunk # chunks) consumed =
     act_then (channel_send chunk) (send_consumed chunks (consumed @ chunk))"

definition trailers_thread :: "crates \<Rightarrow> (bytes \<Rightarrow> bytes) \<Rightarrow> body_channel \<Rightarrow> body_channel" where
  "trailers_thread E digest ch =
     (case send_consumed [''chunk1'', ''chunk2'', ''chunk3''] [] ch of
        (Ok consumed, ch') \<Rightarrow> snd (channel_send_trailer E ''content-md5'' (digest consumed) ch')
      | (_, ch') \<Rightarrow> ch')"

definition trailers_app :: "crates \<Rightarrow> string \<Rightarrow> (bytes \<Rightarrow> bytes) \<Rightarrow> (body, 'h, unit) service" where
  "trailers_app E refused digest = fn_service (\<lambda>n req.
     (build E refused 200 [(''trailers'', ''content-md5'')]
        (channel_body (trailers_thread E digest new_channel)),
      rest_of_body req, n))"

definition trailers_main ::
  "string \<Rightarrow> (bytes \<Rightarrow> bytes) \<Rightarrow> ('p, 'tls) host \<Rightarrow> (('tls, 'h) served \<times> listen_end) res" where
  "trailers_main refused digest H =
     host_serve H (body_impl (h_crates H)) (trailers_app (h_crates H) refused digest) ()
       (server_bind (h_pool_new H) (h_tcp_bind H) ''0.0.0.0:4444'')"

section \<open>Routes\<close>

text \<open>
  \<^verbatim>\<open>routes.rs\<close>; \<open>path\<close> is \<^verbatim>\<open>Uri::path\<close>.  The body of a request is never the consumed one, for which
  \<^verbatim>\<open>into_bytes\<close> would panic.
\<close>

definition reversed :: "bytes \<Rightarrow> (body, 'h) response" where
  "reversed payload =
     (case from_utf8 payload of
        Inr chars \<Rightarrow> ok_response (body_from_string (concat (rev chars)))
      | Inl err \<Rightarrow> (ok_response (body_from_string (utf8_error_display err)))\<lparr>rs_status := 400\<rparr>)"

definition routes_app :: "crates \<Rightarrow> (uri \<Rightarrow> string) \<Rightarrow> (body, 'h, unit) service" where
  "routes_app E path = fn_service (\<lambda>n req.
     (if path (rq_uri req) = ''/'' then
        (Inr (ok_response (body_from_str (''Usage: curl -d hello localhost:4444/echo'' @ [LF]))), rest_of_body req, n)
      else if rq_method req = ''POST'' \<and> path (rq_uri req) = ''/echo'' then
        (Inr (ok_response (rq_body req)), InResponse, n)
      else if rq_method req = ''POST'' \<and> path (rq_uri req) = ''/reverse'' then
        (case into_bytes E (rq_body req) of
           (r, src) \<Rightarrow>
             (Inr (reversed (case r of Ok payload \<Rightarrow> payload | _ \<Rightarrow> [])),
              (case src of Some s \<Rightarrow> Dropped s | None \<Rightarrow> Kept), n))
      else (Inr ((ok_response body_empty)\<lparr>rs_status := 404\<rparr>), rest_of_body req, n)))"

definition routes_main :: "(uri \<Rightarrow> string) \<Rightarrow> ('p, 'tls) host \<Rightarrow> (('tls, 'h) served \<times> listen_end) res" where
  "routes_main path H = host_serve H (body_impl (h_crates H)) (routes_app (h_crates H) path) ()
     (builder_bind (h_pool_new H) (h_tcp_bind H) ''0.0.0.0:4444'' builder_default)"

section \<open>A protocol of lines\<close>

text \<open>
  \<^verbatim>\<open>upgrade.rs\<close>: every response switches to a protocol that sends each line back.  \<^verbatim>\<open>Lines::next\<close> reads
  up to a line feed, checks the encoding and strips the line ending.
\<close>

datatype line_protocol = LineProtocol

definition line_app :: "crates \<Rightarrow> string \<Rightarrow> (body, line_protocol, unit) service" where
  "line_app E refused = fn_service (\<lambda>n req.
     (map_sum id (upgrade_response LineProtocol)
        (build E refused SWITCHING_PROTOCOLS [(''upgrade'', ''line-protocol'')] body_empty),
      rest_of_body req, n))"

definition strip_eol :: "bytes \<Rightarrow> bytes" where
  "strip_eol line =
     (if line = [] \<or> last line \<noteq> LF then line
      else let l = butlast line in if l \<noteq> [] \<and> last l = CR then butlast l else l)"

function echo_lines :: "stream \<Rightarrow> writer \<Rightarrow> unit res \<times> stream \<times> writer" where
  "echo_lines s w =
     (case read_until LF [] s of
        (Ok n, buf, s') \<Rightarrow>
          if n = 0 then (Ok (), s', w)
          else (case from_utf8 buf of
              Inl _ \<Rightarrow> (Ok (), s', w)
            | Inr _ \<Rightarrow>
                if strip_eol buf = ''quit'' then (Ok (), s', w)
                else (case act_then (write_all (strip_eol buf @ [LF])) flush w of
                    (Ok _, w') \<Rightarrow> echo_lines s' w'
                  | (_, w') \<Rightarrow> (Panic, s', w')))
      | (_, buf, s') \<Rightarrow> (Ok (), s', w))"
  by pat_completeness auto
termination
  by (relation "measure (\<lambda>(s, w). stream_size s)") (auto dest: read_until_less [OF sym])

declare echo_lines.simps [simp del]

text \<open>The handler: the reader is a clone of the connection, the writer flushes when it is dropped.\<close>

definition line_handler :: "'tls tls_ops \<Rightarrow> line_protocol \<Rightarrow> 'tls connection \<Rightarrow> unit res \<times> 'tls connection" where
  "line_handler T handler conn =
     (case conn_clone conn of
        Ok stream \<Rightarrow>
          (case echo_lines (conn_in T stream) (conn_out T stream) of
             (r, s, w) \<Rightarrow> (r, conn_with T (socket_after (conn_in T stream) s) (drop_writer w) conn))
      | _ \<Rightarrow> (Panic, conn))"

definition line_main :: "string \<Rightarrow> ('p, 'tls) host \<Rightarrow> (('tls, line_protocol) served \<times> listen_end) res" where
  "line_main refused H =
     host_serve H (body_impl (h_crates H)) (line_app (h_crates H) refused) ()
       (server_bind (h_pool_new H) (h_tcp_bind H) ''0.0.0.0:4444'')"

end
