(* ===== verification/Server_Properties.thy ===== *)
theory Server_Properties
  imports Server_Pipeline Reader_Returned Example_Apps Reference_Crates
begin

text \<open>
  The properties of the connection loop \<^verbatim>\<open>serve\<close>.
\<close>

section \<open>Example applications\<close>

text \<open>A closure that counts its requests and answers with the uri, dropping the request's body.\<close>

definition uri_app :: "(body, unit, nat) service" where
  "uri_app = fn_service (\<lambda>n req. (Inr (ok_response (body_from_string (rq_uri req))), rest_of_body req, Suc n))"

section \<open>The loop\<close>

text \<open>
  C2: The read queue is transparent: for every connection, application and fuel, \<^verbatim>\<open>serve\<close> computes
  what the plain loop computes in which one reader goes from request to request.
\<close>

theorem serve_is_pipe:
  "serve fuel E B A clock conn w app = pipe_loop fuel E B A clock (pipe_init conn w app)"
  by (rule serve_pipe)


definition get_request :: "uri \<Rightarrow> body request" where
  "get_request u = \<lparr>rq_method = ''GET'', rq_uri = u, rq_version = HTTP_11, rq_headers = [], rq_body = body_empty\<rparr>"

definition get_text :: "uri \<Rightarrow> bytes" where
  "get_text u = ''GET '' @ u @ '' HTTP/1.1'' @ crlf @ crlf"

lemma get_carries:
  assumes "line_ok (''GET '' @ u @ '' HTTP/1.1'')" "ref_parse_request (get_text u) =
    Inr \<lparr>pr_method = Some ''GET'', pr_path = Some u, pr_version = Some 1, pr_headers = []\<rparr>" "u \<noteq> []"
  shows "carries ref_crates (get_text u) (get_request u)"
proof -
  have "split_head [] (get_text u @ rest) = (get_text u, rest)" for rest
    using split_head_lines [of "[''GET '' @ u @ '' HTTP/1.1'']" "[]" rest] assms(1)
    by (simp add: get_text_def head_text_def)
  moreover have "request_head ref_crates (get_text u) = Inr (''GET'', u, HTTP_11, [])"
    using assms(2,3)
    by (simp add: request_head_def ref_crates_def nonempty_def builder_headers_def get_text_def)
  moreover have "request_body_bytes ref_crates [] rest = (Inr AEmpty, Some rest)" for rest
    by (simp add: request_body_bytes_def ref_crates_def ref_transfer_encoding_def ref_content_length_def)
  ultimately show ?thesis
    by (simp add: carries_def parse_request_bytes_def get_request_def abs_request_def body_empty_def)
qed

lemma two_gets_carried: "list_all2 (carries ref_crates) [get_text ''/a'', get_text ''/b''] [get_request ''/a'', get_request ''/b'']"
proof -
  have "line_ok (''GET '' @ ''/a'' @ '' HTTP/1.1'')" "line_ok (''GET '' @ ''/b'' @ '' HTTP/1.1'')" by code_simp+
  moreover have "ref_parse_request (get_text ''/a'') =
      Inr \<lparr>pr_method = Some ''GET'', pr_path = Some ''/a'', pr_version = Some 1, pr_headers = []\<rparr>"
    "ref_parse_request (get_text ''/b'') =
      Inr \<lparr>pr_method = Some ''GET'', pr_path = Some ''/b'', pr_version = Some 1, pr_headers = []\<rparr>"
    by code_simp+
  ultimately show ?thesis using get_carries [of "''/a''"] get_carries [of "''/b''"] by simp
qed

definition two_gets :: bytes where
  "two_gets = get_text ''/a'' @ get_text ''/b''"

text \<open>The requests cut in the middle of the first: the two answers in order, then the end.\<close>

definition uri_answer :: "bytes \<Rightarrow> bytes" where
  "uri_answer u = ''HTTP/1.1 200 OK'' @ crlf @ ''date: now'' @ crlf @ ''content-length: 2'' @ crlf @ crlf @ u"


text \<open>
  C6: The connection loop ends for every connection script, faults included, every writer and every
  application that does not make the connection longer; a fuel larger than the size of the script
  is enough, and more does not change the result.
\<close>

theorem serve_terminates:
  assumes "honest body_owner A" "Suc (stream_size conn) < fuel"
  shows "fst (serve fuel E (body_impl E) A clock conn w app) \<noteq> OutOfFuel \<and>
    serve (fuel + k) E (body_impl E) A clock conn w app = serve fuel E (body_impl E) A clock conn w app"
proof -
  have "fst (serve fuel E (body_impl E) A clock conn w app) \<noteq> OutOfFuel"
    by (rule body_sourced.serve_ends [OF assms])
  then show ?thesis by (simp add: serve_pipe pipe_loop_fuel)
qed

lemma rest_of_body_le:
  "body_owner (rq_body req) = Some t \<Longrightarrow> rest_of_body req = Dropped s \<Longrightarrow> stream_size s \<le> stream_size t"
  using drop_body_source_le [of "rq_body req"] by (auto simp: rest_of_body_def split: option.splits)

lemma rest_of_body_not_InResponse [simp]: "rest_of_body req \<noteq> InResponse"
  by (simp add: rest_of_body_def split: option.split)

lemma uri_app_honest: "honest body_owner uri_app"
  by (auto simp: honest_def uri_app_def fn_service_def rest_of_body_le split: body_fate.split)

lemma echo_app_honest: "honest body_owner echo_app"
  by (auto simp: honest_def echo_app_def fn_service_def ok_response_def)

definition broken_conn :: stream where
  "broken_conn = [Fault Interrupted, Avail (take 30 two_gets), Fault (OsError 104)]"

theorem serve_terminates_witness:
  "fst (serve 40 ref_crates (body_impl ref_crates) (echo_app :: (body, unit, unit) service) (\<lambda>n. ''now'') broken_conn new_writer ()) \<noteq> OutOfFuel"
proof -
  have "Suc (stream_size broken_conn) < 40" by code_simp
  from serve_terminates [OF echo_app_honest this, of ref_crates _ _ _ 0] show ?thesis by simp
qed



text \<open>
  C8: The connection's reader is never lost: an application that drops the body of each request, or returns
  a body that owns the reader in its response, never makes the loop wait for a reader that does
  not come, whatever the connection does and whatever the response and its framing are.
\<close>

theorem serve_never_waits:
  assumes "releases body_owner A"
  shows "fst (serve fuel E (body_impl E) A clock conn w app) \<noteq> WaitsForever"
  by (rule body_returning.serve_returned [OF assms])

lemma rest_of_body_releases:
  "rest_of_body req = Kept \<Longrightarrow> body_owner (rq_body req) = None"
  using drop_body_alike [of "rq_body req"] by (auto simp: rest_of_body_def owns_alike_def split: option.splits)

theorem serve_never_waits_witness:
  "fst (serve 40 ref_crates (body_impl ref_crates) uri_app (\<lambda>n. ''now'') broken_conn (new_writer\<lparr>w_cap := Some 5\<rparr>) 0) \<noteq> WaitsForever"
proof -
  have "releases body_owner uri_app"
    using rest_of_body_releases
    by (auto simp: releases_def uri_app_def fn_service_def split: body_fate.split)
  then show ?thesis by (rule serve_never_waits)
qed

section \<open>One answer\<close>

text \<open>
  C12: On a healthy connection the answer to a request is exactly the head of the application's
  response, with the request's version and the added headers, followed by its body as the
  announced framing sends it (or by nothing after \<^verbatim>\<open>HEAD\<close> and a refused \<^verbatim>\<open>CONNECT\<close>); and the loop goes on,
  breaks or hands over as the response's outcome and the request's headers demand.
\<close>

theorem answer_is_exact:
  assumes "sv_call A app req = (Inr res0, fate, app')" "res = prepare_response E now (rq_version req)
      (connection_has E ''keep-alive'' (rq_headers req)) res0"
    and "response_plan E (body_len (rs_body res0)) res = Ok (enc, h)"
    and "body_good E (rs_body res0)" "body_exact (rs_body res0)" "w_cap w = None"
  shows "\<exists>given w'. answer_request E (body_impl E) A now req w app =
      (next_control E req (response_outcome E (rs_upgrade res0) enc h), given, w', app') \<and>
    w_out w' = w_out w @ response_text E res h @
      (if should_write_body (rq_method req) (rs_status res0)
       then body_wire E (body_impl E) (body_content E) enc (rs_body res0) else []) \<and> w_cap w' = None"
  unfolding assms(2)
  by (rule body_chunks.answer_request_healthy [OF assms(1)])
    (use assms in \<open>simp_all add: body_impl_def\<close>)

definition uri_headers :: header_map where
  "uri_headers = [(''date'', ''now''), (''content-length'', ''2'')]"

theorem answer_is_exact_witness:
  "\<exists>given w'. answer_request ref_crates (body_impl ref_crates) uri_app ''now'' (get_request ''/a'') new_writer 0 =
      (Continue, given, w', 1) \<and>
    w_out w' = ''HTTP/1.1 200 OK'' @ crlf @ ''date: now'' @ crlf @ ''content-length: 2'' @ crlf @ crlf @ ''/a''"
proof -
  let ?raw = "ok_response (body_from_string ''/a'') :: (body, unit) response"
  let ?res = "prepare_response ref_crates ''now'' (rq_version (get_request ''/a''))
    (connection_has ref_crates ''keep-alive'' (rq_headers (get_request ''/a''))) ?raw"
  have call: "sv_call uri_app 0 (get_request ''/a'') = (Inr ?raw, rest_of_body (get_request ''/a''), 1)"
    by (simp add: uri_app_def fn_service_def get_request_def)
  have plan: "response_plan ref_crates (body_len (rs_body ?raw)) ?res = Ok (FixedLength 2, uri_headers)"
    by code_simp
  have good: "body_good ref_crates (rs_body ?raw)" "body_exact (rs_body ?raw)" "w_cap new_writer = None"
    by code_simp+
  have ctl: "next_control ref_crates (get_request ''/a'') (response_outcome ref_crates (rs_upgrade ?raw) (FixedLength 2) uri_headers) = Continue"
    by code_simp
  have out: "w_out new_writer @ response_text ref_crates ?res uri_headers @
      (if should_write_body (rq_method (get_request ''/a'')) (rs_status ?raw)
       then body_wire ref_crates (body_impl ref_crates) (body_content ref_crates) (FixedLength 2) (rs_body ?raw) else []) =
     ''HTTP/1.1 200 OK'' @ crlf @ ''date: now'' @ crlf @ ''content-length: 2'' @ crlf @ crlf @ ''/a''"
    by code_simp
  from answer_is_exact [OF call refl plan good] show ?thesis unfolding ctl out by blast
qed

section \<open>Expectations\<close>

text \<open>
  C34: A request that expects \<^verbatim>\<open>100-continue\<close> gets exactly the interim response with the status that the
  application chooses, flushed before anything else happens.  When that is \<^verbatim>\<open>100\<close> the application is
  called with the request; otherwise it is not called, the body is dropped and the connection stays open.
\<close>

theorem expectation_handled:
  assumes "empty_headers_law E" "w_cap w = None" "expects_continue E (rq_headers req)"
    and "sv_should_continue A app req = (status, app')"
    and "w' = w\<lparr>w_out := w_out w @ interim_text E status,
      w_flushed := length (w_out w @ interim_text E status)\<rparr>"
  shows "handle_request E B A now req w app =
    (if status = CONTINUE then answer_request E B A now req w' app'
     else (Continue, drop_body (rq_body req), w', app'))"
proof (cases "status = CONTINUE")
  case True
  with assms(4) have "sv_should_continue A app req = (CONTINUE, app')" by simp
  from handle_request_continued [OF assms(1-3) this, of B now] True assms(5) show ?thesis by simp
next
  case False
  from handle_request_refused [OF assms(1-4) False, of B now] False assms(5) show ?thesis by simp
qed

definition expecting :: "body request" where
  "expecting = \<lparr>rq_method = ''POST'', rq_uri = ''/a'', rq_version = HTTP_11, rq_headers = [(''expect'', ''100-continue'')],
     rq_body = body_from_reader [Avail ''abcd''] (Some 2)\<rparr>"

definition refusing_app :: "(body, unit, nat) service" where
  "refusing_app = uri_app\<lparr>sv_should_continue := (\<lambda>n req. (417, n))\<rparr>"

theorem expectation_handled_witness:
  "handle_request ref_crates (body_impl ref_crates) refusing_app ''now'' expecting new_writer 0 =
     (Continue, Some [Avail ''cd''],
      \<lparr>w_out = ''HTTP/1.1 417 Expectation Failed'' @ crlf @ ''content-length: 0'' @ crlf @ crlf,
        w_flushed = 54, w_cap = None\<rparr>, 0)"
proof -
  have "interim_text ref_crates 417 = ''HTTP/1.1 417 Expectation Failed'' @ crlf @ ''content-length: 0'' @ crlf @ crlf"
    by code_simp
  moreover have "expects_continue ref_crates (rq_headers expecting)" by code_simp
  moreover have "drop_body (rq_body expecting) = Some [Avail ''cd'']" by code_simp
  ultimately show ?thesis
    using expectation_handled [OF ref_empty_headers_law, of new_writer expecting refusing_app 0 417 0]
    by (simp add: refusing_app_def new_writer_def CONTINUE_def crlf_def)
qed

text \<open>
  C38: A body of less than 1024 bytes is read before the interim response is written: a client that
  announces one, expects \<^verbatim>\<open>100-continue\<close> and waits for the answer gets none, and the connection ends
  with an error.
\<close>

theorem small_body_before_interim:
  assumes "quiet conn" "split_head [] (bytes_of conn) = (head, [])" "request_head E head = Inr (m, u, ver, h)"
    and "c_transfer_encoding E h = Inr None" "c_content_length E h = Inr (Some len)" "0 < len" "len < 1024"
  shows "serve (Suc fuel) E B A clock conn w app =
    (Returned (Err (Other ''io error'')), drop_writer w, app)"
proof -
  have "parse_request_bytes E (bytes_of conn) = (Inl (Io UnexpectedEof), Some [])"
    using assms(2-7) by (simp add: parse_request_bytes_def request_body_bytes_def)
  from serve_answer_all [of E "[]" "[]" conn "bytes_of conn", OF _ assms(1) _ this, of "Suc fuel" B A clock w app]
  show ?thesis by (simp add: parse_failure_def forgetting_Returned)
qed

definition waiting_client :: stream where
  "waiting_client = [Avail (''POST /a HTTP/1.1'' @ crlf @ ''expect: 100-continue'' @ crlf @ ''content-length: 5'' @ crlf @ crlf)]"

theorem small_body_before_interim_witness:
  "serve 1 ref_crates (body_impl ref_crates) uri_app (\<lambda>n. ''now'') waiting_client new_writer 0 =
     (Returned (Err (Other ''io error'')), new_writer, 0)"
proof -
  have q: "quiet waiting_client" by code_simp
  have split: "split_head [] (bytes_of waiting_client) = (bytes_of waiting_client, [])" by code_simp
  have head: "request_head ref_crates (bytes_of waiting_client) =
      Inr (''POST'', ''/a'', HTTP_11, [(''expect'', ''100-continue''), (''content-length'', ''5'')])" by code_simp
  have te: "c_transfer_encoding ref_crates [(''expect'', ''100-continue''), (''content-length'', ''5'')] = Inr None"
    by code_simp
  have cl: "c_content_length ref_crates [(''expect'', ''100-continue''), (''content-length'', ''5'')] = Inr (Some 5)"
    by code_simp
  have "drop_writer new_writer = new_writer" by code_simp
  with small_body_before_interim [OF q split head te cl, of 0 "body_impl ref_crates" uri_app "\<lambda>n. ''now''" new_writer 0]
  show ?thesis by simp
qed

text \<open>
  C39: A refused \<^verbatim>\<open>CONNECT\<close> is answered with a head that announces the length of a body which is never
  written, although the connection is kept; a successful one is answered with a body.
\<close>

theorem refused_connect_desynchronises:
  assumes "rq_method req = ''CONNECT''" "rq_version req = HTTP_11" "\<not> is_success (rs_status res0)"
    and "\<not> connection_has E ''close'' (rq_headers req)"
    and "sv_call A app req = (Inr res0, fate, app')" "rs_upgrade res0 = None"
    and "res = prepare_response E now HTTP_11 (connection_has E ''keep-alive'' (rq_headers req)) res0"
    and "response_plan E (body_len (rs_body res0)) res = Ok (FixedLength (Suc n), h)"
    and "\<not> connection_has E ''close'' h" "body_good E (rs_body res0)" "body_exact (rs_body res0)" "w_cap w = None"
  shows "\<exists>given w'. answer_request E (body_impl E) A now req w app = (Continue, given, w', app') \<and>
    w_out w' = w_out w @ response_text E res h"
proof -
  have ctl: "next_control E req (response_outcome E (rs_upgrade res0) (FixedLength (Suc n)) h) = Continue"
    using assms(2,4,6,9)
    by (simp add: next_control_def response_outcome_def demands_close_def)
  have body: "\<not> should_write_body (rq_method req) (rs_status res0)"
    using assms(1,3) by (simp add: should_write_body_def)
  have plan: "response_plan E (hb_len (body_impl E) (rs_body res0))
      (prepare_response E now (rq_version req) (connection_has E ''keep-alive'' (rq_headers req)) res0) =
      Ok (FixedLength (Suc n), h)"
    using assms(2,7,8) by (simp add: body_impl_def)
  from body_chunks.answer_request_healthy [OF assms(5) plan _ assms(12)] assms(2,7,10,11) ctl body
  show ?thesis by auto
qed

definition connect_request :: "body request" where
  "connect_request = (get_request ''a:443'')\<lparr>rq_method := ''CONNECT''\<rparr>"

definition denying_app :: "(body, unit, unit) service" where
  "denying_app = fn_service (\<lambda>n req. (Inr ((ok_response (body_from_str ''no''))\<lparr>rs_status := 400\<rparr>), Kept, n))"

theorem refused_connect_desynchronises_witness:
  "\<exists>given w'. answer_request ref_crates (body_impl ref_crates) denying_app ''now'' connect_request new_writer () =
      (Continue, given, w', ()) \<and>
    w_out w' = ''HTTP/1.1 400 Bad Request'' @ crlf @ ''date: now'' @ crlf @ ''content-length: 2'' @ crlf @ crlf"
proof -
  let ?raw = "(ok_response (body_from_str ''no'') :: (body, unit) response)\<lparr>rs_status := 400\<rparr>"
  let ?res = "prepare_response ref_crates ''now'' HTTP_11 (connection_has ref_crates ''keep-alive'' (rq_headers connect_request)) ?raw"
  have call: "sv_call denying_app () connect_request = (Inr ?raw, Kept, ())"
    by (simp add: denying_app_def fn_service_def)
  have plan: "response_plan ref_crates (body_len (rs_body ?raw)) ?res = Ok (FixedLength (Suc 1), uri_headers)"
    by code_simp
  have req: "rq_method connect_request = ''CONNECT''" "rq_version connect_request = HTTP_11"
    "\<not> is_success (rs_status ?raw)" "\<not> connection_has ref_crates ''close'' (rq_headers connect_request)"
    by code_simp+
  have res: "\<not> connection_has ref_crates ''close'' uri_headers" "body_good ref_crates (rs_body ?raw)"
    "body_exact (rs_body ?raw)" "w_cap new_writer = None" "rs_upgrade ?raw = None"
    by code_simp+
  have out: "w_out new_writer @ response_text ref_crates ?res uri_headers =
      ''HTTP/1.1 400 Bad Request'' @ crlf @ ''date: now'' @ crlf @ ''content-length: 2'' @ crlf @ crlf"
    by code_simp
  from refused_connect_desynchronises [OF req call res(5) refl plan res(1-4)] show ?thesis unfolding out .
qed

end
