(* ===== verification/Read_Queue_System.thy ===== *)
theory Read_Queue_System
  imports Read_Queue
begin

text \<open>
  The read queue with all its readers at once: any number of requests in flight, their readers
  used and dropped in any order by any thread.  The steps are the operations of
  \<^verbatim>\<open>src/read_queue.rs\<close> that do not wait; the invariant says where the one connection reader is.
\<close>

section \<open>Steps\<close>

text \<open>Readers are numbered in the order of their creation; a dropped one is \<^term>\<open>None\<close>.\<close>

record 'r rq_sys =
  sys_queue :: "'r read_queue option"
  sys_readers :: "'r queued_reader option list"
  sys_chans :: "'r chans"

definition rq_init :: "'r \<Rightarrow> 'r rq_sys" where
  "rq_init r = \<lparr>sys_queue = Some (rq_new r), sys_readers = [], sys_chans = []\<rparr>"

text \<open>Each step is labelled with what it does to the connection reader.\<close>

inductive rq_step :: "('r \<Rightarrow> 'r) \<Rightarrow> 'r rq_sys \<Rightarrow> 'r rq_sys \<Rightarrow> bool" where
  enqueue: "sys_queue s = Some q \<Longrightarrow> enqueue q (sys_chans s) = (rd, q', st') \<Longrightarrow>
     rq_step id s (s\<lparr>sys_queue := Some q', sys_readers := sys_readers s @ [Some rd], sys_chans := st'\<rparr>)"
| use: "i < length (sys_readers s) \<Longrightarrow> sys_readers s ! i = Some rd \<Longrightarrow>
     qr_read (\<lambda>r. ((), f r)) rd (sys_chans s) = Done ((), rd', st') \<Longrightarrow>
     rq_step f s (s\<lparr>sys_readers := (sys_readers s)[i := Some rd'], sys_chans := st'\<rparr>)"
| drop: "i < length (sys_readers s) \<Longrightarrow> sys_readers s ! i = Some rd \<Longrightarrow>
     qr_drop rd (sys_chans s) = Done st' \<Longrightarrow>
     rq_step id s (s\<lparr>sys_readers := (sys_readers s)[i := None], sys_chans := st'\<rparr>)"
| close: "sys_queue s = Some q \<Longrightarrow>
     rq_step id s (s\<lparr>sys_queue := None, sys_chans := rq_drop q (sys_chans s)\<rparr>)"

text \<open>
  \<open>rq_reachable r s v\<close>: from the queue over \<open>r\<close> the system can get to \<open>s\<close> by steps that make \<open>v\<close> of
  the connection reader.
\<close>

inductive rq_reachable :: "'r \<Rightarrow> 'r rq_sys \<Rightarrow> 'r \<Rightarrow> bool" for r where
  init: "rq_reachable r (rq_init r) r"
| step: "rq_reachable r s v \<Longrightarrow> rq_step f s t \<Longrightarrow> rq_reachable r t (f v)"

section \<open>The invariant\<close>

text \<open>
  \<open>baton s p h\<close>: all readers before \<open>p\<close> are dropped, all others live; the connection reader is
  with reader \<open>p\<close> (\<open>\<not> h\<close>) or in the channel in front of it (\<open>h\<close>); later readers wait for their
  predecessor.  When every reader is dropped, \<open>p\<close> is their number and the channel is the queue's.
\<close>

definition readers_at :: "'r rq_sys \<Rightarrow> nat \<Rightarrow> bool \<Rightarrow> 'r \<Rightarrow> bool" where
  "readers_at s p h v \<longleftrightarrow>
     (\<forall>i < length (sys_readers s).
        if i < p then sys_readers s ! i = None
        else if i = p \<and> \<not> h then
          sys_readers s ! i = Some \<lparr>qr_reader = Some (Current v), qr_next = i\<rparr>
        else sys_readers s ! i = Some \<lparr>qr_reader = Some (Waiting (i - 1)), qr_next = i\<rparr>)"

definition msgs_at :: "'r rq_sys \<Rightarrow> nat \<Rightarrow> bool \<Rightarrow> 'r \<Rightarrow> bool" where
  "msgs_at s p h v \<longleftrightarrow>
     (\<forall>c < length (sys_chans s). msgs (sys_chans s ! c) = (if h \<and> Suc c = p then [v] else []))"

definition ends_at :: "'r rq_sys \<Rightarrow> nat \<Rightarrow> bool" where
  "ends_at s p \<longleftrightarrow>
     (\<forall>c < length (sys_chans s). p \<le> c \<longrightarrow>
        tx_live (sys_chans s ! c) \<and>
        rx_live (sys_chans s ! c) = (Suc c < length (sys_readers s) \<or> sys_queue s \<noteq> None))"

definition queue_at :: "'r rq_sys \<Rightarrow> nat \<Rightarrow> bool \<Rightarrow> 'r \<Rightarrow> bool" where
  "queue_at s p h v \<longleftrightarrow>
     (let n = length (sys_readers s) in
      length (sys_chans s) = n \<and> p \<le> n \<and>
      (h \<longrightarrow> 0 < p \<and> (p < n \<or> sys_queue s \<noteq> None)) \<and>
      (\<forall>q. sys_queue s = Some q \<longrightarrow>
         (if n = 0 then q = Head v else q = Next (n - 1) \<and> (p = n \<longrightarrow> h))))"

definition baton :: "'r rq_sys \<Rightarrow> nat \<Rightarrow> bool \<Rightarrow> 'r \<Rightarrow> bool" where
  "baton s p h v \<longleftrightarrow> readers_at s p h v \<and> msgs_at s p h v \<and> ends_at s p \<and> queue_at s p h v"

lemmas baton_parts = readers_at_def msgs_at_def ends_at_def queue_at_def Let_def

lemma baton_init: "baton (rq_init r) 0 False r"
  by (simp add: baton_def baton_parts rq_init_def rq_new_def)

lemma baton_length: "baton s p h v \<Longrightarrow> length (sys_chans s) = length (sys_readers s)"
  by (simp add: baton_def queue_at_def Let_def)

text \<open>What a live reader looks like: \<open>p\<close> has the connection reader or can receive it, later
  ones wait on an open, empty channel.\<close>

lemma baton_live:
  assumes "baton s p h v" "i < length (sys_readers s)" "sys_readers s ! i = Some rd"
  shows "qr_next rd = i \<and>
    (i = p \<and> \<not> h \<and> qr_reader rd = Some (Current v) \<or>
     i = p \<and> h \<and> 0 < p \<and> qr_reader rd = Some (Waiting (p - 1)) \<and>
       msgs (sys_chans s ! (p - 1)) = [v] \<or>
     p < i \<and> qr_reader rd = Some (Waiting (i - 1)) \<and> msgs (sys_chans s ! (i - 1)) = [] \<and>
       tx_live (sys_chans s ! (i - 1)))"
proof -
  have r: "readers_at s p h v" and m: "msgs_at s p h v" and e: "ends_at s p" and q: "queue_at s p h v"
    using assms(1) by (simp_all add: baton_def)
  have len: "length (sys_chans s) = length (sys_readers s)" and h: "h \<Longrightarrow> 0 < p"
    using q by (simp_all add: queue_at_def Let_def)
  note ri = r [unfolded readers_at_def, rule_format, OF assms(2)]
  have "\<not> i < p" using ri assms(3) by auto
  then consider "i = p" "\<not> h" | "i = p" "h" | "p < i" by linarith
  then show ?thesis
  proof cases
    case 1
    with ri assms(3) show ?thesis by auto
  next
    case 2
    with h have "0 < p" "p - 1 < length (sys_chans s)" "Suc (p - 1) = p" using assms(2) len by simp_all
    with m 2 have "msgs (sys_chans s ! (p - 1)) = [v]" by (simp add: msgs_at_def)
    with 2 ri assms(3) \<open>0 < p\<close> show ?thesis by (auto simp: length_Suc_conv)
  next
    case 3
    then have "i - 1 < length (sys_chans s)" "p \<le> i - 1" "Suc (i - 1) \<noteq> p" using assms(2) len by simp_all
    with m e have "msgs (sys_chans s ! (i - 1)) = []" "tx_live (sys_chans s ! (i - 1))"
      by (auto simp: msgs_at_def ends_at_def)
    with 3 ri assms(3) show ?thesis by auto
  qed
qed

lemma baton_read:
  assumes "baton s p h v" "i < length (sys_readers s)" "sys_readers s ! i = Some rd"
  shows "qr_read f rd (sys_chans s) \<noteq> Panicked"
    and "(\<exists>x. qr_read f rd (sys_chans s) = Done x) \<longleftrightarrow> i = p"
    and "qr_drop rd (sys_chans s) \<noteq> Panicked"
    and "(\<exists>st. qr_drop rd (sys_chans s) = Done st) \<longleftrightarrow> i = p"
  using baton_live [OF assms] by (auto simp: qr_read_def qr_drop_def recv_def split: prod.splits)

text \<open>What reading gives when it is a reader's turn: the connection reader as it was left.\<close>

lemma baton_read_value:
  assumes "baton s p h v" "p < length (sys_readers s)" "sys_readers s ! p = Some rd"
  shows "\<exists>rd' st'. qr_read g rd (sys_chans s) = Done (fst (g v), rd', st')"
  using baton_live [OF assms] by (auto simp: qr_read_def recv_def split: prod.splits)

section \<open>Preservation\<close>

lemma baton_enqueue:
  assumes b: "baton s p h v" and q: "sys_queue s = Some q"
    and e: "enqueue q (sys_chans s) = (rd, q', st')"
  shows "baton (s\<lparr>sys_queue := Some q', sys_readers := sys_readers s @ [Some rd], sys_chans := st'\<rparr>) p h v"
proof -
  let ?n = "length (sys_readers s)"
  have len: "length (sys_chans s) = ?n" and pn: "p \<le> ?n" and h: "h \<longrightarrow> 0 < p"
    and qq: "if ?n = 0 then q = Head v else q = Next (?n - 1) \<and> (p = ?n \<longrightarrow> h)"
    using b q by (simp_all add: baton_def queue_at_def Let_def)
  have st': "st' = sys_chans s @ [\<lparr>msgs = [], tx_live = True, rx_live = True\<rparr>]" and q': "q' = Next ?n"
    and rd: "if ?n = 0 then rd = \<lparr>qr_reader = Some (Current v), qr_next = 0\<rparr>
      else rd = \<lparr>qr_reader = Some (Waiting (?n - 1)), qr_next = ?n\<rparr>"
    using e qq len by (auto simp: enqueue_def channel_def split: if_splits)
  show ?thesis
    unfolding baton_def
  proof (intro conjI, goal_cases)
    case 1
    show ?case
    proof (cases "?n = 0")
      case True
      with b pn h rd show ?thesis by (auto simp: baton_def readers_at_def)
    next
      case False
      with rd have "rd = \<lparr>qr_reader = Some (Waiting (?n - 1)), qr_next = ?n\<rparr>" by simp
      with b pn False qq show ?thesis
        by (auto simp: baton_def readers_at_def nth_append less_Suc_eq)
    qed
  next
    case 2
    from b pn h len show ?case
      by (auto simp: baton_def msgs_at_def st' nth_append less_Suc_eq)
  next
    case 3
    from b q len show ?case
      by (auto simp: baton_def ends_at_def st' nth_append less_Suc_eq)
  next
    case 4
    from b q len pn h show ?case
      by (auto simp: baton_def queue_at_def Let_def st' q')
  qed
qed

lemma baton_close:
  assumes b: "baton s p h v" and q: "sys_queue s = Some q"
  shows "\<exists>h'. baton (s\<lparr>sys_queue := None, sys_chans := rq_drop q (sys_chans s)\<rparr>) p h' v"
proof -
  let ?n = "length (sys_readers s)"
  let ?h = "h \<and> p < ?n"
  have len: "length (sys_chans s) = ?n" and pn: "p \<le> ?n" and h: "h \<longrightarrow> 0 < p"
    and qq: "if ?n = 0 then q = Head v else q = Next (?n - 1) \<and> (p = ?n \<longrightarrow> h)"
    using b q by (simp_all add: baton_def queue_at_def Let_def)
  have "baton (s\<lparr>sys_queue := None, sys_chans := rq_drop q (sys_chans s)\<rparr>) p ?h v"
    unfolding baton_def
  proof (intro conjI, goal_cases)
    case 1
    from b pn show ?case by (auto simp: baton_def readers_at_def)
  next
    case 2
    from b len pn qq show ?case
      by (auto simp: baton_def msgs_at_def rq_drop_def drop_receiver_def nth_list_update split: if_splits)
  next
    case 3
    from b q len pn qq show ?case
      by (auto simp: baton_def ends_at_def rq_drop_def drop_receiver_def nth_list_update split: if_splits)
  next
    case 4
    from b q len pn h qq show ?case
      by (auto simp: baton_def queue_at_def Let_def rq_drop_def drop_receiver_def split: if_splits)
  qed
  then show ?thesis by blast
qed

lemma qr_reader_update: "rd\<lparr>qr_reader := x\<rparr> = \<lparr>qr_reader = x, qr_next = qr_next rd\<rparr>"
  by (cases rd) simp

text \<open>A reader that is used has the connection reader in its hands afterwards.\<close>

lemma baton_use:
  assumes b: "baton s p h v" and i: "i < length (sys_readers s)" "sys_readers s ! i = Some rd"
    and d: "qr_read (\<lambda>r. ((), f r)) rd (sys_chans s) = Done ((), rd', st')"
  shows "i = p \<and> baton (s\<lparr>sys_readers := (sys_readers s)[i := Some rd'], sys_chans := st'\<rparr>) p False (f v)"
proof -
  let ?n = "length (sys_readers s)"
  have ip: "i = p" using baton_read(2) [OF b i] d by blast
  have len: "length (sys_chans s) = ?n" and pn: "p \<le> ?n"
    and qq: "\<And>q. sys_queue s = Some q \<Longrightarrow> if ?n = 0 then q = Head v else q = Next (?n - 1) \<and> (p = ?n \<longrightarrow> h)"
    using b by (simp_all add: baton_def queue_at_def Let_def)
  have live: "qr_next rd = p" and c: "\<not> h \<and> st' = sys_chans s \<or>
      h \<and> 0 < p \<and> st' = (sys_chans s)[p - 1 := (sys_chans s ! (p - 1))\<lparr>rx_live := False, msgs := []\<rparr>]"
    and rd': "rd' = \<lparr>qr_reader = Some (Current (f v)), qr_next = p\<rparr>"
    using baton_live [OF b i] d ip i(1) len
    by (auto simp: qr_read_def recv_def drop_receiver_def qr_reader_update)
  show ?thesis
    unfolding baton_def
  proof (intro conjI, goal_cases)
    case 1
    show ?case by (rule ip)
  next
    case 2
    from b rd' ip i show ?case
      by (auto simp: baton_def readers_at_def nth_list_update)
  next
    case 3
    from b c len show ?case
      by (auto simp: baton_def msgs_at_def nth_list_update split: if_splits)
  next
    case 4
    from b c len show ?case
      by (auto simp: baton_def ends_at_def nth_list_update split: if_splits)
  next
    case 5
    from b c len ip i(1) qq show ?case
      by (auto simp: baton_def queue_at_def Let_def)
  qed
qed

text \<open>A reader that is dropped has passed the connection reader on.\<close>

lemma baton_drop:
  assumes b: "baton s p h v" and i: "i < length (sys_readers s)" "sys_readers s ! i = Some rd"
    and d: "qr_drop rd (sys_chans s) = Done st'"
  shows "i = p \<and> (\<exists>h'. baton (s\<lparr>sys_readers := (sys_readers s)[i := None], sys_chans := st'\<rparr>) (Suc p) h' v)"
proof -
  let ?n = "length (sys_readers s)"
  let ?h = "Suc p < ?n \<or> sys_queue s \<noteq> None"
  have ip: "i = p" using baton_read(4) [OF b i] d by blast
  have len: "length (sys_chans s) = ?n"
    and qq: "\<And>q. sys_queue s = Some q \<Longrightarrow> if ?n = 0 then q = Head v else q = Next (?n - 1)"
    using b by (auto simp: baton_def queue_at_def Let_def)
  have pc: "p < length (sys_chans s)" using ip i(1) len by simp
  have m: "msgs (sys_chans s ! p) = []" and rx: "rx_live (sys_chans s ! p) = ?h"
    using b pc by (auto simp: baton_def msgs_at_def ends_at_def)
  define st0 where "st0 = (if h then drop_receiver (p - 1) (sys_chans s) else sys_chans s)"
  have st': "st' = drop_sender p (send p v st0)"
    using baton_live [OF b i] d ip pc
    by (auto simp: qr_drop_def recv_def drop_receiver_def st0_def)
  have st0: "length st0 = ?n" "st0 ! p = sys_chans s ! p"
    "\<And>c. c < ?n \<Longrightarrow> p < c \<Longrightarrow> st0 ! c = sys_chans s ! c"
    using b len pc by (auto simp: st0_def drop_receiver_def nth_list_update baton_def queue_at_def Let_def)
  have empty: "msgs (st0 ! c) = []" if "c < p" for c
  proof -
    have c: "c < length (sys_chans s)" using that pc by simp
    with b have "msgs (sys_chans s ! c) = (if h \<and> Suc c = p then [v] else [])"
      by (simp add: baton_def msgs_at_def)
    with c that show ?thesis
      by (cases "Suc c = p") (auto simp: st0_def drop_receiver_def nth_list_update)
  qed
  have len': "length st' = ?n" using st0(1) by (simp add: st' drop_sender_def send_def)
  have msg': "msgs (st' ! c) = (if c = p \<and> ?h then [v] else [])" if "c < ?n" for c
    using that st0 empty pc len m rx b
    by (cases c p rule: linorder_cases)
      (auto simp: st' drop_sender_def send_def baton_def msgs_at_def)
  have rest': "st' ! c = sys_chans s ! c" if "c < ?n" "p < c" for c
    using that st0 by (auto simp: st' drop_sender_def send_def)
  have "baton (s\<lparr>sys_readers := (sys_readers s)[i := None], sys_chans := st'\<rparr>) (Suc p) ?h v"
    unfolding baton_def
  proof (intro conjI, goal_cases)
    case 1
    from b ip i show ?case
      by (auto simp: baton_def readers_at_def nth_list_update less_Suc_eq)
  next
    case 2
    from len' msg' show ?case by (auto simp: msgs_at_def)
  next
    case 3
    from b len len' rest' show ?case by (auto simp: baton_def ends_at_def)
  next
    case 4
    from len' ip i(1) qq show ?case by (auto simp: queue_at_def Let_def)
  qed
  with ip show ?thesis by blast
qed

lemma rq_step_baton: "rq_step f s t \<Longrightarrow> baton s p h v \<Longrightarrow> \<exists>p' h'. baton t p' h' (f v)"
proof (induction rule: rq_step.induct)
  case (enqueue s q rd q' st')
  then show ?case using baton_enqueue by fastforce
next
  case (use i s rd f rd' st')
  then show ?case using baton_use by metis
next
  case (drop i s rd st')
  then show ?case using baton_drop by (metis id_apply)
next
  case (close s q)
  then show ?case using baton_close by (metis id_apply)
qed

lemma rq_reachable_baton: "rq_reachable r s v \<Longrightarrow> \<exists>p h. baton s p h v"
  by (induction rule: rq_reachable.induct) (blast intro: baton_init dest: rq_step_baton)+

text \<open>The live reader whose predecessors are all gone is the one that has the turn.\<close>

lemma baton_turn:
  assumes "baton s p h v" "i < length (sys_readers s)" "sys_readers s ! i = Some rd"
  shows "i = p \<longleftrightarrow> (\<forall>j < i. sys_readers s ! j = None)"
proof
  assume "i = p"
  with assms show "\<forall>j < i. sys_readers s ! j = None"
    by (auto simp: baton_def readers_at_def)
next
  assume gone: "\<forall>j < i. sys_readers s ! j = None"
  have ri: "(sys_readers s ! j = None) = (j < p)" if "j < length (sys_readers s)" for j
  proof -
    from assms(1) have "readers_at s p h v" by (simp add: baton_def)
    from this [unfolded readers_at_def, rule_format, OF that] show ?thesis
      by (simp split: if_splits)
  qed
  have "\<not> i < p" using ri [of i] assms(2,3) by simp
  moreover have "\<not> p < i" using ri [of p] gone assms(2) by auto
  ultimately show "i = p" by simp
qed

inductive_cases rq_stepE: "rq_step f s t"

text \<open>A dropped reader stays dropped.\<close>

lemma rq_step_gone:
  "rq_step f s t \<Longrightarrow> i < length (sys_readers s) \<Longrightarrow> sys_readers s ! i = None \<Longrightarrow>
     i < length (sys_readers t) \<and> sys_readers t ! i = None"
  by (erule rq_stepE) (auto simp: nth_append nth_list_update)


section \<open>Properties\<close>

text \<open>
  C10: With any number of requests in flight, used and dropped in any order: no queued reader ever
  panics; one that is used or dropped goes on exactly when all readers before it are gone, finding
  the connection as they left it, and waits otherwise.
\<close>

theorem queued_readers_take_turns:
  assumes "rq_reachable r s v" "i < length (sys_readers s)" "sys_readers s ! i = Some rd"
  shows "if \<forall>j < i. sys_readers s ! j = None
    then (\<exists>rd' st'. qr_read g rd (sys_chans s) = Done (fst (g v), rd', st')) \<and>
      (\<exists>st'. qr_drop rd (sys_chans s) = Done st')
    else qr_read g rd (sys_chans s) = Blocked \<and> qr_drop rd (sys_chans s) = Blocked"
proof -
  obtain p h where b: "baton s p h v" using rq_reachable_baton [OF assms(1)] by blast
  note turn = baton_turn [OF b assms(2,3)] and facts = baton_read [OF b assms(2,3)]
  show ?thesis
  proof (cases "i = p")
    case True
    with turn facts(4) baton_read_value [of s p h v rd g] b assms(2,3) show ?thesis by simp
  next
    case False
    have "qr_read g rd (sys_chans s) = Blocked"
      using facts(1,2) [of g] False by (cases "qr_read g rd (sys_chans s)") auto
    moreover have "qr_drop rd (sys_chans s) = Blocked"
      using facts(3,4) False by (cases "qr_drop rd (sys_chans s)") auto
    ultimately show ?thesis using turn False by simp
  qed
qed

text \<open>Two requests are enqueued on a connection numbered 5; the first one reads and is dropped.\<close>

definition idle_chan :: "nat chan" where
  "idle_chan = \<lparr>msgs = [], tx_live = True, rx_live = True\<rparr>"

definition two_queued :: "nat rq_sys" where
  "two_queued = \<lparr>sys_queue = Some (Next 1),
     sys_readers = [Some \<lparr>qr_reader = Some (Current 5), qr_next = 0\<rparr>, Some \<lparr>qr_reader = Some (Waiting 0), qr_next = 1\<rparr>],
     sys_chans = [idle_chan, idle_chan]\<rparr>"

definition first_used :: "nat rq_sys" where
  "first_used = two_queued\<lparr>sys_readers :=
     [Some \<lparr>qr_reader = Some (Current 6), qr_next = 0\<rparr>, Some \<lparr>qr_reader = Some (Waiting 0), qr_next = 1\<rparr>]\<rparr>"

definition first_dropped :: "nat rq_sys" where
  "first_dropped = two_queued\<lparr>
     sys_readers := [None, Some \<lparr>qr_reader = Some (Waiting 0), qr_next = 1\<rparr>],
     sys_chans := [\<lparr>msgs = [6], tx_live = False, rx_live = True\<rparr>, idle_chan]\<rparr>"

lemma two_queued_reachable: "rq_reachable 5 two_queued 5"
proof -
  let ?s1 = "\<lparr>sys_queue = Some (Next 0), sys_readers = [Some \<lparr>qr_reader = Some (Current 5), qr_next = 0\<rparr>],
    sys_chans = [idle_chan]\<rparr>"
  have "rq_step id (rq_init 5) ?s1"
    using rq_step.enqueue [of "rq_init 5" "Head 5" "\<lparr>qr_reader = Some (Current 5), qr_next = 0\<rparr>" "Next 0" "[idle_chan]"]
    by (simp add: rq_init_def rq_new_def enqueue_def channel_def idle_chan_def)
  moreover have "rq_step id ?s1 two_queued"
    using rq_step.enqueue [of ?s1 "Next 0" "\<lparr>qr_reader = Some (Waiting 0), qr_next = 1\<rparr>" "Next 1" "[idle_chan, idle_chan]"]
    by (simp add: two_queued_def enqueue_def channel_def idle_chan_def)
  ultimately show ?thesis using rq_reachable.intros [of 5] by (metis id_apply)
qed

lemma first_dropped_reachable: "rq_reachable 5 first_dropped 6"
proof -
  have "rq_step Suc two_queued first_used"
    using rq_step.use [of 0 two_queued "\<lparr>qr_reader = Some (Current 5), qr_next = 0\<rparr>" Suc
        "\<lparr>qr_reader = Some (Current 6), qr_next = 0\<rparr>" "[idle_chan, idle_chan]"]
    by (simp add: two_queued_def first_used_def qr_read_def)
  moreover have "rq_step id first_used first_dropped"
    using rq_step.drop [of 0 first_used "\<lparr>qr_reader = Some (Current 6), qr_next = 0\<rparr>"
        "[\<lparr>msgs = [6], tx_live = False, rx_live = True\<rparr>, idle_chan]"]
    by (simp add: two_queued_def first_used_def first_dropped_def qr_drop_def send_def drop_sender_def idle_chan_def)
  moreover have "Suc 5 = 6" by simp
  ultimately show ?thesis using two_queued_reachable rq_reachable.step [of 5] by (metis id_apply)
qed

theorem queued_readers_take_turns_witness:
  "qr_drop \<lparr>qr_reader = Some (Waiting 0), qr_next = 1\<rparr> (sys_chans two_queued) = Blocked \<and>
   (\<exists>rd' st'. qr_read (\<lambda>r. (r, r)) \<lparr>qr_reader = Some (Waiting 0), qr_next = 1\<rparr> (sys_chans first_dropped) = Done (6, rd', st'))"
proof
  let ?rd = "\<lparr>qr_reader = Some (Waiting 0), qr_next = 1\<rparr>"
  have a: "1 < length (sys_readers two_queued)" "sys_readers two_queued ! 1 = Some ?rd"
    by (simp_all add: two_queued_def)
  have "(\<forall>j < 1. sys_readers two_queued ! j = None) = False" by (simp add: two_queued_def)
  with queued_readers_take_turns [OF two_queued_reachable a, of "\<lambda>r. (r, r)"]
  show "qr_drop ?rd (sys_chans two_queued) = Blocked" by (simp only: if_False)
  have "\<forall>j < 1. sys_readers first_dropped ! j = None" by (simp add: first_dropped_def)
  then show "\<exists>rd' st'. qr_read (\<lambda>r. (r, r)) \<lparr>qr_reader = Some (Waiting 0), qr_next = 1\<rparr> (sys_chans first_dropped) = Done (6, rd', st')"
    using queued_readers_take_turns [OF first_dropped_reachable, of 1 "\<lparr>qr_reader = Some (Waiting 0), qr_next = 1\<rparr>" "\<lambda>r. (r, r)"]
    by (simp add: two_queued_def first_dropped_def)
qed

text \<open>
  The queue never deadlocks: as long as a queued reader exists, one of them can be used and can
  be dropped, and every reader enqueued is served once those before it are gone.
\<close>

lemma read_queue_live:
  assumes "rq_reachable r s v" "i < length (sys_readers s)" "sys_readers s ! i \<noteq> None"
  shows "\<exists>k \<le> i. \<exists>rd. sys_readers s ! k = Some rd \<and> (\<forall>j < k. sys_readers s ! j = None) \<and>
    (\<exists>x. qr_read g rd (sys_chans s) = Done x) \<and> (\<exists>st'. qr_drop rd (sys_chans s) = Done st')"
proof -
  obtain p h where b: "baton s p h v" using rq_reachable_baton [OF assms(1)] by blast
  let ?live = "\<lambda>k. k < length (sys_readers s) \<and> sys_readers s ! k \<noteq> None"
  define k where "k = (LEAST k. ?live k)"
  have k: "?live k" unfolding k_def by (rule LeastI [of ?live i]) (use assms in blast)
  have least: "sys_readers s ! j = None" if "j < k" for j
    using not_less_Least [of j ?live] that k by (auto simp: k_def)
  have "k \<le> i" unfolding k_def by (rule Least_le) (use assms in blast)
  from k obtain rd where rd: "sys_readers s ! k = Some rd" by blast
  with b k least have "k = p" using baton_turn [of s p h v k rd] by blast
  with baton_read(2,4) [OF b, of k rd] k rd least \<open>k \<le> i\<close> show ?thesis by blast
qed

end
