(* ===== verification/Handover.thy ===== *)
theory Handover
  imports Server_Pipeline Server_Builder
begin

text \<open>
  Parsing a request touches nothing behind the block in which the request ends, so everything
  that follows, faults included, is there for the handler of an upgrade.
\<close>

section \<open>Reading with something behind\<close>

lemma push_back_append: "push_back bs (s @ t) = push_back bs s @ t"
  by (simp add: push_back_def)

lemma read_until_append:
  "quiet s \<Longrightarrow> d \<in> set (bytes_of s) \<Longrightarrow>
     read_until d buf (s @ t) =
       (Ok (length (upto_delim d (bytes_of s))), buf @ upto_delim d (bytes_of s),
        advance (length (upto_delim d (bytes_of s))) s @ t)"
proof (induction d buf s rule: read_until.induct)
  case (3 d buf bs s)
  show ?case
  proof (cases "d \<in> set bs")
    case True
    with 3 show ?thesis
      by (simp add: Let_def upto_delim_append advance_append_first push_back_append del: advance.simps)
  next
    case False
    with 3 show ?thesis by (simp add: upto_delim_append)
  qed
qed simp_all

lemma read_exact_0 [simp]: "read_exact 0 s = (Ok [], s)"
  by (cases s rule: fill_buf.cases) auto

lemma read_exact_append:
  "quiet s \<Longrightarrow> n \<le> length (bytes_of s) \<Longrightarrow>
     read_exact n (s @ t) = (Ok (take n (bytes_of s)), advance n s @ t)"
proof (induction n s rule: read_exact.induct)
  case (3 n bs s)
  then show ?case by (auto simp: push_back_def)
qed simp_all

lemma read_head_append:
  "quiet s \<Longrightarrow> bytes_of s \<noteq> [] \<Longrightarrow> split_head buf (bytes_of s) = (head, rest) \<Longrightarrow> head_complete head \<Longrightarrow>
     read_head buf (s @ t) = (Ok head, advance (length (bytes_of s) - length rest) s @ t)"
proof (induction buf s rule: read_head.induct)
  case (1 buf s)
  let ?bs = "bytes_of s"
  let ?line = "upto_delim LF ?bs"
  let ?s1 = "advance (length ?line) s"
  have split: "split_head buf ?bs =
      (if head_complete (buf @ ?line) then (buf @ ?line, drop (length ?line) ?bs)
       else split_head (buf @ ?line) (drop (length ?line) ?bs))"
    using split_head_line [OF "1.prems"(2), of buf] by (simp add: Let_def)
  have "LF \<in> set ?bs"
  proof (rule ccontr)
    assume "LF \<notin> set ?bs"
    then have "?line = ?bs" by simp
    with split "1.prems"(3,4) have "head_complete (buf @ ?bs)" by (auto split: if_splits)
    moreover have "buf @ ?bs = (buf @ butlast ?bs) @ [last ?bs]" using "1.prems"(2) by simp
    ultimately have "last ?bs = LF" using head_complete_snoc_LF by metis
    with \<open>LF \<notin> set ?bs\<close> "1.prems"(2) show False by (metis last_in_set)
  qed
  with "1.prems"(1) have line: "read_until LF buf (s @ t) = (Ok (length ?line), buf @ ?line, ?s1 @ t)"
    by (rule read_until_append)
  have lineq: "(Ok (length ?line), buf @ ?line, ?s1) = read_until LF buf s"
    using "1.prems"(1) by (simp add: read_until_quiet)
  have pos: "length ?line \<noteq> 0" using "1.prems"(2) by simp
  have le: "length ?line \<le> length ?bs" by simp
  show ?case
  proof (cases "head_complete (buf @ ?line)")
    case True
    with split "1.prems"(3) line pos le show ?thesis by (auto simp: read_head.simps [of buf "s @ t"])
  next
    case False
    have b1: "bytes_of ?s1 = drop (length ?line) ?bs" using "1.prems"(1) by simp
    have sp1: "split_head (buf @ ?line) (bytes_of ?s1) = (head, rest)"
      using split False "1.prems"(3) b1 by simp
    have ne: "bytes_of ?s1 \<noteq> []" using sp1 False "1.prems"(4) by auto
    have "length rest \<le> length (bytes_of ?s1)" using split_head_rest [of "buf @ ?line" "bytes_of ?s1"] sp1 by simp
    moreover have "length (bytes_of ?s1) = length ?bs - length ?line" using b1 by simp
    ultimately have "length (bytes_of ?s1) - length rest + length ?line = length ?bs - length rest"
      using le by arith
    then have "advance (length (bytes_of ?s1) - length rest) ?s1 = advance (length ?bs - length rest) s"
      using "1.prems"(1) by (simp add: advance_advance)
    moreover have "read_head (buf @ ?line) (?s1 @ t) =
        (Ok head, advance (length (bytes_of ?s1) - length rest) ?s1 @ t)"
      by (rule "1.IH" [OF lineq refl refl pos False _ ne sp1 "1.prems"(4)]) (use "1.prems"(1) in simp)
    ultimately show ?thesis
      using line pos False by (simp add: read_head.simps [of buf "s @ t"])
  qed
qed

section \<open>Requests\<close>

lemma split_head_incomplete:
  "\<not> head_complete (fst (split_head acc bs)) \<Longrightarrow> \<not> head_complete (acc @ bs @ [b]) \<Longrightarrow>
     split_head acc (bs @ [b]) = (acc @ bs @ [b], [])"
  by (induction acc bs rule: split_head.induct) (auto split: if_splits)

lemma split_head_more:
  "head_complete (fst (split_head acc bs)) \<Longrightarrow> bs \<noteq> [] \<Longrightarrow>
     split_head acc (bs @ rest) = (fst (split_head acc bs), snd (split_head acc bs) @ rest)"
proof (induction acc bs rule: split_head.induct)
  case (2 acc b bs)
  then show ?case by (cases "bs = []") (auto split: if_splits)
qed simp

lemma request_body_bytes_Nil: "request_body_bytes E h [] = (r, Some x) \<Longrightarrow> x = []"
  by (auto simp: request_body_bytes_def split: sum.splits option.splits bool.splits if_splits)

lemma carries_head:
  assumes "carries E msg req"
  shows "head_complete (fst (split_head [] msg))" "msg \<noteq> []"
proof -
  have c: "parse_request_bytes E (msg @ rest) = (Inr (abs_request req), Some rest)" for rest
    using assms by (simp add: carries_def)
  show "msg \<noteq> []" using c [of "[]"] by (auto simp: parse_request_bytes_Nil)
  show "head_complete (fst (split_head [] msg))"
  proof (rule ccontr)
    assume no: "\<not> head_complete (fst (split_head [] msg))"
    have "\<not> head_complete (msg @ ''a'')" using head_complete_snoc_LF by fastforce
    with no have "split_head [] (msg @ ''a'') = (msg @ ''a'', [])"
      using split_head_incomplete [of "[]" msg "CHR ''a''"] by simp
    with c [of "''a''"] show False
      by (auto simp: parse_request_bytes_def split: sum.splits prod.splits dest: request_body_bytes_Nil)
  qed
qed

lemma carries_parts:
  assumes "carries E msg req"
  obtains head b h where "split_head [] (msg @ rest) = (head, b @ rest)" "head_complete head" "msg = head @ b"
    "request_head E head = Inr (rq_method req, rq_uri req, rq_version req, h)" "rq_headers req = h"
    "request_body_bytes E h (b @ rest) = (Inr (abs_body (rq_body req)), Some rest)"
proof -
  obtain head b where hb: "split_head [] msg = (head, b)" by (metis surj_pair)
  note hc = carries_head [OF assms]
  have m: "msg = head @ b" using split_head_append [of "[]" msg] hb by simp
  have sp: "split_head [] (msg @ rest) = (head, b @ rest)"
    using split_head_more [OF hc(1,2)] hb by simp
  have "parse_request_bytes E (msg @ rest) = (Inr (abs_request req), Some rest)"
    using assms by (simp add: carries_def)
  with sp hc(1) hb m show thesis
    by (intro that [of head b "rq_headers req"])
      (auto simp: parse_request_bytes_def abs_request_def split: sum.splits prod.splits)
qed

lemma request_body_append:
  assumes "quiet s" "request_body_bytes E h (bytes_of s) = (Inr wb, Some x)"
  shows "\<exists>b. request_body E h (s @ t) = (Inr b, Some (advance (length (bytes_of s) - length x) s @ t)) \<and>
    abs_body b = wb \<and> unstreamed_body b"
  using assms
  by (auto simp: request_body_bytes_def request_body_def body_from_vec_def body_empty_def read_exact_append
      split: sum.splits option.splits bool.splits if_splits)

lemma parse_request_append:
  assumes c: "carries E msg req" and q: "quiet s" and bs: "bytes_of s = msg @ x"
  shows "parse_request E (s @ t) = (Inr req, Some (advance (length msg) s @ t))"
proof -
  obtain head b h where p: "split_head [] (msg @ x) = (head, b @ x)" "head_complete head" "msg = head @ b"
    "request_head E head = Inr (rq_method req, rq_uri req, rq_version req, h)" "rq_headers req = h"
    "request_body_bytes E h (b @ x) = (Inr (abs_body (rq_body req)), Some x)"
    by (rule carries_parts [OF c])
  have ne: "bytes_of s \<noteq> []" using bs carries_head(2) [OF c] by simp
  have h: "read_head [] (s @ t) = (Ok head, advance (length head) s @ t)"
    using read_head_append [OF q ne, of "[]" head "b @ x" t] bs p(1,2,3) by simp
  let ?s1 = "advance (length head) s"
  have b1: "bytes_of ?s1 = b @ x" using q bs p(3) by simp
  have q1: "quiet ?s1" using q by simp
  from request_body_append [OF q1, of E h "abs_body (rq_body req)" x t] p(6) b1 obtain b' where
    b': "request_body E h (?s1 @ t) = (Inr b', Some (advance (length b) ?s1 @ t))"
    "abs_body b' = abs_body (rq_body req)" "unstreamed_body b'" by auto
  moreover have "b' = rq_body req" using b'(2,3) c by (auto simp: carries_def intro: abs_body_inj)
  moreover have "advance (length b) ?s1 = advance (length msg) s"
    using advance_advance [OF q] p(3) by (simp add: add.commute)
  ultimately show ?thesis using h p(4,5) by (simp add: parse_request_def)
qed

lemma advance_block:
  "quiet pre \<Longrightarrow> y \<noteq> [] \<Longrightarrow> advance (length (bytes_of pre) + length y) (pre @ [Avail (y @ x)]) = push_back x []"
proof (induction pre)
  case Nil
  then show ?case by (auto simp: push_back_def)
next
  case (Cons e pre)
  then show ?case by (cases e) auto
qed

section \<open>Handing over\<close>

context chunked_body_contract
begin

lemma serve_hands_over:
  assumes "carries E msg req" "quiet pre" "bytes_of pre @ y = msg" "y \<noteq> []"
    and "conn = pre @ Avail (y @ x) # post"
    and "\<not> expects_continue E (rq_headers req)"
    and "sv_call A app req = (Inr res0, fate, app')" "rs_upgrade res0 = Some h"
    and "res = prepare_response E (clock 0) (rq_version req)
      (connection_has E ''keep-alive'' (rq_headers req)) res0"
    and "response_plan E (hb_len B (rs_body res0)) res = Ok (enc, hs)" "good (rs_body res0)" "w_cap w = None"
  shows "\<exists>w'. serve (Suc fuel) E B A clock conn w app = (Upgraded h (push_back x post), w', app') \<and>
    w_out w' = w_out w @ response_text E res hs @
      (if should_write_body (rq_method req) (rs_status res0) then body_wire E B content enc (rs_body res0)
       else []) \<and>
    w_flushed w' = length (w_out w') \<and> w_cap w' = None"
proof -
  let ?s = "pre @ [Avail (y @ x)]"
  have q: "quiet ?s" using assms(2,4) by (simp add: quiet_def)
  have bs: "bytes_of ?s = msg @ x" using assms(3) by (simp add: bytes_of_def)
  have "parse_request E (?s @ post) = (Inr req, Some (advance (length msg) ?s @ post))"
    by (rule parse_request_append [OF assms(1) q bs])
  moreover have "advance (length msg) ?s = push_back x []"
    using advance_block [OF assms(2,4), of x] assms(3) by (auto simp: length_append [symmetric])
  ultimately have parse: "parse_request E conn = (Inr req, Some (push_back x post))"
    using assms(5) by (simp add: push_back_def split: if_splits)
  obtain given w1 where answer: "answer_request E B A (clock 0) req w app =
      (next_control E req (response_outcome E (rs_upgrade res0) enc hs), given, w1, app')"
    and w1: "w_out w1 = w_out w @ response_text E res hs @
      (if should_write_body (rq_method req) (rs_status res0) then body_wire E B content enc (rs_body res0)
       else [])" "w_cap w1 = None"
    using answer_request_healthy [OF assms(7) assms(10) [unfolded assms(9)] assms(11,12)] assms(9) by auto
  have "next_control E req (response_outcome E (rs_upgrade res0) enc hs) = HandOver h"
    using assms(8) by (simp add: next_control_def response_outcome_def)
  with answer assms(6) have "handle_request E B A (clock 0) req w app = (HandOver h, given, w1, app')"
    by (simp add: handle_request_plain)
  with parse w1 show ?thesis
    by (auto simp: serve_pipe pipe_step_def pipe_init_def pipe_leave_def)
qed

end

text \<open>On a connection: the handler gets what was not in the buffer of the reader.\<close>

lemma serve_conn_hands_over:
  assumes "tls_law T" "conn_clone c = Ok c1" "w_cap (conn_out T c1) = None"
    and "carries E msg req" "quiet pre" "bytes_of pre @ y = msg" "y \<noteq> []"
    and "conn_in T c = pre @ Avail (y @ x) # post"
    and "\<not> expects_continue E (rq_headers req)"
    and "sv_call A app req = (Inr res0, fate, app')" "rs_upgrade res0 = Some h"
    and "res = prepare_response E (clock 0) (rq_version req)
      (connection_has E ''keep-alive'' (rq_headers req)) res0"
    and "response_plan E (body_len (rs_body res0)) res = Ok (enc, hs)"
    and "body_good E (rs_body res0)" "body_exact (rs_body res0)"
  shows "\<exists>s w. serve_conn (Suc fuel) E (body_impl E) A clock T c app = (Upgraded h s, w, app') \<and>
    w_out w = w_out (conn_out T c1) @ response_text E res hs @
      (if should_write_body (rq_method req) (rs_status res0)
       then body_wire E (body_impl E) (body_content E) enc (rs_body res0) else []) \<and>
    w_flushed w = length (w_out w) \<and> w_cap w = None \<and>
    conn_in T (handed_over T c s w) = post \<and> conn_out T (handed_over T c s w) = w"
proof -
  have "conn_in T c1 = pre @ Avail (y @ x) # post"
    using assms(2,8) by (cases c) (auto split: if_splits)
  from body_chunks.serve_hands_over [where clock = clock, OF assms(4-7) this assms(9-12), of enc hs "conn_out T c1" fuel]
    assms(3,13-15) obtain w where
    "serve (Suc fuel) E (body_impl E) A clock (conn_in T c1) (conn_out T c1) app = (Upgraded h (push_back x post), w, app')"
    "w_out w = w_out (conn_out T c1) @ response_text E res hs @
      (if should_write_body (rq_method req) (rs_status res0)
       then body_wire E (body_impl E) (body_content E) enc (rs_body res0) else [])"
    "w_flushed w = length (w_out w)" "w_cap w = None"
    using \<open>conn_in T c1 = _\<close> by (auto simp: body_impl_def)
  then show ?thesis
    using conn_with_in_out [OF assms(1)] assms(2,7,8)
    by (auto simp: serve_conn_def handed_over_def socket_after_block)
qed

end
