(* ===== verification/Listener_Properties.thy ===== *)
theory Listener_Properties
  imports Handover Server_Properties
begin

text \<open>
  The properties of connections and of the loops that accept them.
\<close>

section \<open>Connections\<close>

text \<open>
  A connection of any kind whose lock is intact is one source and one writer: a read of it is a read of
  its source, and \<^verbatim>\<open>write_all\<close>, which repeats \<^verbatim>\<open>Connection::write\<close>, hands all bytes to its writer or fails
  as the writer does; neither touches the other half.
\<close>

lemma connection_is_duplex:
  assumes "tls_law T" "\<not> conn_poisoned c"
  shows "(case conn_read T n c of (r, c') \<Rightarrow>
      read n (conn_in T c) = (r, conn_in T c') \<and> conn_out T c' = conn_out T c) \<and>
    (case write_fully (conn_write T) (length bs) bs c of (r, c') \<Rightarrow>
      write_all bs (conn_out T c) = (r, conn_out T c') \<and> conn_in T c' = conn_in T c)"
  using conn_duplex.reads [of T c n] conn_duplex.write_fully_all [of T c bs "length bs"] assms
  by (auto split: prod.split)

text \<open>A TLS stream as a triple.\<close>

definition plain_tls :: "(tcp_stream \<times> stream \<times> writer) tls_ops" where
  "plain_tls = \<lparr>to_sock = fst, to_set_sock = (\<lambda>s t. (s, snd t)), to_in = (\<lambda>t. fst (snd t)),
     to_set_in = (\<lambda>i t. (fst t, i, snd (snd t))), to_out = (\<lambda>t. snd (snd t)),
     to_set_out = (\<lambda>w t. (fst t, fst (snd t), w))\<rparr>"

lemma plain_tls_law: "tls_law plain_tls"
  by (simp add: tls_law_def plain_tls_def)

definition some_tcp :: "stream \<Rightarrow> tcp_stream" where
  "some_tcp s = \<lparr>tcp_peer = Ok ''10.0.0.1:5'', tcp_local = Ok ''10.0.0.2:80'', tcp_timeout = None, tcp_nodelay = False,
     tcp_fault = None, tcp_in = s, tcp_out = new_writer\<rparr>"

text \<open>
  C31: \<^verbatim>\<open>downcast\<close> returns the stream itself exactly when it is asked for its type and, for a TLS stream,
  no clone is left; otherwise it returns a connection to the same stream.  It panics only for the
  last handle of a poisoned TLS stream.
\<close>

theorem downcast_gives_stream_or_connection:
  "case conn_downcast ty c of
     Panic \<Rightarrow> (\<exists>t. c = Rustls t \<and> rc_refs t = 1 \<and> rc_poisoned t)
   | Err err \<Rightarrow> False
   | Ok (Inr x) \<Rightarrow>
       (ty, x) \<in> {(TcpStreamT, AnyTcp t) | t. c = Tcp t} \<union> {(UnixStreamT, AnyUnix t) | t. c = Unix t} \<union>
         {(TlsStreamT, AnyTls (rc_stream t)) | t. c = Rustls t \<and> rc_refs t = 1}
   | Ok (Inl c') \<Rightarrow>
       (case c of Tcp t \<Rightarrow> ty \<noteq> TcpStreamT | Unix t \<Rightarrow> ty \<noteq> UnixStreamT
        | Rustls t \<Rightarrow> rc_refs t = 1 \<longrightarrow> ty \<noteq> TlsStreamT) \<and>
       conn_in T c' = conn_in T c \<and> conn_out T c' = conn_out T c \<and> conn_timeout T c' = conn_timeout T c \<and>
       conn_nodelay T c' = conn_nodelay T c \<and> conn_downcast ty c' = Ok (Inl c')"
  by (cases c) (auto simp: tls_into_inner_def tls_from_def)

definition sole_tls :: "(tcp_stream \<times> stream \<times> writer) connection" where
  "sole_tls = conn_from_tls (some_tcp [], [Avail ''x''], new_writer)"

theorem downcast_gives_stream_or_connection_witness:
  "\<exists>c'. conn_downcast TcpStreamT sole_tls = Ok (Inl c') \<and> conn_in plain_tls c' = [Avail ''x''] \<and>
     conn_downcast TcpStreamT c' = Ok (Inl c')"
proof -
  obtain c' where c': "conn_downcast TcpStreamT sole_tls = Ok (Inl c')"
    by (simp add: sole_tls_def conn_from_tls_def tls_into_inner_def tls_from_def)
  have "conn_in plain_tls sole_tls = [Avail ''x'']" by code_simp
  with downcast_gives_stream_or_connection [of TcpStreamT sole_tls plain_tls] c' show ?thesis by auto
qed

section \<open>Which connections are served\<close>

text \<open>
  C28: The loops of a server serve, in the order of their arrival, exactly the connections whose read
  timeout and \<^verbatim>\<open>TCP_NODELAY\<close> option can be set, and every one of them carries the options of the
  builder.  A listener offers what arrives before its first failed \<^verbatim>\<open>accept\<close>: that failure ends the
  server for good with \<^verbatim>\<open>Ok(())\<close> (\<open>AllServed\<close>), even when it was that of a single connection.
\<close>

theorem configured_connections_served:
  fixes T b inc
  assumes "tls_law T" "list_all (\<lambda>c. \<not> conn_poisoned c) (fst (offered inc))"
  defines "cs \<equiv> List.map_filter (\<lambda>c. ok_option (configure T b c)) (fst (offered inc))"
  shows "accept_loop T b body inc x = each body cs (snd (offered inc)) x \<and>
    (\<forall>c \<in> set cs. conn_timeout T c = sb_read_timeout b \<and> conn_nodelay T c \<in> {None, Some (sb_nodelay b)})"
proof (rule conjI)
  show "accept_loop T b body inc x = each body cs (snd (offered inc)) x"
    using configured_eq [OF assms(2), of T b "snd (offered inc)"]
    by (simp add: accept_loop_each arriving_def cs_def case_prod_beta)
  show "\<forall>c \<in> set cs. conn_timeout T c = sb_read_timeout b \<and> conn_nodelay T c \<in> {None, Some (sb_nodelay b)}"
    using configure_Ok [OF assms(1)]
    by (fastforce simp: cs_def map_filter_def ok_option_def split: res.splits)
qed

definition slow_builder :: server_builder where
  "slow_builder = builder_nodelay True (builder_read_timeout (Some 10) builder_default)"

definition two_arrivals :: "(tcp_stream \<times> stream \<times> writer) incoming" where
  "two_arrivals = FromListener [Inr (some_tcp [], ''10.0.0.1:5''),
     Inr (some_tcp []\<lparr>tcp_fault := Some (OsError 22)\<rparr>, ''10.0.0.1:6'')]"

theorem configured_connections_served_witness:
  "accept_loop plain_tls slow_builder (\<lambda>c n. (Suc n, None)) two_arrivals (0::nat) = (1, Accepting)"
proof -
  have "list_all (\<lambda>c. \<not> conn_poisoned c) (fst (offered two_arrivals))" by code_simp
  from configured_connections_served [OF plain_tls_law this, of slow_builder "\<lambda>c n. (Suc n, None)" "0::nat"]
  show ?thesis
    by (simp add: two_arrivals_def accepted_def List.map_filter_simps configure_def conn_from_accepted_def
        slow_builder_def some_tcp_def builder_default_def builder_nodelay_def builder_read_timeout_def
        tcp_set_read_timeout_def tcp_set_nodelay_def ok_option_def)
qed

section \<open>How they are served\<close>

text \<open>
  C23: \<^verbatim>\<open>serve_single_thread\<close> serves the connections in turn with one application: each gets the state
  that the one before left, and the next is only served after it has ended.  When one does not
  end, no later connection is served.
\<close>

theorem single_thread_takes_turns:
  fixes fuel E B A clocks T
  defines "f \<equiv> serves fuel E B A clocks T"
  assumes "serve_single_thread fuel E B A clocks T srv app = ((log, app'), fin)"
    and "arriving T (srv_builder srv) (srv_incoming srv) = (cs, fin0)"
  shows "\<exists>n. log = turns f cs app n \<and> app' = app_after f cs n app \<and>
    (n = length cs \<and> fin = fin0 \<and> (\<forall>j < n. turn_ends f cs app j) \<or>
     (\<exists>m. n = Suc m \<and> n \<le> length cs \<and> fin \<in> {Stuck, Crashed} \<and> \<not> turn_ends f cs app m \<and>
        (\<forall>j < m. turn_ends f cs app j)))"
  using each_single [of 0 cs fuel E B A clocks T app fin0 log app' fin] assms
  by (simp add: serve_single_thread_def accept_loop_each turns_def)

definition counting_server :: "(unit, unit) server" where
  "counting_server = \<lparr>srv_pool = (), srv_builder = builder_default, srv_incoming = FromIterator
     [Tcp (some_tcp [Avail (get_text ''/a'')]), Tcp (some_tcp [Avail (get_text ''/b'')])]\<rparr>"

definition unit_tls :: "unit tls_ops" where
  "unit_tls = \<lparr>to_sock = (\<lambda>_. some_tcp []), to_set_sock = (\<lambda>s t. ()), to_in = (\<lambda>t. []),
     to_set_in = (\<lambda>i t. ()), to_out = (\<lambda>t. new_writer), to_set_out = (\<lambda>w t. ())\<rparr>"

theorem single_thread_takes_turns_witness:
  "\<exists>log. serve_single_thread 5 ref_crates (body_impl ref_crates) uri_app (\<lambda>_ _. ''now'') unit_tls counting_server 0 =
     ((log, 2), AllServed) \<and> length log = 2"
proof -
  let ?r = "serve_single_thread 5 ref_crates (body_impl ref_crates) uri_app (\<lambda>_ _. ''now'') unit_tls counting_server 0"
  let ?cs = "fst (arriving unit_tls (srv_builder counting_server) (srv_incoming counting_server))"
  have r: "snd (fst ?r) = 2 \<and> snd ?r = AllServed" by code_simp
  have a: "arriving unit_tls (srv_builder counting_server) (srv_incoming counting_server) = (?cs, AllServed)"
    "length ?cs = 2" by code_simp+
  have eq: "?r = ((fst (fst ?r), snd (fst ?r)), snd ?r)" by simp
  from single_thread_takes_turns [OF eq a(1)] r a(2) obtain n where
    "n = 2" "length (fst (fst ?r)) = n" by (auto simp: turns_def)
  with r eq show ?thesis by metis
qed



section \<open>Handing a connection over\<close>

text \<open>
  C16: An upgrade gives the connection to the handler of the response after the response has been
  written and flushed.  The handler reads what follows the block in which the request ended, faults
  included; the bytes \<open>x\<close> that arrived in that block behind the request are lost with the buffer of
  the dropped reader.
\<close>

theorem upgrade_hands_connection_over:
  assumes "tls_law T" "conn_clone c = Ok c1" "w_cap (conn_out T c1) = None"
    and "carries E msg req" "quiet pre" "bytes_of pre @ y = msg" "y \<noteq> []"
    and "conn_in T c = pre @ Avail (y @ x) # post"
    and "\<not> expects_continue E (rq_headers req)"
    and "sv_call A app req = (Inr res0, fate, app')" "rs_upgrade res0 = Some h"
    and "res = prepare_response E (clock 0) (rq_version req)
      (connection_has E ''keep-alive'' (rq_headers req)) res0"
    and "response_plan E (body_len (rs_body res0)) res = Ok (enc, hs)"
    and "body_good E (rs_body res0)" "body_exact (rs_body res0)"
  shows "\<exists>s w. serve_conn (Suc fuel) E (body_impl E) A clock T c app = (Upgraded h s, w, app') \<and>
    w_out w = w_out (conn_out T c1) @ response_text E res hs @
      (if should_write_body (rq_method req) (rs_status res0)
       then body_wire E (body_impl E) (body_content E) enc (rs_body res0) else []) \<and>
    w_flushed w = length (w_out w) \<and> w_cap w = None \<and>
    conn_in T (handed_over T c s w) = post \<and> conn_out T (handed_over T c s w) = w"
  by (rule serve_conn_hands_over [where clock = clock, OF assms])

text \<open>A switch of protocols: the first bytes of the new protocol arrive with the request.\<close>

definition switching_app :: "(body, string, unit) service" where
  "switching_app = fn_service (\<lambda>n req.
     (Inr \<lparr>rs_status = SWITCHING_PROTOCOLS, rs_version = HTTP_11, rs_headers = [], rs_upgrade = Some ''handler'',
        rs_body = body_empty\<rparr>, Kept, n))"

definition switching_conn :: "(tcp_stream \<times> stream \<times> writer) connection" where
  "switching_conn = conn_from_tcp (some_tcp [Avail (get_text ''/a'' @ ''early''), Avail ''late'', Fault (OsError 104)])"

theorem upgrade_hands_connection_over_witness:
  "\<exists>s w. serve_conn 1 ref_crates (body_impl ref_crates) switching_app (\<lambda>_. ''now'') plain_tls switching_conn () =
      (Upgraded ''handler'' s, w, ()) \<and>
    conn_in plain_tls (handed_over plain_tls switching_conn s w) = [Avail ''late'', Fault (OsError 104)]"
proof -
  let ?raw = "\<lparr>rs_status = SWITCHING_PROTOCOLS, rs_version = HTTP_11, rs_headers = [], rs_upgrade = Some ''handler'',
    rs_body = body_empty\<rparr> :: (body, string) response"
  let ?res = "prepare_response ref_crates ''now'' HTTP_11
    (connection_has ref_crates ''keep-alive'' (rq_headers (get_request ''/a''))) ?raw"
  have clone: "conn_clone switching_conn = Ok switching_conn" "w_cap (conn_out plain_tls switching_conn) = None"
    by (simp_all add: switching_conn_def conn_from_tcp_def some_tcp_def new_writer_def)
  have carried: "carries ref_crates (get_text ''/a'') (get_request ''/a'')"
    using two_gets_carried by simp
  have script: "quiet []" "bytes_of [] @ get_text ''/a'' = get_text ''/a''" "get_text ''/a'' \<noteq> []"
    "conn_in plain_tls switching_conn = [] @ Avail (get_text ''/a'' @ ''early'') # [Avail ''late'', Fault (OsError 104)]"
    by (simp_all add: switching_conn_def conn_from_tcp_def some_tcp_def get_text_def)
  have app: "\<not> expects_continue ref_crates (rq_headers (get_request ''/a''))"
    "sv_call switching_app () (get_request ''/a'') = (Inr ?raw, Kept, ())" "rs_upgrade ?raw = Some ''handler''"
    by code_simp+
  have res: "?res = prepare_response ref_crates ((\<lambda>_. ''now'') (0::nat)) (rq_version (get_request ''/a''))
    (connection_has ref_crates ''keep-alive'' (rq_headers (get_request ''/a''))) ?raw"
    by (simp add: get_request_def)
  have plan: "response_plan ref_crates (body_len (rs_body ?raw)) ?res =
      Ok (FixedLength 0, [(''date'', ''now''), (''content-length'', ''0'')])" by code_simp
  have good: "body_good ref_crates (rs_body ?raw)" "body_exact (rs_body ?raw)" by code_simp+
  from upgrade_hands_connection_over [where clock = "\<lambda>_. ''now''", OF plain_tls_law clone carried script app res plan good, of 0]
  show ?thesis by auto
qed

end
