(* ===== verification/Client.thy ===== *)
theory Client
  imports Upgrade_Ext Connection
begin

text \<open>
  \<^verbatim>\<open>src/client.rs\<close>: sending one request over a connection, and the client that keeps one connection
  for each authority.
\<close>

section \<open>Errors and outcomes\<close>

datatype request_error =
    InvalidUri
  | UnsupportedScheme
  | UnsupportedVersion nat
  | RequestIo io_error
  | InvalidRequest request_error

datatype 'c connection_outcome = OClose | OKeepAlive 'c | OUpgrade 'c

fun outcome_closed :: "'c connection_outcome \<Rightarrow> bool" where
  "outcome_closed OClose \<longleftrightarrow> True"
| "outcome_closed (OKeepAlive c) \<longleftrightarrow> False"
| "outcome_closed (OUpgrade c) \<longleftrightarrow> False"

fun outcome_unwrap :: "'c connection_outcome \<Rightarrow> 'c res" where
  "outcome_unwrap OClose = Panic"
| "outcome_unwrap (OKeepAlive c) = Ok c"
| "outcome_unwrap (OUpgrade c) = Ok c"

fun outcome_into_inner :: "'c connection_outcome \<Rightarrow> 'c connection_outcome + 'c" where
  "outcome_into_inner (OKeepAlive c) = Inr c"
| "outcome_into_inner (OUpgrade c) = Inr c"
| "outcome_into_inner OClose = Inl OClose"

section \<open>What is left of a connection\<close>

text \<open>
  Where the reader of the response stands: handed back when it was dropped, or inside the body.
\<close>

fun body_source :: "body \<Rightarrow> stream option" where
  "body_source (Body (Some (Iter it))) = iter_source it"
| "body_source (Body (Some (Reader s len))) = Some s"
| "body_source _ = None"

definition reader_position :: "body \<Rightarrow> stream option \<Rightarrow> stream" where
  "reader_position b src =
     (case src of Some s \<Rightarrow> s | None \<Rightarrow> (case body_source b of Some s \<Rightarrow> s | None \<Rightarrow> []))"

section \<open>One request\<close>

text \<open>
  \<^verbatim>\<open>send_request\<close>: the second component is the connection at the end, whether the caller gets it
  or it is closed.  The socket is what is left of it when the response is returned; a streamed
  body still holds the reader and takes more from the same socket when it is read.
\<close>

definition send_request ::
  "crates \<Rightarrow> 'b http_body \<Rightarrow> 'tls tls_ops \<Rightarrow> 'tls connection \<Rightarrow> 'b request \<Rightarrow>
     ('tls connection connection_outcome \<times> (body, 'tls connection) response) res \<times> 'tls connection" where
  "send_request E B T conn req =
     (case conn_clone conn of
        Ok conn' \<Rightarrow>
          (let s = conn_in T conn'; back = (\<lambda>i w. conn_with T i w conn) in
           case write_request E B req (conn_out T conn) of
             (Err err, src, w) \<Rightarrow> (Err err, back s w)
           | (Panic, src, w) \<Rightarrow> (Panic, back s w)
           | (Ok _, src, w) \<Rightarrow>
               (case flush w of
                  (Err err, w1) \<Rightarrow> (Err err, back s w1)
                | (Panic, w1) \<Rightarrow> (Panic, back s w1)
                | (Ok _, w1) \<Rightarrow>
                    (case parse_response E s of
                       (Inl err, src) \<Rightarrow>
                         (Err (Other (parse_error_display err)),
                          back (case src of Some s' \<Rightarrow> socket_after s s' | None \<Rightarrow> []) w1)
                     | (Inr res, src) \<Rightarrow>
                         (let left = back (socket_after s (reader_position (rs_body res) src)) in
                          if connection_has E ''close'' (rs_headers res) then (Ok (OClose, res), left w1)
                          else case flush w1 of
                              (Err err, w2) \<Rightarrow> (Err err, left w2)
                            | (Panic, w2) \<Rightarrow> (Panic, left w2)
                            | (Ok _, w2) \<Rightarrow>
                                (Ok (if rs_status res = SWITCHING_PROTOCOLS then OUpgrade (left w2)
                                     else OKeepAlive (left w2), res), left w2)))))
      | _ \<Rightarrow> (Panic, conn))"

section \<open>The client\<close>

text \<open>
  The part of the \<^verbatim>\<open>http\<close> crate that takes a uri apart, and the operating system's answer to
  \<^verbatim>\<open>TcpStream::connect\<close>.
\<close>

type_synonym authority = string

record uri_ops =
  u_authority :: "uri \<Rightarrow> authority option"
  u_host :: "authority \<Rightarrow> string"
  u_port_u16 :: "authority \<Rightarrow> nat option"

type_synonym dial = "string \<Rightarrow> tcp_stream res"

type_synonym 'tls client = "authority \<Rightarrow> 'tls connection option"

definition client_new :: "'tls client" where
  "client_new = (\<lambda>_. None)"

definition dial_address :: "uri_ops \<Rightarrow> authority \<Rightarrow> string" where
  "dial_address U a = u_host U a @ '':'' @ dec (case u_port_u16 U a of Some p \<Rightarrow> p | None \<Rightarrow> 80)"

text \<open>\<^verbatim>\<open>self.connections.remove(&authority)\<close>, or else a new connection.\<close>

definition take_connection ::
  "uri_ops \<Rightarrow> dial \<Rightarrow> authority \<Rightarrow> 'tls client \<Rightarrow> 'tls connection res \<times> 'tls client" where
  "take_connection U dial a cl =
     (case cl a of
        Some conn \<Rightarrow> (Ok conn, cl(a := None))
      | None \<Rightarrow> (map_res conn_from_tcp (dial (dial_address U a)), cl(a := None)))"

definition client_request ::
  "crates \<Rightarrow> uri_ops \<Rightarrow> 'b http_body \<Rightarrow> 'tls tls_ops \<Rightarrow> dial \<Rightarrow> 'b request \<Rightarrow> 'tls client \<Rightarrow>
     (request_error + (body, 'tls connection) response) res \<times> 'tls client" where
  "client_request E U B T dial req cl =
     (case u_authority U (rq_uri req) of
        None \<Rightarrow> (Ok (Inl InvalidUri), cl)
      | Some a \<Rightarrow>
          (case take_connection U dial a cl of
             (Err err, cl1) \<Rightarrow> (Ok (Inl (RequestIo err)), cl1)
           | (Panic, cl1) \<Rightarrow> (Panic, cl1)
           | (Ok conn, cl1) \<Rightarrow>
               (case c_header_value E (u_host U a) of
                  None \<Rightarrow> (Panic, cl1)
                | Some host \<Rightarrow>
                    (let req' = req\<lparr>rq_headers := c_insert E ''host'' host (rq_headers req)\<rparr> in
                     case send_request E B T conn req' of
                       (Err err, _) \<Rightarrow> (Ok (Inl (RequestIo err)), cl1)
                     | (Panic, _) \<Rightarrow> (Panic, cl1)
                     | (Ok (outcome, res), _) \<Rightarrow>
                         (case outcome of
                            OClose \<Rightarrow> (Ok (Inr res), cl1)
                          | OUpgrade c \<Rightarrow> (Ok (Inr (res\<lparr>rs_upgrade := Some c\<rparr>)), cl1)
                          | OKeepAlive c \<Rightarrow> (Ok (Inr res), cl1(a \<mapsto> c)))))))"

end
