(* ===== verification/Client_Spec.thy ===== *)
theory Client_Spec
  imports Client Round_Trip
begin

text \<open>
  What \<open>send_request\<close> computes on a healthy connection, and the invariant of the pool of the client.
\<close>

section \<open>One exchange\<close>

definition send_outcome ::
  "crates \<Rightarrow> ('b, 'h) response \<Rightarrow> 'c \<Rightarrow> 'c connection_outcome" where
  "send_outcome E res c =
     (if connection_has E ''close'' (rs_headers res) then OClose
      else if rs_status res = SWITCHING_PROTOCOLS then OUpgrade c else OKeepAlive c)"

lemma conn_clone_in: "conn_clone c = Ok c' \<Longrightarrow> conn_in T c' = conn_in T c"
  by (cases c) (auto split: if_splits)

lemma conn_clone_no_Err [simp]: "conn_clone c \<noteq> Err e"
  by (cases c) auto

lemma conn_clone_cases: "conn_clone c = Panic \<or> (\<exists>c'. conn_clone c = Ok c')"
  by (cases "conn_clone c") auto

context chunked_body_contract
begin

lemma send_request_written:
  fixes T :: "'t tls_ops"
  assumes "request_plan E (hb_len B (rq_body req)) req = Ok (enc, h)"
    "request_version (rq_version req) = Ok v" "good (rq_body req)"
    "w_cap (conn_out T c) = None" "conn_clone c \<noteq> Panic"
  obtains w where
    "w_out w = w_out (conn_out T c) @ request_text req v h @ body_wire E B content enc (rq_body req)"
    "w_flushed w = length (w_out w)" "w_cap w = None"
    "\<And>err src. parse_response E (conn_in T c) = (Inl err :: parse_error + (body, 't connection) response, src) \<Longrightarrow>
       fst (send_request E B T c req) = Err (Other (parse_error_display err))"
    "\<And>res src. parse_response E (conn_in T c) = (Inr res, src) \<Longrightarrow>
       (let c' = conn_with T (socket_after (conn_in T c) (reader_position (rs_body res) src)) w c
        in send_request E B T c req = (Ok (send_outcome E res c', res), c'))"
    "\<And>r c'. tls_law T \<Longrightarrow> send_request E B T c req = (r, c') \<Longrightarrow> conn_out T c' = w"
proof -
  obtain c1 where c1: "conn_clone c = Ok c1" using assms(5) conn_clone_cases by blast
  from write_request_wire [OF assms(1,2,4,3)] obtain src w0 where
    w0: "write_request E B req (conn_out T c) = (Ok (), src, w0)"
    "w_out w0 = w_out (conn_out T c) @ request_text req v h @ body_wire E B content enc (rq_body req)"
    "w_cap w0 = None" by blast
  let ?w = "w0\<lparr>w_flushed := length (w_out w0)\<rparr>"
  show thesis
  proof (rule that [of ?w])
    fix r c'
    assume "tls_law T" "send_request E B T c req = (r, c')"
    with c1 w0 conn_clone_in [OF c1, of T] show "conn_out T c' = ?w"
      by (auto simp: send_request_def Let_def conn_with_in_out split: prod.splits sum.splits if_splits)
  qed (use c1 w0 conn_clone_in [OF c1, of T] in
        \<open>simp_all add: send_request_def send_outcome_def Let_def\<close>)
qed

end

text \<open>The reader of a response that owns the connection has what \<open>into_bytes\<close> gives back last.\<close>

lemma parse_response_source:
  "parse_response E s = (Inr res, src) \<Longrightarrow> (src = None \<longleftrightarrow> body_source (rs_body res) \<noteq> None)"
  by (auto simp: parse_response_def response_body_def body_from_vec_def body_from_reader_def body_empty_def
      split: prod.splits res.splits sum.splits option.splits if_splits)

lemma send_request_Ok:
  fixes T :: "'t tls_ops"
  assumes "send_request E B T c req = (Ok (k, res), c')"
  obtains src w where "parse_response E (conn_in T c) = (Inr res, src)"
    "c' = conn_with T (socket_after (conn_in T c) (reader_position (rs_body res) src)) w c"
    "k = send_outcome E res c'"
proof -
  obtain c1 where c1: "conn_clone c = Ok c1"
    using assms conn_clone_cases [of c] by (auto simp: send_request_def)
  from assms c1 conn_clone_in [OF c1, of T] that show thesis
    by (fastforce simp: send_request_def send_outcome_def Let_def
        split: prod.splits res.splits sum.splits if_splits)
qed

section \<open>The pool\<close>

text \<open>
  A run of a client: requests with any uri, headers and body, any answer of the operating system to
  \<^verbatim>\<open>connect\<close>, and bytes or faults arriving on the pooled connections in between.
\<close>

inductive client_step ::
  "crates \<Rightarrow> uri_ops \<Rightarrow> 'b http_body \<Rightarrow> 'tls tls_ops \<Rightarrow> dial \<Rightarrow> 'tls client \<Rightarrow> 'tls client \<Rightarrow> bool"
  for E U B T D where
  request: "client_request E U B T D req cl = (r, cl') \<Longrightarrow> client_step E U B T D cl cl'"
| arrive: "cl a = Some c \<Longrightarrow> client_step E U B T D cl (cl(a \<mapsto> conn_with T (conn_in T c @ s) (conn_out T c) c))"

inductive_cases client_stepE: "client_step E U B T D cl cl'"

definition client_reachable ::
  "crates \<Rightarrow> uri_ops \<Rightarrow> 'b http_body \<Rightarrow> 'tls tls_ops \<Rightarrow> dial \<Rightarrow> 'tls client \<Rightarrow> bool" where
  "client_reachable E U B T D cl \<longleftrightarrow> (client_step E U B T D)\<^sup>*\<^sup>* client_new cl"

text \<open>A connected socket knows its peer.\<close>

definition dial_law :: "dial \<Rightarrow> bool" where
  "dial_law D \<longleftrightarrow> (\<forall>addr tcp. D addr = Ok tcp \<longrightarrow> tcp_peer tcp = Ok addr)"

text \<open>Each pooled connection is a TCP connection to the address of its authority.\<close>

definition leads_to :: "'tls connection \<Rightarrow> string \<Rightarrow> bool" where
  "leads_to c addr \<longleftrightarrow> (case c of Tcp tcp \<Rightarrow> tcp_peer tcp = Ok addr | _ \<Rightarrow> False)"

definition pool_ok :: "uri_ops \<Rightarrow> 'tls client \<Rightarrow> bool" where
  "pool_ok U cl \<longleftrightarrow> (\<forall>a c. cl a = Some c \<longrightarrow> leads_to c (dial_address U a))"

lemma leads_to_with [simp]: "leads_to (conn_with T i w c) addr \<longleftrightarrow> leads_to c addr"
  by (cases c) (simp_all add: leads_to_def)

lemma send_request_with: "send_request E B T c req = (r, c') \<Longrightarrow>
    (c' = c \<or> (\<exists>i w. c' = conn_with T i w c)) \<and>
    (\<forall>k res. r = Ok (k, res) \<longrightarrow> k \<in> {OClose, OUpgrade c', OKeepAlive c'} \<and>
       (k = OClose \<longleftrightarrow> connection_has E ''close'' (rs_headers res)))"
  by (auto simp: send_request_def Let_def split: prod.splits res.splits sum.splits if_splits)

lemma take_connection_leads:
  "dial_law D \<Longrightarrow> pool_ok U cl \<Longrightarrow> take_connection U D a cl = (Ok c, cl1) \<Longrightarrow>
     leads_to c (dial_address U a)"
  by (auto simp: take_connection_def pool_ok_def dial_law_def leads_to_def conn_from_tcp_def
      split: option.splits)

lemma take_connection_pool: "take_connection U D a cl = (r, cl1) \<Longrightarrow> cl1 = cl(a := None)"
  by (auto simp: take_connection_def split: option.splits)

text \<open>
  What a request does to the pool: nothing without an authority; otherwise the connection of its
  authority is replaced by the one just used, if the exchange succeeded, was not closed and not
  upgraded, and removed in all other cases.
\<close>

lemma client_request_pool:
  assumes "client_request E U B T D req cl = (r, cl')" "u_authority U (rq_uri req) = Some a"
  shows "cl' = cl(a := None) \<or>
    (\<exists>c c' res. take_connection U D a cl = (Ok c, cl(a := None)) \<and> r = Ok (Inr res) \<and>
       \<not> connection_has E ''close'' (rs_headers res) \<and> (c' = c \<or> (\<exists>i w. c' = conn_with T i w c)) \<and>
       cl' = cl(a \<mapsto> c'))"
proof -
  obtain t cl1 where take: "take_connection U D a cl = (t, cl1)" by (metis surj_pair)
  note cl1 = take_connection_pool [OF take]
  show ?thesis
  proof (cases "\<exists>c host. t = Ok c \<and> c_header_value E (u_host U a) = Some host")
    case False
    with assms take cl1 show ?thesis
      by (auto simp: client_request_def split: res.splits option.splits)
  next
    case True
    then obtain c host where c: "t = Ok c" "c_header_value E (u_host U a) = Some host" by blast
    let ?req = "req\<lparr>rq_headers := c_insert E ''host'' host (rq_headers req)\<rparr>"
    obtain s c' where send: "send_request E B T c ?req = (s, c')" by (metis surj_pair)
    from send_request_with [OF send] assms take cl1 c send show ?thesis
      by (auto simp: client_request_def Let_def split: res.splits prod.splits connection_outcome.splits)
  qed
qed

lemma client_request_keeps_pool_ok:
  assumes "dial_law D" "pool_ok U cl" "client_request E U B T D req cl = (r, cl')"
  shows "pool_ok U cl'"
proof (cases "u_authority U (rq_uri req)")
  case None
  with assms show ?thesis by (simp add: client_request_def)
next
  case (Some a)
  from client_request_pool [OF assms(3) Some] take_connection_leads [OF assms(1,2)] assms(2)
  show ?thesis by (auto simp: pool_ok_def split: if_splits)
qed

lemma client_step_keeps_pool_ok:
  "client_step E U B T D cl cl' \<Longrightarrow> dial_law D \<Longrightarrow> pool_ok U cl \<Longrightarrow> pool_ok U cl'"
proof (induction rule: client_step.induct)
  case (request req cl r cl')
  then show ?case by (blast intro: client_request_keeps_pool_ok)
next
  case (arrive cl a c s)
  then show ?case by (simp add: pool_ok_def)
qed

lemma client_reachable_pool_ok: "client_reachable E U B T D cl \<Longrightarrow> dial_law D \<Longrightarrow> pool_ok U cl"
  unfolding client_reachable_def
  by (induction rule: rtranclp_induct) (auto simp: pool_ok_def client_new_def dest: client_step_keeps_pool_ok)

end
