(* ===== verification/Client_Properties.thy ===== *)
theory Client_Properties
  imports Client_Spec Listener_Properties Message_Properties
begin

text \<open>
  The properties of the client: one exchange, the pool of connections, and where the client loses
  track of the messages on a connection.
\<close>

section \<open>One exchange\<close>

text \<open>
  C13: On a healthy connection \<^verbatim>\<open>send_request\<close> writes and flushes exactly the request with its body, and
  returns the framed response that arrives, however it is cut: status, version, headers and body
  content are those sent.  The connection is closed, upgraded or kept as the response says.
\<close>

theorem client_exchange:
  fixes T :: "'t tls_ops" and req :: "body request"
  assumes "request_plan E (body_len (rq_body req)) req = Ok (renc, rh)" "rq_version req = HTTP_11"
    and "body_good E (rq_body req)" "body_exact (rq_body req)"
    and "tls_law T" "w_cap (conn_out T c) = None" "conn_clone c \<noteq> Panic"
    and "response_readable E ver status h" "framed E h enc content xs"
    and "quiet (conn_in T c)" "bytes_of (conn_in T c) =
      (status_line E ver status @ concat (map header_line h) @ crlf) @ framed_wire E enc content xs @ rest"
    and "enc = CloseDelimited \<Longrightarrow> rest = []"
  shows "\<exists>b src s' c' res.
    res = \<lparr>rs_status = status, rs_version = ver, rs_headers = h, rs_upgrade = None, rs_body = b\<rparr> \<and>
    send_request E (body_impl E) T c req = (Ok (send_outcome E res c', res), c') \<and>
    body_good E b \<and> body_content E b = content \<and>
    source_after E b src = Some s' \<and> bytes_of s' = unread_part E xs enc @ rest \<and>
    w_out (conn_out T c') = w_out (conn_out T c) @ request_text req ''HTTP/1.1'' rh @
      body_wire E (body_impl E) (body_content E) renc (rq_body req) \<and>
    w_flushed (conn_out T c') = length (w_out (conn_out T c'))"
proof -
  obtain b src s' where p: "parse_response E (conn_in T c) =
      (Inr \<lparr>rs_status = status, rs_version = ver, rs_headers = h, rs_upgrade = None :: 't connection option,
         rs_body = b\<rparr>, src)" "body_good E b" "body_content E b = content"
    "source_after E b src = Some s'" "bytes_of s' = unread_part E xs enc @ rest"
    using parse_response_framed [OF assms(8-12)] by blast
  have plan: "request_plan E (hb_len (body_impl E) (rq_body req)) req = Ok (renc, rh)"
    using assms(1) by (simp add: body_impl_def)
  have v: "request_version (rq_version req) = Ok ''HTTP/1.1''" using assms(2) by simp
  have g: "body_good E (rq_body req) \<and> body_exact (rq_body req)" using assms(3,4) by simp
  obtain w where w: "w_out w = w_out (conn_out T c) @ request_text req ''HTTP/1.1'' rh @
      body_wire E (body_impl E) (body_content E) renc (rq_body req)" "w_flushed w = length (w_out w)"
    and sent: "\<And>res src. parse_response E (conn_in T c) = (Inr res, src) \<Longrightarrow>
       (let c' = conn_with T (socket_after (conn_in T c) (reader_position (rs_body res) src)) w c
        in send_request E (body_impl E) T c req = (Ok (send_outcome E res c', res), c'))"
    using body_chunks.send_request_written [OF plan v g assms(6,7)] by metis
  show ?thesis
    using sent [OF p(1)] p(2-5) w conn_with_in_out [OF assms(5)] unfolding Let_def by metis
qed

theorem client_exchange_witness:
  "\<exists>b c' res. rs_status res = 200 \<and> rs_body res = b \<and> body_content ref_crates b = ''hello'' \<and>
    send_request ref_crates (body_impl ref_crates) plain_tls
      (conn_from_tcp (some_tcp [Avail (take 7 hello_wire), Avail (drop 7 hello_wire)]))
      upload_request = (Ok (OKeepAlive c', res), c') \<and>
    w_out (conn_out plain_tls c') = upload_wire"
proof -
  let ?c = "conn_from_tcp (some_tcp [Avail (take 7 hello_wire), Avail (drop 7 hello_wire)])
    :: (tcp_stream \<times> stream \<times> writer) connection"
  have v: "rq_version upload_request = HTTP_11" by (simp add: upload_request_def)
  have g: "body_good ref_crates (rq_body upload_request)" "body_exact (rq_body upload_request)" by code_simp+
  have w: "w_cap (conn_out plain_tls ?c) = None" "conn_clone ?c \<noteq> Panic" by code_simp+
  have "announces ref_crates hello_headers (FixedLength 5)" by code_simp
  moreover have "clean_headers ref_crates hello_headers"
    by (rule clean_headersI [where l = "Some 5"]) code_simp+
  ultimately have f: "framed ref_crates hello_headers (FixedLength 5) ''hello'' []" by (simp add: framed_def)
  have q: "quiet (conn_in plain_tls ?c)" by code_simp
  have bs: "bytes_of (conn_in plain_tls ?c) =
      (status_line ref_crates HTTP_11 200 @ concat (map header_line hello_headers) @ crlf) @
      framed_wire ref_crates (FixedLength 5) ''hello'' [] @ []" by code_simp
  have out: "w_out (conn_out plain_tls ?c) @ request_text upload_request ''HTTP/1.1'' upload_headers @
      body_wire ref_crates (body_impl ref_crates) (body_content ref_crates) Chunked (rq_body upload_request) = upload_wire"
    by code_simp
  have close: "\<not> connection_has ref_crates ''close'' hello_headers" by code_simp
  from client_exchange [OF upload_plan v g plain_tls_law w hello_readable f q bs]
  show ?thesis unfolding out by (auto simp: send_outcome_def close SWITCHING_PROTOCOLS_def)
qed

section \<open>The pool\<close>


definition slash_uri_ops :: uri_ops where
  "slash_uri_ops = \<lparr>u_authority = (\<lambda>u. if u = ''/a'' then Some ''h'' else None), u_host = (\<lambda>a. a),
     u_port_u16 = (\<lambda>a. None)\<rparr>"

definition hello_dial :: dial where
  "hello_dial addr = Ok (some_tcp [Avail hello_wire]\<lparr>tcp_peer := Ok addr\<rparr>)"

definition after_hello :: "(tcp_stream \<times> stream \<times> writer) client" where
  "after_hello = snd (client_request ref_crates slash_uri_ops (body_impl ref_crates) plain_tls hello_dial
     (get_request ''/a'') client_new)"



definition hello_request ::
  "uri \<Rightarrow> (request_error + (body, (tcp_stream \<times> stream \<times> writer) connection) response) res \<times>
     (tcp_stream \<times> stream \<times> writer) client" where
  "hello_request u = client_request ref_crates slash_uri_ops (body_impl ref_crates) plain_tls hello_dial
     (get_request u) client_new"


section \<open>Losing track\<close>

text \<open>
  C29: A response with a streamed body is returned together with its connection while the body is still
  unread: the connection that the caller (or the pool) gets continues with the frames of that body.
  The next request over it takes them for its response.
\<close>

theorem unread_body_is_next_response:
  fixes T :: "'t tls_ops" and req2 :: "body request"
  assumes "send_request E B T c req = (Ok (OKeepAlive c1, res), c2)" "tls_law T"
    and "body_source (rs_body res) = Some s1" "suffix s1 (conn_in T c)"
    and "request_plan E (body_len (rq_body req2)) req2 = Ok (enc, h)" "rq_version req2 = HTTP_11"
    and "body_good E (rq_body req2)" "body_exact (rq_body req2)"
    and "w_cap (conn_out T c1) = None" "conn_clone c1 \<noteq> Panic"
    and "parse_response E s1 = (Inl err :: parse_error + (body, 't connection) response, x)"
  shows "conn_in T c1 = s1 \<and>
    fst (send_request E (body_impl E) T c1 req2) = Err (Other (parse_error_display err))"
proof -
  from assms(1) obtain src w where p: "parse_response E (conn_in T c) = (Inr res, src)"
    "c2 = conn_with T (socket_after (conn_in T c) (reader_position (rs_body res) src)) w c"
    "OKeepAlive c1 = send_outcome E res c2"
    by (rule send_request_Ok)
  have "src = None" using parse_response_source [OF p(1)] assms(3) by simp
  moreover have "c1 = c2" using p(3) by (simp add: send_outcome_def split: if_splits)
  ultimately have in1: "conn_in T c1 = s1"
    using p(2) assms(3,4) conn_with_in_out [OF assms(2)] by (simp add: reader_position_def)
  have plan: "request_plan E (hb_len (body_impl E) (rq_body req2)) req2 = Ok (enc, h)"
    using assms(5) by (simp add: body_impl_def)
  have v: "request_version (rq_version req2) = Ok ''HTTP/1.1''" using assms(6) by simp
  have g: "body_good E (rq_body req2) \<and> body_exact (rq_body req2)" using assms(7,8) by simp
  have "fst (send_request E (body_impl E) T c1 req2) = Err (Other (parse_error_display err))"
    using body_chunks.send_request_written [OF plan v g assms(9,10)] assms(11) in1 by metis
  with in1 show ?thesis by simp
qed

definition chunked_head :: bytes where
  "chunked_head = ''HTTP/1.1 200 OK'' @ crlf @ ''transfer-encoding: chunked'' @ crlf @ crlf"

definition chunked_rest :: bytes where
  "chunked_rest = ''2'' @ crlf @ ''hi'' @ crlf @ ''0'' @ crlf @ crlf"

definition chunked_conn :: "(tcp_stream \<times> stream \<times> writer) connection" where
  "chunked_conn = conn_from_tcp (some_tcp [Avail chunked_head, Avail chunked_rest])"

definition first_exchange ::
  "((tcp_stream \<times> stream \<times> writer) connection connection_outcome \<times>
     (body, (tcp_stream \<times> stream \<times> writer) connection) response) res \<times> (tcp_stream \<times> stream \<times> writer) connection" where
  "first_exchange = send_request ref_crates (body_impl ref_crates) plain_tls chunked_conn (get_request ''/a'')"

theorem unread_body_is_next_response_witness:
  "\<exists>c1 res c2. first_exchange = (Ok (OKeepAlive c1, res), c2) \<and>
     fst (send_request ref_crates (body_impl ref_crates) plain_tls c1 (get_request ''/b'')) =
       Err (Other ''invalid request'')"
proof -
  let ?r = "\<lparr>rs_status = 200, rs_version = HTTP_11, rs_headers = [(''transfer-encoding'', ''chunked'')],
    rs_upgrade = None, rs_body = Body (Some (Iter (ChunkedReader [Avail chunked_rest])))\<rparr>
    :: (body, (tcp_stream \<times> stream \<times> writer) connection) response"
  let ?c = "snd first_exchange"
  have e: "first_exchange = (Ok (OKeepAlive ?c, ?r), ?c)" by code_simp
  have e': "send_request ref_crates (body_impl ref_crates) plain_tls chunked_conn (get_request ''/a'') =
      (Ok (OKeepAlive ?c, ?r), ?c)"
    unfolding first_exchange_def by (rule e [unfolded first_exchange_def])
  have plan: "request_plan ref_crates (body_len (rq_body (get_request ''/b''))) (get_request ''/b'') =
      Ok (FixedLength 0, [(''content-length'', ''0'')])"
    "rq_version (get_request ''/b'') = HTTP_11" by code_simp+
  have g: "body_good ref_crates (rq_body (get_request ''/b''))" "body_exact (rq_body (get_request ''/b''))"
    "w_cap (conn_out plain_tls ?c) = None" "conn_clone ?c \<noteq> Panic" by code_simp+
  have src: "body_source (rs_body ?r) = Some [Avail chunked_rest]"
    "suffix [Avail chunked_rest] (conn_in plain_tls chunked_conn)"
    by (simp_all add: chunked_conn_def some_tcp_def conn_from_tcp_def suffix_Cons)
  obtain err x where p: "parse_response ref_crates [Avail chunked_rest] =
      (Inl err :: parse_error + (body, (tcp_stream \<times> stream \<times> writer) connection) response, x)"
    "parse_error_display err = ''invalid request''"
  proof -
    have "(case parse_response ref_crates [Avail chunked_rest]
        :: (parse_error + (body, (tcp_stream \<times> stream \<times> writer) connection) response) \<times> stream option of
        (Inl err, x) \<Rightarrow> parse_error_display err = ''invalid request'' | _ \<Rightarrow> False)" by code_simp
    then show thesis using that by (auto split: prod.splits sum.splits)
  qed
  show ?thesis
    using unread_body_is_next_response [OF e' plain_tls_law src plan g p(1)] e p(2)
    by metis
qed

text \<open>
  C30: The client does not take the method of its request into account: the response to a \<^verbatim>\<open>HEAD\<close>, which
  announces the length of a body that is not sent, fails when the connection has no more bytes,
  and otherwise swallows the bytes of the next message.
\<close>

theorem head_response_misread:
  fixes T :: "'t tls_ops" and req :: "body request"
  assumes "request_plan E (body_len (rq_body req)) req = Ok (renc, rh)" "rq_version req = HTTP_11"
    and "body_good E (rq_body req)" "body_exact (rq_body req)"
    and "w_cap (conn_out T c) = None" "conn_clone c \<noteq> Panic" "rq_method req = ''HEAD''"
    and "response_readable E ver status h" "announces E h (FixedLength n)" "clean_headers E h" "n < 1024"
    and "quiet (conn_in T c)" "bytes_of (conn_in T c) =
      (status_line E ver status @ concat (map header_line h) @ crlf) @ rest"
  shows "if n \<le> length rest
    then \<exists>k res c'. send_request E (body_impl E) T c req = (Ok (k, res), c') \<and> rs_status res = status \<and>
      rs_body res = Body (Some (Buffered (take n rest)))
    else fst (send_request E (body_impl E) T c req) = Err (Other ''io error'')"
proof -
  let ?head = "status_line E ver status @ concat (map header_line h) @ crlf"
  have ok: "line_ok (c_version_debug E ver @ '' '' @ c_status_display E status)" "list_all header_ok h"
    using assms(8) by (simp_all add: response_readable_def)
  from split_head_message [OF ok, of rest] have "split_head [] (bytes_of (conn_in T c)) = (?head, rest)"
    by (simp add: assms(13) status_line_def)
  with read_head_quiet [OF assms(12), of "[]"] obtain s1 where
    s1: "read_head [] (conn_in T c) = (Ok ?head, s1)" "quiet s1" "bytes_of s1 = rest" by auto
  have te: "c_transfer_encoding E h = Inr None" "c_content_length E h = Inr (Some n)"
    using assms(9,10)
    by (auto simp: announces_def clean_headers_def has_chunked_def get_content_length_def)
  have body: "response_body E h s1 =
      (if n \<le> length rest then (Inr (body_from_vec (take n rest)), Some (advance n s1))
       else (Inl (Io UnexpectedEof), Some []))"
    using te assms(11) s1(2,3) by (simp add: response_body_def read_exact_quiet)
  have plan: "request_plan E (hb_len (body_impl E) (rq_body req)) req = Ok (renc, rh)"
    using assms(1) by (simp add: body_impl_def)
  have v: "request_version (rq_version req) = Ok ''HTTP/1.1''" using assms(2) by simp
  have g: "body_good E (rq_body req) \<and> body_exact (rq_body req)" using assms(3,4) by simp
  show ?thesis
  proof (cases "n \<le> length rest")
    case True
    with s1(1) body response_head_read [OF assms(8)] have p: "parse_response E (conn_in T c) =
      (Inr \<lparr>rs_status = status, rs_version = ver, rs_headers = h, rs_upgrade = None :: 't connection option,
         rs_body = body_from_vec (take n rest)\<rparr>, Some (advance n s1))"
      by (simp add: parse_response_def)
    obtain w where sent: "\<And>res src. parse_response E (conn_in T c) = (Inr res, src) \<Longrightarrow>
       (let c' = conn_with T (socket_after (conn_in T c) (reader_position (rs_body res) src)) w c
        in send_request E (body_impl E) T c req = (Ok (send_outcome E res c', res), c'))"
      using body_chunks.send_request_written [OF plan v g assms(5,6)] by metis
    from sent [OF p] True show ?thesis by (auto simp: Let_def body_from_vec_def)
  next
    case False
    with s1(1) body response_head_read [OF assms(8)] have p: "parse_response E (conn_in T c) =
      (Inl (Io UnexpectedEof) :: parse_error + (body, 't connection) response, Some [])"
      by (simp add: parse_response_def)
    have "fst (send_request E (body_impl E) T c req) = Err (Other (parse_error_display (Io UnexpectedEof)))"
      using body_chunks.send_request_written [OF plan v g assms(5,6)] p by metis
    with False show ?thesis by simp
  qed
qed

definition head_request :: "body request" where
  "head_request = get_request ''/a''\<lparr>rq_method := ''HEAD''\<rparr>"

definition head_conn :: "(tcp_stream \<times> stream \<times> writer) connection" where
  "head_conn = conn_from_tcp (some_tcp [Avail (take (length hello_wire - 5) hello_wire)])"

theorem head_response_misread_witness:
  "fst (send_request ref_crates (body_impl ref_crates) plain_tls head_conn head_request) = Err (Other ''io error'')"
proof -
  have plan: "request_plan ref_crates (body_len (rq_body head_request)) head_request =
      Ok (FixedLength 0, [(''content-length'', ''0'')])" "rq_version head_request = HTTP_11" by code_simp+
  have g: "body_good ref_crates (rq_body head_request)" "body_exact (rq_body head_request)"
    "w_cap (conn_out plain_tls head_conn) = None" "conn_clone head_conn \<noteq> Panic"
    "rq_method head_request = ''HEAD''" by code_simp+
  have f: "announces ref_crates hello_headers (FixedLength 5)" by code_simp
  have c: "clean_headers ref_crates hello_headers"
    by (rule clean_headersI [where l = "Some 5"]) code_simp+
  have q: "quiet (conn_in plain_tls head_conn)" by code_simp
  have bs: "bytes_of (conn_in plain_tls head_conn) =
      (status_line ref_crates HTTP_11 200 @ concat (map header_line hello_headers) @ crlf) @ []" by code_simp
  from head_response_misread [OF plan g hello_readable f c _ q bs] show ?thesis by simp
qed

end
