(* ===== verification/Exchange.thy ===== *)
theory Exchange
  imports Client_Spec Server_Pipeline
begin

text \<open>
  The client and the server together: what \<open>send_request\<close> writes is one request for \<open>serve\<close>, and
  what \<open>serve\<close> writes in answer is one response for \<open>send_request\<close>.
\<close>

section \<open>A request on the wire\<close>

definition received_request :: "crates \<Rightarrow> 'b request \<Rightarrow> header_map \<Rightarrow> bytes \<Rightarrow> body request" where
  "received_request E req h content =
     \<lparr>rq_method = rq_method req, rq_uri = rq_uri req, rq_version = HTTP_11, rq_headers = h,
      rq_body = body_from_vec content\<rparr>"

lemma carries_framed:
  assumes "request_readable E (rq_method req) (rq_uri req) ''HTTP/1.1'' HTTP_11 h"
    and "framed E h (FixedLength n) content xs" "n < 1024"
  shows "carries E (request_text req ''HTTP/1.1'' h @ content) (received_request E req h content)"
proof -
  let ?start = "rq_method req @ '' '' @ rq_uri req @ '' '' @ ''HTTP/1.1''"
  have ok: "line_ok ?start" "list_all header_ok h" using assms(1) by (simp_all add: request_readable_def)
  have "split_head [] ((request_text req ''HTTP/1.1'' h @ content) @ rest) =
      (request_text req ''HTTP/1.1'' h, content @ rest)" for rest
    using split_head_message [OF ok, of "content @ rest"] by (simp add: request_text_def request_line_def)
  moreover have "request_head E (request_text req ''HTTP/1.1'' h) = Inr (rq_method req, rq_uri req, HTTP_11, h)"
    using request_head_read [OF assms(1)] by (simp add: request_text_def)
  moreover have "request_body_bytes E h (content @ rest) = (Inr (ABuffered content), Some rest)" for rest
    using framed_headers(1,2) [OF assms(2)] assms(3) by (simp add: request_body_bytes_def)
  ultimately show ?thesis
    by (simp add: carries_def parse_request_bytes_def received_request_def abs_request_def body_from_vec_def)
qed

section \<open>One request served\<close>

context chunked_body_contract
begin

lemma serve_one:
  assumes "carries E msg req" "quiet up" "bytes_of up = msg" "1 < fuel"
    and "\<not> expects_continue E (rq_headers req)"
    and "sv_call A app req = (Inr res0, fate, app')"
    and "res = prepare_response E (clock 0) (rq_version req)
      (connection_has E ''keep-alive'' (rq_headers req)) res0"
    and "response_plan E (hb_len B (rs_body res0)) res = Ok (enc, h)" "good (rs_body res0)" "w_cap w = None"
    and "should_write_body (rq_method req) (rs_status res0)" "rs_upgrade res0 = None"
  shows "\<exists>w'. serve fuel E B A clock up w app = (Returned (Ok ()), w', app') \<and>
    w_out w' = w_out w @ response_text E res h @ body_wire E B content enc (rs_body res0)"
proof -
  have "forgetting (serve fuel E B A clock up w app) =
      answer_all E B A clock 0 (parse_failure ConnectionClosed) [req] w app"
    by (rule serve_answer_all [where ms = "[msg]" and tail = "[]"])
      (use assms(1-4) parse_request_bytes_Nil in auto)
  moreover obtain given w1 where "answer_request E B A (clock 0) req w app =
      (next_control E req (response_outcome E None enc h), given, w1, app')"
    and w1: "w_out w1 = w_out w @ response_text E res h @ body_wire E B content enc (rs_body res0)" "w_cap w1 = None"
    using answer_request_healthy [OF assms(6) assms(8) [unfolded assms(7)] assms(9,10)] assms(7,11,12) by auto
  moreover have "next_control E req (response_outcome E None enc h) \<in> {Continue, Break}"
    by (simp add: next_control_def response_outcome_def)
  ultimately have "forgetting (serve fuel E B A clock up w app) = (Returned (Ok ()), drop_writer w1, app')"
    using assms(5) by (auto simp: handle_request_plain parse_failure_def pipe_leave_def)
  then have "serve fuel E B A clock up w app = (Returned (Ok ()), drop_writer w1, app')"
    unfolding forgetting_Returned .
  with w1 show ?thesis by (auto simp: drop_writer_def)
qed

end

end
