(* ===== verification/Streaming.thy ===== *)
theory Streaming
  imports Exchange Example_Apps
begin

text \<open>
  Requests whose bodies are streamed from the connection into the response: copying leaves the
  connection's reader right behind the body, so the next request is found there.
\<close>

section \<open>Copying a limited source\<close>

lemma take_read_quiet:
  assumes "quiet s" "0 < n"
  obtains bs s' where "take_read n l s = (Ok bs, l - length bs, s')" "quiet s'"
    "bytes_of s = bs @ bytes_of s'" "length bs \<le> l" "bs = [] \<Longrightarrow> l = 0 \<or> bytes_of s = []"
proof (cases "l = 0")
  case True
  with assms that [of "[]" s] show ?thesis by (simp add: take_read_def)
next
  case False
  with assms(2) have "0 < min n l" by simp
  from source.rd_goodE [OF assms(1) this] obtain bs s' where
    "read (min n l) s = (Ok bs, s')" "quiet s'" "bytes_of s = bs @ bytes_of s'"
    "length bs \<le> min n l" "bs = [] \<Longrightarrow> bytes_of s = []" by blast
  with False that [of bs s'] show ?thesis by (simp add: take_read_def)
qed

lemma io_copy_limited:
  "quiet s \<Longrightarrow> w_cap w = None \<Longrightarrow>
     \<exists>s' l'. io_copy E (RReader s (Some l)) w =
         (Ok (length (take l (bytes_of s))), RReader s' (Some l'), w\<lparr>w_out := w_out w @ take l (bytes_of s)\<rparr>) \<and>
       quiet s' \<and> bytes_of s' = drop l (bytes_of s)"
proof (induction "RReader s (Some l)" w arbitrary: s l rule: io_copy.induct)
  case (1 E w)
  from take_read_quiet [OF "1.prems"(1) CHUNK_BUF_pos, of l] obtain bs s1 where
    s1: "take_read CHUNK_BUF l s = (Ok bs, l - length bs, s1)" "quiet s1"
      "bytes_of s = bs @ bytes_of s1" "length bs \<le> l" "bs = [] \<Longrightarrow> l = 0 \<or> bytes_of s = []" by blast
  then have read: "body_read E CHUNK_BUF (RReader s (Some l)) = (Ok bs, RReader s1 (Some (l - length bs)))"
    by simp
  show ?case
  proof (cases "bs = []")
    case True
    with s1 read show ?thesis by (auto simp: io_copy.simps [of E "RReader s (Some l)" w])
  next
    case False
    let ?w = "w\<lparr>w_out := w_out w @ bs\<rparr>"
    have "write_all bs w = (Ok (), ?w)" using "1.prems" by simp
    from "1.hyps"(1) [OF read [symmetric] refl False this [symmetric] refl s1(2)] "1.prems"
    obtain s' l' where "io_copy E (RReader s1 (Some (l - length bs))) ?w =
        (Ok (length (take (l - length bs) (bytes_of s1))), RReader s' (Some l'),
         ?w\<lparr>w_out := w_out ?w @ take (l - length bs) (bytes_of s1)\<rparr>)"
      "quiet s'" "bytes_of s' = drop (l - length bs) (bytes_of s1)" by auto
    with False s1 read "1.prems" show ?thesis
      by (simp add: io_copy.simps [of E "RReader s (Some l)" w])
  qed
qed

section \<open>Posted bodies\<close>

text \<open>
  A readable request with a body of known length, as a client writes it; the connection is to be
  kept, and the response's body is wanted.
\<close>

definition posted :: "crates \<Rightarrow> bytes request \<Rightarrow> bool" where
  "posted E req \<longleftrightarrow>
     rq_version req = HTTP_11 \<and>
     request_readable E (rq_method req) (rq_uri req) ''HTTP/1.1'' HTTP_11 (rq_headers req) \<and>
     framed E (rq_headers req) (FixedLength (length (rq_body req))) (rq_body req) [] \<and>
     \<not> expects_continue E (rq_headers req) \<and> \<not> connection_has E ''close'' (rq_headers req) \<and>
     rq_method req \<notin> {''HEAD'', ''CONNECT''}"

definition posted_wire :: "bytes request \<Rightarrow> bytes" where
  "posted_wire req = request_text req ''HTTP/1.1'' (rq_headers req) @ rq_body req"

definition with_body :: "bytes request \<Rightarrow> body \<Rightarrow> body request" where
  "with_body req b = \<lparr>rq_method = rq_method req, rq_uri = rq_uri req, rq_version = rq_version req,
     rq_headers = rq_headers req, rq_body = b\<rparr>"

text \<open>
  Writing the body of the parsed request as it came leaves the reader behind the body, whether the
  parser had buffered the body or left it in the connection.
\<close>

definition passes_through :: "crates \<Rightarrow> bytes \<Rightarrow> bytes \<Rightarrow> body \<Rightarrow> stream option \<Rightarrow> bool" where
  "passes_through E content rest b src \<longleftrightarrow>
     body_len b = Some (length content) \<and>
     (\<forall>w. w_cap w = None \<longrightarrow>
        (\<exists>given s'. write_body E (body_impl E) (FixedLength (length content)) b w =
             (Ok (), given, w\<lparr>w_out := w_out w @ content\<rparr>) \<and>
           or_source src given = Some s' \<and> quiet s' \<and> bytes_of s' = rest))"

lemma request_body_passes:
  assumes "c_transfer_encoding E h = Inr None" "c_content_length E h = Inr (Some (length content))"
    and "quiet s" "bytes_of s = content @ rest"
  obtains b src where "request_body E h s = (Inr b, src)" "passes_through E content rest b src"
proof (cases "length content < 1024")
  case True
  with assms have "request_body E h s = (Inr (body_from_vec content), Some (advance (length content) s))"
    by (simp add: request_body_def read_exact_quiet)
  moreover have "passes_through E content rest (body_from_vec content) (Some (advance (length content) s))"
    using True assms(3,4) by (simp add: passes_through_def write_body_def body_impl_def body_from_vec_def)
  ultimately show thesis by (rule that)
next
  case False
  with assms have "request_body E h s = (Inr (body_from_reader s (Some (length content))), None)"
    by (simp add: request_body_def)
  moreover have "passes_through E content rest (body_from_reader s (Some (length content))) None"
    unfolding passes_through_def
  proof (intro conjI allI impI)
    fix w :: writer
    assume "w_cap w = None"
    from io_copy_limited [OF assms(3) this, of E "length content"] False assms(4)
    show "\<exists>given s'. write_body E (body_impl E) (FixedLength (length content))
        (body_from_reader s (Some (length content))) w = (Ok (), given, w\<lparr>w_out := w_out w @ content\<rparr>) \<and>
      or_source None given = Some s' \<and> quiet s' \<and> bytes_of s' = rest"
      by (auto simp: write_body_def copy_body_def body_impl_def body_from_reader_def)
  qed (simp add: body_from_reader_def)
  ultimately show thesis by (rule that)
qed

lemma posted_parsed:
  assumes "posted E req" "quiet s" "bytes_of s = posted_wire req @ rest"
  obtains b src where "parse_request E s = (Inr (with_body req b), src)" "passes_through E (rq_body req) rest b src"
proof -
  note p = assms(1) [unfolded posted_def]
  let ?head = "request_text req ''HTTP/1.1'' (rq_headers req)"
  have ok: "line_ok (rq_method req @ '' '' @ rq_uri req @ '' '' @ ''HTTP/1.1'')" "list_all header_ok (rq_headers req)"
    using p by (simp_all add: request_readable_def)
  have "split_head [] (bytes_of s) = (?head, rq_body req @ rest)"
    using split_head_message [OF ok, of "rq_body req @ rest"] assms(3)
    by (simp add: posted_wire_def request_text_def request_line_def)
  with read_head_quiet [OF assms(2), of "[]"] obtain s1 where
    s1: "read_head [] s = (Ok ?head, s1)" "quiet s1" "bytes_of s1 = rq_body req @ rest" by auto
  have head: "request_head E ?head = Inr (rq_method req, rq_uri req, HTTP_11, rq_headers req)"
    using p request_head_read [of E "rq_method req" "rq_uri req" "''HTTP/1.1''" HTTP_11 "rq_headers req"]
    by (simp add: request_text_def)
  have framing: "c_transfer_encoding E (rq_headers req) = Inr None"
    "c_content_length E (rq_headers req) = Inr (Some (length (rq_body req)))"
    using p framed_headers(1,2) by fastforce+
  from request_body_passes [OF framing s1(2,3)] obtain b src where
    "request_body E (rq_headers req) s1 = (Inr b, src)" "passes_through E (rq_body req) rest b src" by blast
  with s1(1) head p that show thesis by (simp add: parse_request_def with_body_def)
qed

section \<open>The echo server\<close>

definition echo_headers :: "crates \<Rightarrow> bytes \<Rightarrow> nat \<Rightarrow> header_map" where
  "echo_headers E now n = c_insert_content_length E n (c_insert_date E now [])"

definition echo_text :: "crates \<Rightarrow> bytes \<Rightarrow> bytes \<Rightarrow> bytes" where
  "echo_text E now content =
     status_line E HTTP_11 200 @ concat (map header_line (echo_headers E now (length content))) @ crlf @ content"

lemma echo_written:
  assumes laws: "typed_insert_law E" "date_law E" and p: "passes_through E content rest b src"
    and w: "w_cap w = None"
    and res: "res = prepare_response E now HTTP_11 k (ok_response b :: (body, 'h) response)"
  shows "\<exists>given s' w'. write_response E (body_impl E) res True w = (Ok KeepAlive, given, w') \<and>
    w_out w' = w_out w @ echo_text E now content \<and> w_cap w' = None \<and>
    or_source src given = Some s' \<and> quiet s' \<and> bytes_of s' = rest"
proof -
  have r: "res = \<lparr>rs_status = 200, rs_version = HTTP_11, rs_headers = c_insert_date E now [], rs_upgrade = None, rs_body = b\<rparr>"
    using laws(2) res by (simp add: prepare_response_def ok_response_def date_law_def Let_def)
  have len: "hb_len (body_impl E) b = Some (length content)" using p by (simp add: passes_through_def body_impl_def)
  have plan: "response_plan E (hb_len (body_impl E) (rs_body res)) res =
      Ok (FixedLength (length content), echo_headers E now (length content))"
    using laws(2) r len
    by (simp add: response_plan_def response_encoding_def response_headers_def date_law_def has_chunked_def
        connection_has_def get_content_length_def echo_headers_def)
  have outcome: "response_outcome E (rs_upgrade res) (FixedLength (length content)) (echo_headers E now (length content)) = KeepAlive"
    using laws r by (simp add: response_outcome_def echo_headers_def connection_has_def typed_insert_law_def date_law_def)
  let ?w = "w\<lparr>w_out := w_out w @ response_text E res (echo_headers E now (length content))\<rparr>"
  have "w_cap ?w = None" using w by simp
  with p have "\<exists>given s'. write_body E (body_impl E) (FixedLength (length content)) b ?w =
      (Ok (), given, ?w\<lparr>w_out := w_out ?w @ content\<rparr>) \<and> or_source src given = Some s' \<and> quiet s' \<and> bytes_of s' = rest"
    unfolding passes_through_def by blast
  with write_response_body [OF plan w] r outcome w show ?thesis
    by (auto simp: response_text_def echo_text_def)
qed

lemma echo_step:
  assumes laws: "typed_insert_law E" "date_law E" and req: "posted E req"
    and p: "pc_conn p = Some s" "quiet s" "bytes_of s = posted_wire req @ rest" "w_cap (pc_writer p) = None"
  obtains s' w' where "pipe_step E (body_impl E) (echo_app :: (body, 'h, unit) service) clock p =
      Inr \<lparr>pc_conn = Some s', pc_writer = w', pc_app = (), pc_count = Suc (pc_count p)\<rparr>"
    "quiet s'" "bytes_of s' = rest" "w_cap w' = None"
    "w_out w' = w_out (pc_writer p) @ echo_text E (clock (pc_count p)) (rq_body req)"
proof -
  from posted_parsed [OF req p(2,3)] obtain b src where
    parse: "parse_request E s = (Inr (with_body req b), src)" and pass: "passes_through E (rq_body req) rest b src" by blast
  let ?k = "connection_has E ''keep-alive'' (rq_headers req)"
  from echo_written [OF laws pass p(4) refl, of "clock (pc_count p)" ?k] obtain given s' w' where
    wr: "write_response E (body_impl E) (prepare_response E (clock (pc_count p)) HTTP_11 ?k
        (ok_response b :: (body, 'h) response)) True (pc_writer p) = (Ok KeepAlive, given, w')"
    and w': "w_out w' = w_out (pc_writer p) @ echo_text E (clock (pc_count p)) (rq_body req)" "w_cap w' = None"
    and s': "or_source src given = Some s'" "quiet s'" "bytes_of s' = rest" by blast
  have "handle_request E (body_impl E) echo_app (clock (pc_count p)) (with_body req b) (pc_writer p) (pc_app p) =
      (Continue :: 'h control, given, w'\<lparr>w_flushed := length (w_out w')\<rparr>, ())"
    using req wr w'(2)
    by (simp add: posted_def with_body_def handle_request_def answer_request_def echo_app_def fn_service_def
        should_write_body_def demands_close_def given_back_def ok_response_def Let_def)
  with parse s' w' p(1) that [of s' "w'\<lparr>w_flushed := length (w_out w')\<rparr>"] show thesis
    by (simp add: pipe_step_def)
qed

text \<open>All the answers, the first one being number \<open>n\<close>.\<close>

definition echo_texts :: "crates \<Rightarrow> (nat \<Rightarrow> bytes) \<Rightarrow> nat \<Rightarrow> bytes list \<Rightarrow> bytes" where
  "echo_texts E clock n contents =
     concat (map (\<lambda>(k, content). echo_text E (clock k) content) (List.enumerate n contents))"

lemma echo_texts_simps [simp]:
  "echo_texts E clock n [] = []"
  "echo_texts E clock n (c # cs) = echo_text E (clock n) c @ echo_texts E clock (Suc n) cs"
  by (simp_all add: echo_texts_def)

lemma echo_loop:
  assumes "typed_insert_law E" "date_law E"
  shows "list_all (posted E) reqs \<Longrightarrow> pc_conn p = Some s \<Longrightarrow> quiet s \<Longrightarrow>
    bytes_of s = concat (map posted_wire reqs) \<Longrightarrow> w_cap (pc_writer p) = None \<Longrightarrow> length reqs < fuel \<Longrightarrow>
    \<exists>w'. pipe_loop fuel E (body_impl E) (echo_app :: (body, 'h, unit) service) clock p = (Returned (Ok ()), w', ()) \<and>
      w_out w' = w_out (pc_writer p) @ echo_texts E clock (pc_count p) (map rq_body reqs)"
proof (induction reqs arbitrary: p s fuel)
  case Nil
  then obtain k where k: "fuel = Suc k" by (cases fuel) auto
  from Nil have "parse_request E s = (Inl ConnectionClosed, snd (parse_request E s))"
    using abs_parsed_eqD(1) [of s E "Inl ConnectionClosed"] parse_request_bytes_Nil [of E]
    by (cases "parse_request E s"; cases "fst (parse_request E s)") auto
  then obtain src where "parse_request E s = (Inl ConnectionClosed, src)" by blast
  with Nil k show ?case by (simp add: pipe_step_def parse_failure_def drop_writer_def)
next
  case (Cons req reqs)
  from Cons.prems obtain k where k: "fuel = Suc k" "length reqs < k" by (cases fuel) auto
  from Cons.prems have "posted E req" "bytes_of s = posted_wire req @ concat (map posted_wire reqs)" by simp_all
  from echo_step [where clock = clock, OF assms this(1) Cons.prems(2,3) this(2) Cons.prems(5)]
  obtain s' w' where step: "pipe_step E (body_impl E) (echo_app :: (body, 'h, unit) service) clock p =
      Inr \<lparr>pc_conn = Some s', pc_writer = w', pc_app = (), pc_count = Suc (pc_count p)\<rparr>"
    and s': "quiet s'" "bytes_of s' = concat (map posted_wire reqs)" "w_cap w' = None"
    and w': "w_out w' = w_out (pc_writer p) @ echo_text E (clock (pc_count p)) (rq_body req)" by blast
  let ?p = "\<lparr>pc_conn = Some s', pc_writer = w', pc_app = (), pc_count = Suc (pc_count p)\<rparr>"
  from Cons.IH [of ?p s' k] Cons.prems(1) s' k step w' show ?case by simp
qed

end
