(* ===== verification/Line_Protocol.thy ===== *)
theory Line_Protocol
  imports Handover Example_Apps
begin

text \<open>
  The protocol of lines of \<^verbatim>\<open>examples/upgrade.rs\<close>: the handler sends back what it reads, line by line,
  up to \<^verbatim>\<open>quit\<close>, on the connection that the server has handed to it.
\<close>

section \<open>Lines\<close>

definition plain_line :: "bytes \<Rightarrow> bool" where
  "plain_line l \<longleftrightarrow> LF \<notin> set l \<and> (l = [] \<or> last l \<noteq> CR) \<and> isr (from_utf8 l)"

definition line_wire :: "bytes \<Rightarrow> bytes" where
  "line_wire l = l @ [LF]"

lemma strip_eol_line: "plain_line l \<Longrightarrow> strip_eol (line_wire l) = l"
  by (auto simp: strip_eol_def line_wire_def plain_line_def)

lemma from_utf8_line:
  assumes "plain_line l"
  shows "\<exists>cs. from_utf8 (line_wire l) = Inr cs"
proof -
  from assms obtain cs where "from_utf8 l = Inr cs" by (cases "from_utf8 l") (auto simp: plain_line_def)
  moreover have "utf8_single [LF]" by code_simp
  ultimately have "from_utf8 (line_wire l) = Inr (cs @ [[LF]])" by (simp add: from_utf8_singles line_wire_def)
  then show ?thesis by blast
qed

lemma read_line:
  assumes "quiet s" "bytes_of s = line_wire l @ rest" "plain_line l"
  obtains s' where "read_until LF [] s = (Ok (Suc (length l)), line_wire l, s')" "quiet s'" "bytes_of s' = rest"
proof
  have "upto_delim LF (bytes_of s) = line_wire l"
    using assms(2,3) by (simp add: line_wire_def plain_line_def upto_delim_append)
  then show "read_until LF [] s = (Ok (Suc (length l)), line_wire l, advance (Suc (length l)) s)"
    using assms(1) by (simp add: read_until_quiet line_wire_def)
  show "quiet (advance (Suc (length l)) s)" "bytes_of (advance (Suc (length l)) s) = rest"
    using assms(1,2) by (simp_all add: line_wire_def)
qed

section \<open>The loop\<close>

lemma echo_lines_quit:
  assumes "quiet s" "bytes_of s = line_wire ''quit'' @ rest"
  shows "\<exists>s'. echo_lines s w = (Ok (), s', w) \<and> quiet s' \<and> bytes_of s' = rest"
proof -
  have plain: "plain_line ''quit''" by code_simp
  from read_line [OF assms plain] obtain s' where
    "read_until LF [] s = (Ok (Suc (length ''quit'')), line_wire ''quit'', s')" "quiet s'" "bytes_of s' = rest" by blast
  with from_utf8_line [OF plain] strip_eol_line [OF plain] show ?thesis
    by (auto simp: echo_lines.simps [of s w])
qed

lemma echo_lines_healthy:
  "list_all plain_line ls \<Longrightarrow> ''quit'' \<notin> set ls \<Longrightarrow> quiet s \<Longrightarrow> w_cap w = None \<Longrightarrow>
     bytes_of s = concat (map line_wire ls) @ line_wire ''quit'' @ rest \<Longrightarrow>
     \<exists>s' w'. echo_lines s w = (Ok (), s', w') \<and> quiet s' \<and> bytes_of s' = rest \<and>
       w_out w' = w_out w @ concat (map line_wire ls) \<and> w_cap w' = None"
proof (induction ls arbitrary: s w)
  case Nil
  with echo_lines_quit [of s rest w] show ?case by auto
next
  case (Cons l ls)
  then have l: "plain_line l" "l \<noteq> ''quit''" "bytes_of s = line_wire l @ concat (map line_wire ls) @ line_wire ''quit'' @ rest"
    by auto
  from read_line [OF Cons.prems(3) l(3,1)] obtain s1 where
    s1: "read_until LF [] s = (Ok (Suc (length l)), line_wire l, s1)" "quiet s1"
      "bytes_of s1 = concat (map line_wire ls) @ line_wire ''quit'' @ rest" by blast
  let ?w = "w\<lparr>w_out := w_out w @ line_wire l, w_flushed := length (w_out w @ line_wire l)\<rparr>"
  have "act_then (write_all (l @ [LF])) flush w = (Ok (), ?w)"
    using Cons.prems(4) by (simp add: io_simps line_wire_def)
  moreover obtain cs where "from_utf8 (line_wire l) = Inr cs" using from_utf8_line [OF l(1)] by blast
  ultimately have "echo_lines s w = echo_lines s1 ?w"
    using s1(1) strip_eol_line [OF l(1)] l(2) by (simp add: echo_lines.simps [of s w])
  moreover obtain s' w' where "echo_lines s1 ?w = (Ok (), s', w')" "quiet s'" "bytes_of s' = rest"
    "w_out w' = w_out ?w @ concat (map line_wire ls)" "w_cap w' = None"
    using Cons.IH [of s1 ?w] Cons.prems s1 by auto
  ultimately show ?case by simp
qed

section \<open>The handler on the connection handed over\<close>

lemma conn_clone_with:
  "tls_law T \<Longrightarrow> conn_clone c = Ok c1 \<Longrightarrow>
     \<exists>c2. conn_clone (conn_with T i w c) = Ok c2 \<and> conn_in T c2 = i \<and> conn_out T c2 = w"
  by (cases c) (auto simp: tls_law_def split: if_splits)

lemma line_handler_healthy:
  assumes "tls_law T" "conn_clone c = Ok c1" "list_all plain_line ls" "''quit'' \<notin> set ls"
    and "conn_in T (handed_over T c s w) = post" "conn_out T (handed_over T c s w) = w"
    and "quiet post" "w_cap w = None" "bytes_of post = concat (map line_wire ls) @ line_wire ''quit'' @ rest"
  shows "\<exists>c'. line_handler T h (handed_over T c s w) = (Ok (), c') \<and>
    w_out (conn_out T c') = w_out w @ concat (map line_wire ls)"
proof -
  obtain c2 where c2: "conn_clone (handed_over T c s w) = Ok c2" "conn_in T c2 = post" "conn_out T c2 = w"
    using conn_clone_with [OF assms(1,2)] conn_with_in_out [OF assms(1)] assms(5,6)
    unfolding handed_over_def by metis
  from echo_lines_healthy [OF assms(3,4,7,8,9)] obtain s' w' where
    "echo_lines post w = (Ok (), s', w')" "w_out w' = w_out w @ concat (map line_wire ls)" "w_cap w' = None" by blast
  with c2 conn_with_in_out [OF assms(1)] show ?thesis by (simp add: line_handler_def drop_writer_def)
qed

end
