(* ===== verification/Example_Properties.thy ===== *)
theory Example_Properties
  imports Listener_Properties Streaming Line_Protocol
begin

text \<open>
  The properties of example programs: whole sessions between a client and an application.
\<close>

section \<open>The echo server\<close>

text \<open>
  C9: Requests with bodies of any announced length, sent one after the other over a kept connection, are
  answered by the echo server with exactly their bodies, in order, however the network cuts the
  stream.  Bodies of 1024 bytes or more are not held in memory but copied from the connection's
  reader, which is then passed on to the next request right behind the body.
\<close>

theorem echo_returns_bodies:
  assumes "typed_insert_law E" "date_law E" "list_all (posted E) reqs"
    and "quiet conn" "bytes_of conn = concat (map posted_wire reqs)" "w_cap w = None" "length reqs < fuel"
  shows "\<exists>w'. serve fuel E (body_impl E) (echo_app :: (body, 'h, unit) service) clock conn w () =
      (Returned (Ok ()), w', ()) \<and>
    w_out w' = w_out w @ echo_texts E clock 0 (map rq_body reqs)"
  using echo_loop [OF assms(1-3), of "pipe_init conn w ()" conn fuel clock] assms(4-7)
  by (simp add: serve_pipe pipe_init_def)

definition post_request :: "bytes \<Rightarrow> bytes request" where
  "post_request content = \<lparr>rq_method = ''POST'', rq_uri = ''/'', rq_version = HTTP_11,
     rq_headers = [(''content-length'', dec (length content))], rq_body = content\<rparr>"

definition small_and_large :: "bytes request list" where
  "small_and_large = [post_request ''abc'', post_request (replicate 2000 (CHR ''x'')), post_request []]"

lemma post_request_readable:
  "n \<in> {0, 3, 2000} \<Longrightarrow>
     request_readable ref_crates ''POST'' ''/'' ''HTTP/1.1'' HTTP_11 [(''content-length'', dec n)]"
proof -
  assume n: "n \<in> {0, 3, 2000}"
  have "c_parse_request ref_crates (request_line ''POST'' ''/'' ''HTTP/1.1'' @
      concat (map header_line [(''content-length'', dec n)]) @ crlf) =
      Inr \<lparr>pr_method = Some ''POST'', pr_path = Some ''/'', pr_version = Some 1,
        pr_headers = [(''content-length'', dec n)] @ replicate 0 EMPTY_HEADER\<rparr>"
    using n by (elim insertE emptyE; hypsubst; code_simp)
  moreover have "list_all header_ok [(''content-length'', dec n)]"
    using n by (elim insertE emptyE; hypsubst; code_simp)
  moreover have "line_ok (''POST'' @ '' '' @ ''/'' @ '' '' @ ''HTTP/1.1'')" by code_simp
  moreover have "version_of 1 = Inr HTTP_11" by code_simp
  ultimately show ?thesis
    by (auto simp: request_readable_def builds_headers_def ref_crates_def nonempty_def EMPTY_HEADER_def)
qed

lemma post_request_posted:
  assumes "length c \<in> {0, 3, 2000}"
  shows "posted ref_crates (post_request c)"
proof -
  have "announces ref_crates [(''content-length'', dec n)] (FixedLength n)"
    "clean_headers ref_crates [(''content-length'', dec n)]" for n
    by (simp_all add: announces_def has_chunked_def get_content_length_def clean_headers_def ref_crates_def
        ref_transfer_encoding_def ref_content_length_def digits_value_dec)
  moreover have "\<not> expects_continue ref_crates [(''content-length'', v)]"
    "\<not> connection_has ref_crates ''close'' [(''content-length'', v)]" for v
    by (simp_all add: expects_continue_def connection_has_def ref_crates_def ref_expect_def ref_connection_def)
  ultimately show ?thesis
    using post_request_readable [OF assms] by (simp add: posted_def post_request_def framed_def)
qed

theorem echo_returns_bodies_witness:
  "\<exists>w'. serve 4 ref_crates (body_impl ref_crates) (echo_app :: (body, unit, unit) service) (\<lambda>_. ''now'')
      [Avail (concat (map posted_wire small_and_large))] new_writer () = (Returned (Ok ()), w', ()) \<and>
    w_out w' = echo_texts ref_crates (\<lambda>_. ''now'') 0 [''abc'', replicate 2000 (CHR ''x''), []]"
proof -
  have "list_all (posted ref_crates) small_and_large"
    using post_request_posted by (simp add: small_and_large_def)
  moreover have "concat (map posted_wire small_and_large) \<noteq> []"
    by (simp add: small_and_large_def posted_wire_def request_text_def)
  ultimately show ?thesis
    using echo_returns_bodies [where 'h = unit and E = ref_crates and reqs = small_and_large and w = new_writer
        and conn = "[Avail (concat (map posted_wire small_and_large))]" and fuel = 4 and clock = "\<lambda>_. ''now''"]
      ref_typed_insert_law ref_date_law
    by (simp add: new_writer_def small_and_large_def post_request_def)
qed

section \<open>The protocol of lines\<close>

text \<open>
  C17: A session of the line protocol: a request is answered with the switch of protocols, the connection is handed
  to the handler, and every line that the client then sends comes back, up to \<^verbatim>\<open>quit\<close>.
\<close>

theorem line_session_echoes:
  assumes "tls_law T" "conn_clone c = Ok c1" "w_cap (conn_out T c1) = None"
    and "carries E msg req" "quiet pre" "bytes_of pre @ y = msg" "y \<noteq> []"
    and "conn_in T c = pre @ Avail y # post" "quiet post"
    and "bytes_of post = concat (map line_wire ls) @ line_wire ''quit'' @ rest"
    and "list_all plain_line ls" "''quit'' \<notin> set ls" "\<not> expects_continue E (rq_headers req)"
    and "build E refused SWITCHING_PROTOCOLS [(''upgrade'', ''line-protocol'')] body_empty = Inr res0"
    and "res = prepare_response E (clock 0) (rq_version req) (connection_has E ''keep-alive'' (rq_headers req))
      (upgrade_response LineProtocol res0)"
    and "response_plan E (Some 0) res = Ok (FixedLength 0, hs)"
  shows "\<exists>s w c'. serve_conn (Suc fuel) E (body_impl E) (line_app E refused) clock T c () =
      (Upgraded LineProtocol s, w, ()) \<and>
    line_handler T LineProtocol (handed_over T c s w) = (Ok (), c') \<and>
    w_out (conn_out T c') = w_out (conn_out T c1) @ response_text E res hs @ concat (map line_wire ls)"
proof -
  let ?res0 = "upgrade_response LineProtocol res0"
  have body: "rs_body ?res0 = body_empty" "rs_upgrade ?res0 = Some LineProtocol" "rs_status ?res0 = SWITCHING_PROTOCOLS"
    using assms(14) by (auto simp: build_def upgrade_response_def split: option.splits)
  have call: "sv_call (line_app E refused) () req = (Inr ?res0, rest_of_body req, ())"
    using assms(14) by (simp add: line_app_def fn_service_def)
  have block: "conn_in T c = pre @ Avail (y @ []) # post" using assms(8) by simp
  have plan: "response_plan E (body_len (rs_body ?res0)) res = Ok (FixedLength 0, hs)"
    and good: "body_good E (rs_body ?res0)" "body_exact (rs_body ?res0)"
    and wire: "body_wire E (body_impl E) (body_content E) (FixedLength 0) (rs_body ?res0) = []"
    using assms(16) body(1) by (simp_all add: body_empty_def body_wire_def)
  from serve_conn_hands_over [where clock = clock, OF assms(1-7) block assms(13) call body(2) assms(15) plan good, of fuel]
  obtain s w where
    sv: "serve_conn (Suc fuel) E (body_impl E) (line_app E refused) clock T c () = (Upgraded LineProtocol s, w, ())"
    and w: "w_out w = w_out (conn_out T c1) @ response_text E res hs" "w_cap w = None"
    and c: "conn_in T (handed_over T c s w) = post" "conn_out T (handed_over T c s w) = w"
    unfolding wire by (auto split: if_splits)
  from line_handler_healthy [OF assms(1,2,11,12) c assms(9) w(2) assms(10), of LineProtocol] sv w(1)
  show ?thesis by auto
qed

definition session_lines :: "bytes list" where
  "session_lines = [''hello'', [], [CHR 0xC3, CHR 0xA9]]"

definition session_conn :: "(tcp_stream \<times> stream \<times> writer) connection" where
  "session_conn = conn_from_tcp (some_tcp
     [Avail (get_text ''/a''), Avail (concat (map line_wire session_lines)), Avail (line_wire ''quit'')])"

theorem line_session_echoes_witness:
  "\<exists>s w c'. serve_conn 1 ref_crates (body_impl ref_crates) (line_app ref_crates ''refused'') (\<lambda>_. ''now'') plain_tls
      session_conn () = (Upgraded LineProtocol s, w, ()) \<and>
    line_handler plain_tls LineProtocol (handed_over plain_tls session_conn s w) = (Ok (), c') \<and>
    w_out (conn_out plain_tls c') = ''HTTP/1.1 101 Other'' @ crlf @ ''upgrade: line-protocol'' @ crlf @
      ''date: now'' @ crlf @ ''content-length: 0'' @ crlf @ crlf @ concat (map line_wire session_lines)"
proof -
  let ?raw = "\<lparr>rs_status = SWITCHING_PROTOCOLS, rs_version = HTTP_11, rs_headers = [(''upgrade'', ''line-protocol'')],
    rs_upgrade = None, rs_body = body_empty\<rparr> :: (body, line_protocol) response"
  let ?post = "[Avail (concat (map line_wire session_lines)), Avail (line_wire ''quit'')]"
  let ?res = "prepare_response ref_crates ((\<lambda>_. ''now'') (0::nat)) (rq_version (get_request ''/a''))
    (connection_has ref_crates ''keep-alive'' (rq_headers (get_request ''/a''))) (upgrade_response LineProtocol ?raw)"
  let ?hs = "[(''upgrade'', ''line-protocol''), (''date'', ''now''), (''content-length'', ''0'')]"
  have clone: "conn_clone session_conn = Ok session_conn" "w_cap (conn_out plain_tls session_conn) = None"
    by (simp_all add: session_conn_def conn_from_tcp_def some_tcp_def new_writer_def)
  have carried: "carries ref_crates (get_text ''/a'') (get_request ''/a'')"
    using two_gets_carried by simp
  have script: "quiet []" "bytes_of [] @ get_text ''/a'' = get_text ''/a''" "get_text ''/a'' \<noteq> []"
    "conn_in plain_tls session_conn = [] @ Avail (get_text ''/a'') # ?post"
    by (simp_all add: session_conn_def conn_from_tcp_def some_tcp_def get_text_def)
  have post: "quiet ?post" "bytes_of ?post = concat (map line_wire session_lines) @ line_wire ''quit'' @ []"
    by (simp_all add: session_lines_def line_wire_def)
  have ls: "list_all plain_line session_lines" "''quit'' \<notin> set session_lines"
    "\<not> expects_continue ref_crates (rq_headers (get_request ''/a''))" by code_simp+
  have app: "build ref_crates ''refused'' SWITCHING_PROTOCOLS [(''upgrade'', ''line-protocol'')] body_empty = Inr ?raw"
    by code_simp
  have plan: "response_plan ref_crates (Some 0) ?res = Ok (FixedLength 0, ?hs)" by code_simp
  have head: "response_text ref_crates ?res ?hs = ''HTTP/1.1 101 Other'' @ crlf @ ''upgrade: line-protocol'' @ crlf @
      ''date: now'' @ crlf @ ''content-length: 0'' @ crlf @ crlf" by code_simp
  have out: "w_out (conn_out plain_tls session_conn) = []"
    by (simp add: session_conn_def conn_from_tcp_def some_tcp_def new_writer_def)
  from line_session_echoes [where clock = "\<lambda>_. ''now''", OF plain_tls_law clone carried script post ls app refl plan, of 0]
  show ?thesis unfolding head out by simp
qed

section \<open>All the examples\<close>

text \<open>Each releases the reader, cannot lengthen the connection, and answers with a body that has not been consumed.\<close>

lemma dropping_app:
  assumes "\<And>app req r fate app'. sv_call A app req = (r, fate, app') \<Longrightarrow> fate = rest_of_body req"
  shows "honest owner A" "releases owner A"
proof -
  have "case fate of Dropped s \<Rightarrow> stream_size s \<le> stream_size t | InResponse \<Rightarrow> P | Kept \<Rightarrow> True"
    if "sv_call A app req = (r, fate, app')" "body_owner (rq_body req) = Some t" for app req r fate app' t P
    using assms [OF that(1)] rest_of_body_le [OF that(2)] by (auto split: body_fate.split)
  then show "honest owner A" unfolding honest_def by blast
  have "case fate of Dropped s \<Rightarrow> True
      | InResponse \<Rightarrow> (\<exists>res. r = Inr res \<and> owner (rs_body res) \<noteq> None) | Kept \<Rightarrow> False"
    if "sv_call A app req = (r, fate, app')" "body_owner (rq_body req) \<noteq> None" for app req r fate app'
    using assms [OF that(1)] that(2) rest_of_body_releases [of req] by (auto split: body_fate.split)
  then show "releases owner A" unfolding releases_def by blast
qed

lemma file_body_live: "body_try_from_path fs path = Inr b \<Longrightarrow> b \<noteq> body_default"
  by (auto simp: body_try_from_path_def body_try_from_file_def body_from_reader_def body_default_def
      split: sum.splits prod.splits if_splits)

lemma example_apps_dropping:
  "honest body_owner (file_app fs)" "releases body_owner (file_app fs)"
  "honest body_owner (chunked_app E refused)" "releases body_owner (chunked_app E refused)"
  "honest body_owner (trailers_app E refused digest)" "releases body_owner (trailers_app E refused digest)"
  "honest body_owner (line_app E refused)" "releases body_owner (line_app E refused)"
  by (rule dropping_app; simp add: file_app_def chunked_app_def trailers_app_def line_app_def fn_service_def)+

lemma echo_app_releases: "releases body_owner echo_app"
  by (auto simp: releases_def echo_app_def fn_service_def ok_response_def)

lemma routes_app_reads:
  "honest body_owner (routes_app E path)" "releases body_owner (routes_app E path)"
proof -
  have le: "stream_size s \<le> stream_size t"
    if "body_owner (rq_body req) = Some t" "into_bytes E (rq_body req) = (r, Some s)" for req r s t
    using into_bytes_source_le [of E "rq_body req"] that by simp
  have none: "body_owner (rq_body req) = None" if "into_bytes E (rq_body req) = (r, None)" for req r
    using into_bytes_alike [of E "rq_body req"] that by (auto simp: owns_alike_def)
  show "honest body_owner (routes_app E path)"
    by (auto simp: honest_def routes_app_def fn_service_def ok_response_def rest_of_body_le
        split: body_fate.split prod.splits option.splits dest: le)
  show "releases body_owner (routes_app E path)"
    by (auto simp: releases_def routes_app_def fn_service_def ok_response_def
        split: body_fate.split prod.splits option.splits dest: none rest_of_body_releases)
qed

lemma example_apps_live:
  "answers_live (\<lambda>b. b \<noteq> body_default) echo_app"
  "answers_live (\<lambda>b. b \<noteq> body_default) (file_app fs)"
  "answers_live (\<lambda>b. b \<noteq> body_default) (chunked_app E refused)"
  "answers_live (\<lambda>b. b \<noteq> body_default) (trailers_app E refused digest)"
  "answers_live (\<lambda>b. b \<noteq> body_default) (routes_app E path)"
  "answers_live (\<lambda>b. b \<noteq> body_default) (line_app E refused)"
  by (auto simp: answers_live_def echo_app_def file_app_def chunked_app_def trailers_app_def routes_app_def
      line_app_def fn_service_def ok_response_def build_def upgrade_response_def reversed_def channel_body_def
      body_from_string_def body_from_str_def body_from_vec_def body_empty_def
      split: sum.splits option.splits prod.splits if_splits dest: file_body_live)
    (auto simp: body_default_def)



end
