(* ===== verification/Thread_Pool.thy ===== *)
theory Thread_Pool
  imports Server_Builder "HOL-Library.Multiset"
begin

text \<open>
  The scheduling behind \<^verbatim>\<open>Server::serve\<close> and \<^verbatim>\<open>make_service\<close>: the accepting loop hands every connection
  to the pool as a job and returns after the last one without waiting; the workers of the pool take jobs
  in the order in which they were handed over.  This is the documented behaviour of the \<^verbatim>\<open>threadpool\<close> crate: a
  fixed number of workers, one queue, and a worker that survives a panic of its job.  What a job does when it runs is
  a parameter, and so is whether it ever ends: an idle client or an upgrade handler may hold it for good.
\<close>

section \<open>States and steps\<close>

text \<open>
  Jobs are numbered in the order of their connections.  \<open>po_busy i\<close> is the job of worker \<open>i\<close>, and \<open>po_done\<close> the
  results in the order in which the jobs ended.
\<close>

record 'r pool =
  po_accepted :: nat
  po_queue :: "nat list"
  po_busy :: "nat \<Rightarrow> nat option"
  po_done :: "(nat \<times> 'r) list"
  po_returned :: bool

definition pool_start :: "'r pool" where
  "pool_start = \<lparr>po_accepted = 0, po_queue = [], po_busy = (\<lambda>_. None), po_done = [], po_returned = False\<rparr>"

text \<open>
  \<open>n\<close> workers and \<open>N\<close> connections.  \<^verbatim>\<open>for conn in self.incoming { .. execute(..) }\<close> is \<open>accept\<close>, the
  \<^verbatim>\<open>Ok(())\<close> behind it \<open>return\<close>.
\<close>

inductive pool_step :: "nat \<Rightarrow> nat \<Rightarrow> (nat \<Rightarrow> 'r) \<Rightarrow> (nat \<Rightarrow> bool) \<Rightarrow> 'r pool \<Rightarrow> 'r pool \<Rightarrow> bool"
  for n :: nat and N :: nat and run :: "nat \<Rightarrow> 'r" and ends :: "nat \<Rightarrow> bool" where
  accept: "po_accepted p < N \<Longrightarrow> \<not> po_returned p \<Longrightarrow>
     pool_step n N run ends p
       (p\<lparr>po_accepted := Suc (po_accepted p), po_queue := po_queue p @ [po_accepted p]\<rparr>)"
| return: "po_accepted p = N \<Longrightarrow> \<not> po_returned p \<Longrightarrow>
     pool_step n N run ends p (p\<lparr>po_returned := True\<rparr>)"
| pick: "i < n \<Longrightarrow> po_busy p i = None \<Longrightarrow> po_queue p = k # q \<Longrightarrow>
     pool_step n N run ends p (p\<lparr>po_queue := q, po_busy := (po_busy p)(i \<mapsto> k)\<rparr>)"
| finish: "i < n \<Longrightarrow> po_busy p i = Some k \<Longrightarrow> ends k \<Longrightarrow>
     pool_step n N run ends p (p\<lparr>po_busy := (po_busy p)(i := None), po_done := po_done p @ [(k, run k)]\<rparr>)"

inductive pool_reachable :: "nat \<Rightarrow> nat \<Rightarrow> (nat \<Rightarrow> 'r) \<Rightarrow> (nat \<Rightarrow> bool) \<Rightarrow> 'r pool \<Rightarrow> nat \<Rightarrow> bool"
  for n :: nat and N :: nat and run :: "nat \<Rightarrow> 'r" and ends :: "nat \<Rightarrow> bool" where
  start: "pool_reachable n N run ends pool_start 0"
| step: "pool_reachable n N run ends p j \<Longrightarrow> pool_step n N run ends p p' \<Longrightarrow> pool_reachable n N run ends p' (Suc j)"

section \<open>The invariant\<close>

definition running :: "'r pool \<Rightarrow> nat set" where
  "running p = ran (po_busy p)"

definition finished :: "'r pool \<Rightarrow> nat set" where
  "finished p = fst ` set (po_done p)"

text \<open>The jobs below \<open>m\<close> have been started, in this order; the others wait in the queue.\<close>

definition pool_ok :: "nat \<Rightarrow> nat \<Rightarrow> (nat \<Rightarrow> 'r) \<Rightarrow> (nat \<Rightarrow> bool) \<Rightarrow> nat \<Rightarrow> 'r pool \<Rightarrow> bool" where
  "pool_ok n N run ends m p \<longleftrightarrow>
     m \<le> po_accepted p \<and> po_accepted p \<le> N \<and> po_queue p = [m..<po_accepted p] \<and>
     running p \<union> finished p = {..<m} \<and> running p \<inter> finished p = {} \<and>
     dom (po_busy p) \<subseteq> {..<n} \<and> inj_on (po_busy p) (dom (po_busy p)) \<and>
     distinct (map fst (po_done p)) \<and> (\<forall>(k, r) \<in> set (po_done p). r = run k \<and> ends k) \<and>
     (po_returned p \<longrightarrow> po_accepted p = N)"

lemma pool_okD:
  assumes "pool_ok n N run ends m p"
  shows "m \<le> po_accepted p" "po_accepted p \<le> N" "po_queue p = [m..<po_accepted p]"
    "running p \<union> finished p = {..<m}" "running p \<inter> finished p = {}" "dom (po_busy p) \<subseteq> {..<n}"
    "inj_on (po_busy p) (dom (po_busy p))" "distinct (map fst (po_done p))"
    "\<And>k r. (k, r) \<in> set (po_done p) \<Longrightarrow> r = run k \<and> ends k" "po_returned p \<Longrightarrow> po_accepted p = N"
  using assms by (auto simp: pool_ok_def)

lemma pool_ok_start: "pool_ok n N run ends 0 pool_start"
  by (simp add: pool_ok_def pool_start_def running_def finished_def)

lemma inj_on_busy: "inj_on f (dom f) \<longleftrightarrow> (\<forall>i j k. f i = Some k \<longrightarrow> f j = Some k \<longrightarrow> i = j)"
  by (fastforce simp: inj_on_def dom_def)

lemma ran_free:
  assumes "inj_on f (dom f)" "f i = Some k"
  shows "ran (f(i := None)) = ran f - {k}"
proof (intro set_eqI iffI)
  fix x
  assume "x \<in> ran f - {k}"
  then obtain j where "f j = Some x" "x \<noteq> k" by (auto simp: ran_def)
  moreover from this assms(2) have "j \<noteq> i" by auto
  ultimately show "x \<in> ran (f(i := None))" by (auto simp: ran_def)
qed (use assms in \<open>auto simp: ran_def inj_on_busy split: if_splits\<close>)

lemma pool_ok_pick:
  assumes ok: "pool_ok n N run ends m p" and i: "i < n" "po_busy p i = None" and q: "po_queue p = k # q"
  defines "p' \<equiv> p\<lparr>po_queue := q, po_busy := (po_busy p)(i \<mapsto> k)\<rparr>"
  shows "k = m" "pool_ok n N run ends (Suc m) p'"
proof -
  from q pool_okD(3) [OF ok] have "[m..<po_accepted p] = k # q" by simp
  then have k: "k = m" "m < po_accepted p" "q = [Suc m..<po_accepted p]"
    by (auto simp: upt_eq_Cons_conv)
  have run: "running p' = insert m (running p)" and fin: "finished p' = finished p"
    using i(2) k(1) by (simp_all add: p'_def running_def finished_def ran_map_upd)
  have m: "m \<notin> running p" "m \<notin> finished p" using pool_okD(4) [OF ok] by auto
  then have free: "po_busy p j \<noteq> Some m" for j by (auto simp: running_def ran_def)
  show "k = m" by (rule k(1))
  show "pool_ok n N run ends (Suc m) p'"
    unfolding pool_ok_def
  proof (intro conjI)
    show "running p' \<union> finished p' = {..<Suc m}" using run fin pool_okD(4) [OF ok] by (auto simp: lessThan_Suc)
    show "running p' \<inter> finished p' = {}" using run fin pool_okD(5) [OF ok] m by auto
    show "dom (po_busy p') \<subseteq> {..<n}" using pool_okD(6) [OF ok] i(1) by (auto simp: p'_def)
    show "inj_on (po_busy p') (dom (po_busy p'))"
      using pool_okD(7) [OF ok] free k(1) unfolding inj_on_busy p'_def by (auto split: if_splits)
    show "\<forall>(k, r) \<in> set (po_done p'). r = run k \<and> ends k" using pool_okD(9) [OF ok] by (auto simp: p'_def)
  qed (use k pool_okD(1,2,8,10) [OF ok] in \<open>simp_all add: p'_def\<close>)
qed

lemma pool_ok_finish:
  assumes ok: "pool_ok n N run ends m p" and i: "po_busy p i = Some k" "ends k"
  defines "p' \<equiv> p\<lparr>po_busy := (po_busy p)(i := None), po_done := po_done p @ [(k, run k)]\<rparr>"
  shows "pool_ok n N run ends m p'"
proof -
  have run: "running p' = running p - {k}"
    using ran_free [OF pool_okD(7) [OF ok] i(1)] by (simp add: running_def p'_def)
  have fin: "finished p' = insert k (finished p)" by (simp add: finished_def p'_def)
  have k: "k \<in> running p" using i(1) by (auto simp: running_def ran_def)
  then have "k \<notin> finished p" using pool_okD(5) [OF ok] by auto
  show ?thesis
    unfolding pool_ok_def
  proof (intro conjI)
    show "running p' \<union> finished p' = {..<m}" using run fin k pool_okD(4) [OF ok] by auto
    show "running p' \<inter> finished p' = {}" using run fin pool_okD(5) [OF ok] by auto
    show "dom (po_busy p') \<subseteq> {..<n}" using pool_okD(6) [OF ok] by (auto simp: p'_def)
    show "inj_on (po_busy p') (dom (po_busy p'))" 
      using pool_okD(7) [OF ok] unfolding inj_on_busy p'_def by (auto split: if_splits)
    show "distinct (map fst (po_done p'))"
      using pool_okD(8) [OF ok] \<open>k \<notin> finished p\<close> by (simp add: p'_def finished_def)
    show "\<forall>(k, r) \<in> set (po_done p'). r = run k \<and> ends k" using pool_okD(9) [OF ok] i(2) by (auto simp: p'_def)
  qed (use pool_okD(1,2,3,10) [OF ok] in \<open>simp_all add: p'_def\<close>)
qed

lemma pool_ok_step:
  assumes "pool_ok n N run ends m p" "pool_step n N run ends p p'"
  shows "\<exists>m'. pool_ok n N run ends m' p' \<and> (m' = m \<or> m' = Suc m)"
  using assms(2)
proof cases
  case accept
  with assms(1) have "pool_ok n N run ends m p'"
    by (auto simp: pool_ok_def running_def finished_def)
  then show ?thesis by blast
next
  case return
  with assms(1) have "pool_ok n N run ends m p'" by (auto simp: pool_ok_def running_def finished_def)
  then show ?thesis by blast
next
  case (pick i k q)
  with pool_ok_pick [OF assms(1)] show ?thesis by blast
next
  case (finish i k)
  with pool_ok_finish [OF assms(1)] show ?thesis by blast
qed

lemma pool_reachable_ok: "pool_reachable n N run ends p j \<Longrightarrow> \<exists>m. pool_ok n N run ends m p"
  by (induction rule: pool_reachable.induct) (use pool_ok_start pool_ok_step in blast)+

section \<open>Schedules end\<close>

text \<open>A connection counts for its acceptance, its start and its end.\<close>

definition pool_work :: "nat \<Rightarrow> 'r pool \<Rightarrow> nat" where
  "pool_work N p = 3 * (N - po_accepted p) + 2 * length (po_queue p) + card (dom (po_busy p)) +
     (if po_returned p then 0 else 1)"

lemma pool_work_step:
  assumes "pool_step n N run ends p p'" "dom (po_busy p) \<subseteq> {..<n}"
  shows "pool_work N p' < pool_work N p"
proof -
  have fin: "finite (dom (po_busy p))" using assms(2) finite_lessThan by (rule finite_subset)
  show ?thesis
    using assms(1)
  proof cases
    case (pick i k q)
    then have "card (dom ((po_busy p)(i \<mapsto> k))) = Suc (card (dom (po_busy p)))"
      using fin by (simp add: domIff)
    with pick show ?thesis by (simp add: pool_work_def)
  next
    case (finish i k)
    then have "i \<in> dom (po_busy p)" by auto
    with fin have "card (dom (po_busy p) - {i}) < card (dom (po_busy p))" by (rule card_Diff1_less)
    with finish show ?thesis by (simp add: pool_work_def)
  qed (auto simp: pool_work_def)
qed

lemma pool_reachable_work:
  "pool_reachable n N run ends p j \<Longrightarrow> j + pool_work N p \<le> 3 * N + 1"
proof (induction rule: pool_reachable.induct)
  case start
  show ?case by (simp add: pool_work_def pool_start_def)
next
  case (step p j p')
  from pool_reachable_ok [OF step.hyps(1)] have "dom (po_busy p) \<subseteq> {..<n}" by (auto simp: pool_ok_def)
  from pool_work_step [OF step.hyps(2) this] step.IH show ?case by simp
qed

text \<open>Where nothing can happen any more, every worker that is busy holds a job that does not end.\<close>

definition stuck :: "nat \<Rightarrow> nat \<Rightarrow> (nat \<Rightarrow> 'r) \<Rightarrow> (nat \<Rightarrow> bool) \<Rightarrow> 'r pool \<Rightarrow> bool" where
  "stuck n N run ends p \<longleftrightarrow> (\<nexists>p'. pool_step n N run ends p p')"

lemma stuck_facts:
  assumes "pool_ok n N run ends m p" "stuck n N run ends p"
  shows "po_accepted p = N" "po_returned p" "k \<in> running p \<Longrightarrow> \<not> ends k"
    "po_queue p = [] \<or> dom (po_busy p) = {..<n}"
proof -
  have no: "\<not> pool_step n N run ends p p'" for p' using assms(2) by (simp add: stuck_def)
  show ret: "po_returned p"
    using no pool_step.accept [of p N n run ends] pool_step.return [of p N n run ends] pool_okD(2) [OF assms(1)]
    by (meson le_neq_implies_less)
  then show "po_accepted p = N" by (rule pool_okD(10) [OF assms(1)])
  show "\<not> ends k" if "k \<in> running p"
  proof -
    from that obtain i where "po_busy p i = Some k" by (auto simp: running_def ran_def)
    moreover from this have "i < n" using pool_okD(6) [OF assms(1)] by auto
    ultimately show ?thesis using no pool_step.finish by blast
  qed
  show "po_queue p = [] \<or> dom (po_busy p) = {..<n}"
  proof (cases "po_queue p")
    case (Cons k q)
    then have "po_busy p i \<noteq> None" if "i < n" for i using no pool_step.pick that by blast
    then show ?thesis using pool_okD(6) [OF assms(1)] by auto
  qed simp
qed

lemma card_running:
  assumes "pool_ok n N run ends m p"
  shows "card (running p) = card (dom (po_busy p))" "card (running p) \<le> n" "finite (running p)"
proof -
  have fin: "finite (dom (po_busy p))" using pool_okD(6) [OF assms] finite_lessThan by (rule finite_subset)
  have "running p = (\<lambda>i. the (po_busy p i)) ` dom (po_busy p)"
    by (force simp: running_def ran_def)
  moreover have "inj_on (\<lambda>i. the (po_busy p i)) (dom (po_busy p))"
    using pool_okD(7) [OF assms] unfolding inj_on_busy by (intro inj_onI) (metis domD option.sel)
  ultimately show "card (running p) = card (dom (po_busy p))" "finite (running p)"
    using fin by (simp_all add: card_image)
  then show "card (running p) \<le> n"
    using card_mono [OF _ pool_okD(6) [OF assms]] by simp
qed

lemma stuck_finished:
  assumes ok: "pool_ok n N run ends m p" and "stuck n N run ends p" and few: "card {k \<in> {..<N}. \<not> ends k} < n"
  shows "po_returned p \<and> finished p = {k \<in> {..<N}. ends k}"
proof -
  note facts = stuck_facts [OF ok assms(2)]
  have endless: "running p \<subseteq> {k \<in> {..<N}. \<not> ends k}"
  proof
    fix k
    assume k: "k \<in> running p"
    then have "k < m" using pool_okD(4) [OF ok] by auto
    with facts(3) [OF k] pool_okD(1,2) [OF ok] show "k \<in> {k \<in> {..<N}. \<not> ends k}" by simp
  qed
  then have "card (running p) \<le> card {k \<in> {..<N}. \<not> ends k}" by (intro card_mono) simp_all
  with few card_running(1) [OF ok] have "card (dom (po_busy p)) < n" by simp
  then have "dom (po_busy p) \<noteq> {..<n}" by auto
  with facts(1,4) pool_okD(1,3) [OF ok] have "m = N" by auto
  with pool_okD(4) [OF ok] have all: "running p \<union> finished p = {..<N}" by simp
  have "ends k" if "k \<in> finished p" for k using that pool_okD(9) [OF ok] by (auto simp: finished_def)
  then have "finished p = {k \<in> {..<N}. ends k}" using all endless by blast
  with facts(2) show ?thesis by simp
qed

lemma done_results: "pool_ok n N run ends m p \<Longrightarrow> map snd (po_done p) = map run (map fst (po_done p))"
  using pool_okD(9) by fastforce

lemma done_below:
  assumes "pool_ok n N run ends m p" "(k, r) \<in> set (po_done p)"
  shows "k < m"
proof -
  have "k \<in> finished p" using assms(2) by (force simp: finished_def)
  with pool_okD(4) [OF assms(1)] show ?thesis by auto
qed

text \<open>Endless jobs on every worker keep all later jobs out.\<close>

lemma pool_reachable_below:
  assumes X: "X \<subseteq> {..<b}" "card X = n" "\<And>k. k \<in> X \<Longrightarrow> \<not> ends k"
  shows "pool_reachable n N run ends p j \<Longrightarrow> \<exists>m \<le> b. pool_ok n N run ends m p"
proof (induction rule: pool_reachable.induct)
  case start
  show ?case using pool_ok_start by (intro exI [of _ 0]) simp
next
  case (step p j p')
  then obtain m where m: "m \<le> b" "pool_ok n N run ends m p" by blast
  from pool_ok_step [OF m(2) step.hyps(2)] obtain m' where m': "pool_ok n N run ends m' p'" "m' = m \<or> m' = Suc m"
    by blast
  show ?case
  proof (cases "m = b")
    case False
    with m m' show ?thesis by (intro exI [of _ m']) auto
  next
    case True
    have "X \<inter> finished p = {}" using X(3) pool_okD(9) [OF m(2)] by (fastforce simp: finished_def)
    then have "X \<subseteq> running p" using X(1) True pool_okD(4) [OF m(2)] by blast
    moreover have "finite X" using X(1) finite_lessThan by (rule finite_subset)
    ultimately have "n \<le> card (dom (po_busy p))"
      using card_mono [OF card_running(3) [OF m(2)], of X] card_running(1) [OF m(2)] X(2) by simp
    then have "dom (po_busy p) = {..<n}"
      using pool_okD(6) [OF m(2)] by (intro card_seteq) simp_all
    then have full: "po_busy p i \<noteq> None" if "i < n" for i using that by auto
    have "pool_ok n N run ends m p'"
      using step.hyps(2)
    proof cases
      case (pick i k q)
      with full show ?thesis by blast
    next
      case (finish i k)
      with pool_ok_finish [OF m(2) finish(3,4)] show ?thesis by simp
    qed (use m(2) in \<open>auto simp: pool_ok_def running_def finished_def\<close>)
    with m(1) show ?thesis by blast
  qed
qed

text \<open>All connections are accepted before the first one is served.\<close>

lemma pool_accepts_first:
  fixes run :: "nat \<Rightarrow> 'r"
  shows "k \<le> N \<Longrightarrow> pool_reachable n N run ends (pool_start\<lparr>po_accepted := k, po_queue := [0..<k]\<rparr>) k"
proof (induction k)
  case 0
  have "pool_start\<lparr>po_accepted := 0, po_queue := [0..<0]\<rparr> = (pool_start :: 'r pool)" by (simp add: pool_start_def)
  then show ?case using pool_reachable.start by metis
next
  case (Suc k)
  let ?p = "pool_start\<lparr>po_accepted := k, po_queue := [0..<k]\<rparr> :: 'r pool"
  have "pool_step n N run ends ?p (?p\<lparr>po_accepted := Suc (po_accepted ?p), po_queue := po_queue ?p @ [po_accepted ?p]\<rparr>)"
    by (rule pool_step.accept) (use Suc in \<open>simp_all add: pool_start_def\<close>)
  then have "pool_step n N run ends ?p (pool_start\<lparr>po_accepted := Suc k, po_queue := [0..<Suc k]\<rparr>)" by simp
  with Suc show ?case using pool_reachable.step by fastforce
qed

end
