(* ===== verification/Documented_Crates.thy ===== *)
theory Documented_Crates
  imports Round_Trip Reference_Crates
begin

text \<open>
  What the documentation of \<^verbatim>\<open>http\<close>, \<^verbatim>\<open>headers\<close> and \<^verbatim>\<open>httparse\<close> says of ordinary messages: field names
  of letters, digits and hyphens, printable values, at most 64 fields.  \<open>documented\<close> collects it as one
  law on the record of parameters; the conditions that the other theories state for a message at hand
  follow from it.
\<close>

section \<open>Ordinary fields\<close>

definition name_char :: "byte \<Rightarrow> bool" where
  "name_char c \<longleftrightarrow> (let n = of_char c :: nat in
     (48 \<le> n \<and> n \<le> 57) \<or> (65 \<le> n \<and> n \<le> 90) \<or> (97 \<le> n \<and> n \<le> 122) \<or> n = 45)"

definition printable :: "byte \<Rightarrow> bool" where
  "printable c \<longleftrightarrow> (let n = of_char c :: nat in 32 \<le> n \<and> n < 127)"

definition field_name :: "string \<Rightarrow> bool" where
  "field_name k \<longleftrightarrow> k \<noteq> [] \<and> list_all name_char k \<and> length k < 100"

definition field_value :: "bytes \<Rightarrow> bool" where
  "field_value v \<longleftrightarrow> list_all printable v \<and> (v \<noteq> [] \<longrightarrow> hd v \<noteq> CHR '' '' \<and> last v \<noteq> CHR '' '')"

definition field :: "header_name \<times> bytes \<Rightarrow> bool" where
  "field h \<longleftrightarrow> field_name (fst h) \<and> field_value (snd h)"

definition lower_char :: "byte \<Rightarrow> byte" where
  "lower_char c = (let n = of_char c :: nat in if 65 \<le> n \<and> n \<le> 90 then char_of (n + 32) else c)"

text \<open>A \<^verbatim>\<open>HeaderName\<close> is stored in lower case.\<close>

definition lower :: "string \<Rightarrow> string" where
  "lower = map lower_char"

definition lower_field :: "header_name \<times> bytes \<Rightarrow> header_name \<times> bytes" where
  "lower_field h = (lower (fst h), snd h)"

definition absent :: "header_name \<Rightarrow> header_map \<Rightarrow> bool" where
  "absent k h \<longleftrightarrow> k \<notin> fst ` set h"

definition target :: "uri \<Rightarrow> bool" where
  "target u \<longleftrightarrow> u \<noteq> [] \<and> hd u = CHR ''/'' \<and> list_all (\<lambda>c. name_char c \<or> c = CHR ''/'') u"

lemma absent_simps [simp]:
  "absent k []"
  "absent k (x # h) \<longleftrightarrow> k \<noteq> fst x \<and> absent k h"
  "absent k (g @ h) \<longleftrightarrow> absent k g \<and> absent k h"
  by (auto simp: absent_def)

lemma absent_map_of: "absent k h \<Longrightarrow> map_of h k = None"
  by (simp add: absent_def map_of_eq_None_iff)

section \<open>The law\<close>

text \<open>
  The typed views of a map without repeated names (\<open>connection_has\<close> looks for one option among the
  values of \<^verbatim>\<open>Connection\<close>).
\<close>

definition view_law :: "crates \<Rightarrow> bool" where
  "view_law E \<longleftrightarrow> (\<forall>h. distinct (map fst h) \<longrightarrow>
     (map_of h ''transfer-encoding'' = None \<longrightarrow> c_transfer_encoding E h = Inr None) \<and>
     (map_of h ''transfer-encoding'' = Some ''chunked'' \<longrightarrow> c_transfer_encoding E h = Inr (Some True)) \<and>
     (map_of h ''content-length'' = None \<longrightarrow> c_content_length E h = Inr None) \<and>
     (\<forall>n < 2 ^ 64. map_of h ''content-length'' = Some (dec n) \<longrightarrow> c_content_length E h = Inr (Some n)) \<and>
     (map_of h ''connection'' = None \<longrightarrow> c_connection E h = Inr None) \<and>
     (\<forall>opt. map_of h ''connection'' = Some opt \<longrightarrow> opt \<in> {''close'', ''keep-alive''} \<longrightarrow>
        connection_has E ''close'' h = (opt = ''close'') \<and>
        connection_has E ''keep-alive'' h = (opt = ''keep-alive'')) \<and>
     (map_of h ''expect'' = None \<longrightarrow> c_expect E h = Inr None) \<and>
     (map_of h ''date'' = None \<longrightarrow> c_date E h = Inr None))"

text \<open>
  Building maps: a new name goes behind the ones that are there, which is the order of \<^verbatim>\<open>iter()\<close> as long
  as nothing has been removed.
\<close>

definition build_law :: "crates \<Rightarrow> bool" where
  "build_law E \<longleftrightarrow>
     (\<forall>k v. field_name k \<longrightarrow> field_value v \<longrightarrow>
        c_header_name E k = Some (lower k) \<and> c_header_value E v = Some v \<and>
        (\<forall>h. absent (lower k) h \<longrightarrow> length h < 64 \<longrightarrow>
           c_builder_header E k v h = Some (h @ [(lower k, v)]) \<and>
           (lower k = k \<longrightarrow> c_insert E k v h = h @ [(k, v)]))) \<and>
     (\<forall>h n. absent ''content-length'' h \<longrightarrow> c_insert_content_length E n h = h @ [(''content-length'', dec n)]) \<and>
     (\<forall>h. absent ''transfer-encoding'' h \<longrightarrow> c_insert_te_chunked E h = h @ [(''transfer-encoding'', ''chunked'')]) \<and>
     (\<forall>h. absent ''connection'' h \<longrightarrow> c_insert_connection_close E h = h @ [(''connection'', ''close'')]) \<and>
     (\<forall>h now. absent ''date'' h \<longrightarrow> c_insert_date E now h = h @ [(''date'', now)]) \<and>
     (\<forall>k h. length (filter (\<lambda>x. fst x \<noteq> k) h) \<le> 1 \<longrightarrow> c_remove E k h = filter (\<lambda>x. fst x \<noteq> k) h) \<and>
     (\<forall>h. c_extend E [] h = h)"

text \<open>
  Heads: \<^verbatim>\<open>httparse\<close> finds the parts of a complete head and fills the rest of the array with
  \<^verbatim>\<open>EMPTY_HEADER\<close>; a request line that ends inside its target has a method and nothing else.
\<close>

definition protocol :: "nat \<Rightarrow> bytes \<Rightarrow> bool" where
  "protocol n v \<longleftrightarrow> (n = 0 \<and> v = ''HTTP/1.0'') \<or> (n = 1 \<and> v = ''HTTP/1.1'')"

definition request_law :: "crates \<Rightarrow> bool" where
  "request_law E \<longleftrightarrow> (\<forall>hs m u n v. list_all field hs \<longrightarrow> length hs \<le> 64 \<longrightarrow> field_name m \<longrightarrow> target u \<longrightarrow>
     protocol n v \<longrightarrow>
     (\<exists>k. c_parse_request E (request_line m u v @ concat (map header_line hs) @ crlf) =
        Inr \<lparr>pr_method = Some m, pr_path = Some u, pr_version = Some n,
          pr_headers = hs @ replicate k EMPTY_HEADER\<rparr>))"

definition partial_request_law :: "crates \<Rightarrow> bool" where
  "partial_request_law E \<longleftrightarrow> (\<forall>m u. field_name m \<longrightarrow> target u \<longrightarrow>
     (\<exists>n hs. c_parse_request E (m @ '' '' @ u) =
        Inr \<lparr>pr_method = Some m, pr_path = None, pr_version = n, pr_headers = hs\<rparr>))"

definition response_law :: "crates \<Rightarrow> bool" where
  "response_law E \<longleftrightarrow> (\<forall>hs code reason n v. list_all field hs \<longrightarrow> length hs \<le> 64 \<longrightarrow> 100 \<le> code \<longrightarrow>
     code < 1000 \<longrightarrow> list_all printable reason \<longrightarrow> protocol n v \<longrightarrow>
     (\<exists>k. c_parse_response E ((v @ '' '' @ dec code @ '' '' @ reason @ crlf) @ concat (map header_line hs) @ crlf) =
        Inr \<lparr>ps_code = Some code, ps_version = Some n, ps_headers = hs @ replicate k EMPTY_HEADER\<rparr>))"

definition head_law :: "crates \<Rightarrow> bool" where
  "head_law E \<longleftrightarrow>
     (\<forall>m. field_name m \<longrightarrow> c_method_from_bytes E m = Some m) \<and>
     (\<forall>u. target u \<longrightarrow> c_uri_from E u = Some u) \<and>
     (\<forall>code. 100 \<le> code \<longrightarrow> code < 1000 \<longrightarrow> c_status_from_u16 E code = Some code) \<and>
     c_version_debug E HTTP_10 = ''HTTP/1.0'' \<and> c_version_debug E HTTP_11 = ''HTTP/1.1'' \<and>
     c_status_display E 200 = ''200 OK'' \<and> c_status_display E 100 = ''100 Continue''"

text \<open>A chunk size may be followed by an extension, which is skipped.\<close>

definition extension_law :: "crates \<Rightarrow> bool" where
  "extension_law E \<longleftrightarrow>
     (\<forall>n < 2 ^ 64. \<forall>x. list_all printable x \<longrightarrow>
        c_parse_chunk_size E (hex n @ '';'' @ x @ crlf) = Complete (length (hex n) + length x + 3) n)"

definition documented :: "crates \<Rightarrow> bool" where
  "documented E \<longleftrightarrow> view_law E \<and> build_law E \<and> head_law E \<and> chunk_size_law E \<and> extension_law E \<and>
     request_law E \<and> partial_request_law E \<and> response_law E"

lemma documentedD:
  assumes "documented E"
  shows "view_law E" "build_law E" "head_law E" "chunk_size_law E" "extension_law E"
    "request_law E" "partial_request_law E" "response_law E"
  using assms by (simp_all add: documented_def)

section \<open>What follows for typed views\<close>

lemma documented_views:
  assumes "documented E" "distinct (map fst h)"
  shows "map_of h ''transfer-encoding'' = None \<Longrightarrow> c_transfer_encoding E h = Inr None"
    "map_of h ''transfer-encoding'' = Some ''chunked'' \<Longrightarrow> c_transfer_encoding E h = Inr (Some True)"
    "map_of h ''content-length'' = None \<Longrightarrow> c_content_length E h = Inr None"
    "map_of h ''content-length'' = Some (dec n) \<Longrightarrow> n < 2 ^ 64 \<Longrightarrow> c_content_length E h = Inr (Some n)"
    "map_of h ''connection'' = None \<Longrightarrow> c_connection E h = Inr None"
    "map_of h ''connection'' = Some opt \<Longrightarrow> opt \<in> {''close'', ''keep-alive''} \<Longrightarrow>
       connection_has E ''close'' h = (opt = ''close'') \<and> connection_has E ''keep-alive'' h = (opt = ''keep-alive'')"
    "map_of h ''expect'' = None \<Longrightarrow> c_expect E h = Inr None"
    "map_of h ''date'' = None \<Longrightarrow> c_date E h = Inr None"
  using documentedD(1) [OF assms(1)] assms(2) by (auto simp: view_law_def)

lemma documented_has:
  assumes "documented E" "distinct (map fst h)"
  shows "map_of h ''transfer-encoding'' = None \<Longrightarrow> \<not> has_chunked E h"
    "map_of h ''transfer-encoding'' = Some ''chunked'' \<Longrightarrow> has_chunked E h"
    "map_of h ''content-length'' = None \<Longrightarrow> get_content_length E h = None"
    "map_of h ''content-length'' = Some (dec n) \<Longrightarrow> n < 2 ^ 64 \<Longrightarrow> get_content_length E h = Some n"
    "map_of h ''connection'' = None \<Longrightarrow> \<not> connection_has E opt h"
    "map_of h ''connection'' = Some ''close'' \<Longrightarrow> connection_has E ''close'' h"
    "map_of h ''connection'' = Some ''close'' \<Longrightarrow> \<not> connection_has E ''keep-alive'' h"
    "map_of h ''connection'' = Some ''keep-alive'' \<Longrightarrow> \<not> connection_has E ''close'' h"
    "map_of h ''connection'' = Some ''keep-alive'' \<Longrightarrow> connection_has E ''keep-alive'' h"
    "map_of h ''expect'' = None \<Longrightarrow> \<not> expects_continue E h"
  using documented_views [OF assms]
  by (simp_all add: has_chunked_def get_content_length_def expects_continue_def connection_has_def)

lemma documented_builds:
  assumes "documented E"
  shows "field_name k \<Longrightarrow> field_value v \<Longrightarrow> absent (lower k) h \<Longrightarrow> length h < 64 \<Longrightarrow>
      c_builder_header E k v h = Some (h @ [(lower k, v)])"
    "field_name k \<Longrightarrow> field_value v \<Longrightarrow> lower k = k \<Longrightarrow> absent k h \<Longrightarrow> length h < 64 \<Longrightarrow>
      c_insert E k v h = h @ [(k, v)]"
    "field_name k \<Longrightarrow> c_header_name E k = Some (lower k)"
    "field_value v \<Longrightarrow> c_header_value E v = Some v"
    "absent ''content-length'' h \<Longrightarrow> c_insert_content_length E n h = h @ [(''content-length'', dec n)]"
    "absent ''transfer-encoding'' h \<Longrightarrow> c_insert_te_chunked E h = h @ [(''transfer-encoding'', ''chunked'')]"
    "absent ''connection'' h \<Longrightarrow> c_insert_connection_close E h = h @ [(''connection'', ''close'')]"
    "absent ''date'' h \<Longrightarrow> c_insert_date E now h = h @ [(''date'', now)]"
    "length (filter (\<lambda>x. fst x \<noteq> k) h) \<le> 1 \<Longrightarrow> c_remove E k h = filter (\<lambda>x. fst x \<noteq> k) h"
    "c_extend E [] h = h"
proof -
  have n: "field_name ''a''" and v: "field_value []"
    by (simp_all add: field_name_def field_value_def name_char_def)
  note b = documentedD(2) [OF assms, unfolded build_law_def]
  show "field_name k \<Longrightarrow> c_header_name E k = Some (lower k)" using b v by blast
  show "field_value v \<Longrightarrow> c_header_value E v = Some v" using b n by blast
qed (use documentedD(2) [OF assms] in \<open>auto simp: build_law_def\<close>)

section \<open>What follows for heads\<close>

lemma name_char_facts: "name_char c \<Longrightarrow> c \<noteq> LF \<and> c \<noteq> CR \<and> c \<noteq> CHR '' '' \<and> c \<noteq> CHR '':''"
  by (auto simp: name_char_def Let_def)

lemma printable_facts: "printable c \<Longrightarrow> c \<noteq> LF \<and> c \<noteq> CR"
  by (auto simp: printable_def Let_def)

lemma field_facts:
  assumes "field h"
  shows "fst h \<noteq> []" "header_ok h" "h \<noteq> EMPTY_HEADER" "CR \<notin> set (snd h)" "CHR '':'' \<notin> set (fst h)" "LF \<notin> set (snd h)"
    "LF \<notin> set (fst h)"
  using assms name_char_facts printable_facts
  by (auto simp: field_def field_name_def field_value_def header_ok_def list_all_iff EMPTY_HEADER_def)

lemma builder_headers_fields:
  assumes "documented E" "list_all field hs" "distinct (map fst (map lower_field hs))" "length hs \<le> 64"
  shows "builder_headers E (hs @ replicate k EMPTY_HEADER) (Some []) = Some (map lower_field hs)"
proof -
  have "fold (\<lambda>(name, val) h. Option.bind h (c_builder_header E name val)) hs (Some []) = Some (map lower_field hs)"
    using assms(2-4)
  proof (induction hs rule: rev_induct)
    case (snoc x hs)
    obtain k v where x: "x = (k, v)" by (cases x)
    have "lower k \<notin> (\<lambda>y. lower (fst y)) ` set hs"
      using snoc.prems(2) by (simp add: x lower_field_def comp_def)
    then have "absent (lower k) (map lower_field hs)"
      by (simp add: absent_def lower_field_def image_image)
    moreover have "field_name k" "field_value v" "length (map lower_field hs) < 64"
      using snoc.prems by (simp_all add: x field_def)
    ultimately have "c_builder_header E k v (map lower_field hs) = Some (map lower_field hs @ [(lower k, v)])"
      using documented_builds(1) [OF assms(1)] by simp
    moreover have "fold (\<lambda>(name, val) h. Option.bind h (c_builder_header E name val)) hs (Some []) =
        Some (map lower_field hs)"
      using snoc by simp
    ultimately show ?case by (simp add: x lower_field_def)
  qed simp
  moreover have "EMPTY_HEADER \<notin> set hs" using assms(2) field_facts(3) by (metis list_all_iff)
  ultimately show ?thesis by (simp add: builder_headers_def takeWhile_entries)
qed

lemma documented_request_head:
  assumes "documented E" "list_all field hs" "distinct (map fst (map lower_field hs))" "length hs \<le> 64"
    "field_name m" "target u" "protocol n v"
  shows "request_head E (request_line m u v @ concat (map header_line hs) @ crlf) =
    Inr (m, u, if n = 0 then HTTP_10 else HTTP_11, map lower_field hs)"
proof -
  obtain k where "c_parse_request E (request_line m u v @ concat (map header_line hs) @ crlf) =
      Inr \<lparr>pr_method = Some m, pr_path = Some u, pr_version = Some n, pr_headers = hs @ replicate k EMPTY_HEADER\<rparr>"
    using documentedD(6) [OF assms(1)] assms(2,4-7) unfolding request_law_def by blast
  moreover have "c_method_from_bytes E m = Some m" "c_uri_from E u = Some u"
    using documentedD(3) [OF assms(1)] assms(5,6) by (simp_all add: head_law_def)
  ultimately show ?thesis
    using assms(7) by (auto simp: protocol_def request_head_def builder_headers_fields [OF assms(1-4)])
qed

lemma documented_response_head:
  assumes "documented E" "list_all field hs" "distinct (map fst (map lower_field hs))" "length hs \<le> 64"
    "100 \<le> code" "code < 1000" "list_all printable reason" "protocol n v"
  shows "response_head E ((v @ '' '' @ dec code @ '' '' @ reason @ crlf) @ concat (map header_line hs) @ crlf) =
    Inr (code, if n = 0 then HTTP_10 else HTTP_11, map lower_field hs)"
proof -
  obtain k where "c_parse_response E ((v @ '' '' @ dec code @ '' '' @ reason @ crlf) @ concat (map header_line hs) @ crlf) =
      Inr \<lparr>ps_code = Some code, ps_version = Some n, ps_headers = hs @ replicate k EMPTY_HEADER\<rparr>"
    using documentedD(8) [OF assms(1)] assms(2,4-8) unfolding response_law_def by blast
  moreover have "c_status_from_u16 E code = Some code"
    using documentedD(3) [OF assms(1)] assms(5,6) by (simp add: head_law_def)
  ultimately show ?thesis
    using assms(8) by (auto simp: protocol_def response_head_def builder_headers_fields [OF assms(1-4)])
qed

section \<open>What follows for whole messages\<close>

lemma dec_chars: "c \<in> set (dec n) \<Longrightarrow> 48 \<le> (of_char c :: nat) \<and> (of_char c :: nat) < 58"
proof (induction n rule: dec.induct)
  case (1 n)
  show ?case
  proof (cases "n < 10")
    case True
    with "1.prems" show ?thesis by (subst (asm) dec.simps) auto
  next
    case False
    then have "c \<in> set (dec (n div 10)) \<or> c = char_of (48 + n mod 10)"
      using "1.prems" by (subst (asm) dec.simps) auto
    moreover have "n mod 10 < 10" by simp
    then have "(of_char (char_of (48 + n mod 10) :: char) :: nat) = 48 + n mod 10" by simp
    ultimately show ?thesis using "1.IH" [OF False] \<open>n mod 10 < 10\<close> by auto
  qed
qed

lemma dec_word: "LF \<notin> set (dec n) \<and> CHR '' '' \<notin> set (dec n)"
  using dec_chars [of LF n] dec_chars [of "CHR '' ''" n] by auto

text \<open>Any head of ordinary fields is found and read; the body starts right behind it.\<close>

lemma documented_parse_request:
  assumes "documented E" "list_all field hs" "distinct (map fst (map lower_field hs))" "length hs \<le> 64"
    "field_name m" "target u" "protocol n v"
    and q: "quiet s" and bs: "bytes_of s = (request_line m u v @ concat (map header_line hs) @ crlf) @ rest"
  shows "\<exists>s1. quiet s1 \<and> bytes_of s1 = rest \<and>
    parse_request E s = (case request_body E (map lower_field hs) s1 of
        (Inl err, src) \<Rightarrow> (Inl err, src)
      | (Inr b, src) \<Rightarrow> (Inr \<lparr>rq_method = m, rq_uri = u, rq_version = (if n = 0 then HTTP_10 else HTTP_11),
          rq_headers = map lower_field hs, rq_body = b\<rparr>, src))"
proof -
  have "LF \<notin> set m" "LF \<notin> set u" "LF \<notin> set v" "m \<noteq> []"
    using assms(5-7) name_char_facts
    by (auto simp: field_name_def target_def protocol_def list_all_iff)
  then have "line_ok (m @ '' '' @ u @ '' '' @ v)" by (simp add: line_ok_def)
  moreover have "list_all header_ok hs" using assms(2) field_facts(2) by (auto simp: list_all_iff)
  ultimately have "split_head [] (bytes_of s) = (request_line m u v @ concat (map header_line hs) @ crlf, rest)"
    using split_head_message [of "m @ '' '' @ u @ '' '' @ v" hs rest] by (simp add: bs request_line_def)
  with read_head_quiet [OF q, of "[]"] obtain s1 where
    "read_head [] s = (Ok (request_line m u v @ concat (map header_line hs) @ crlf), s1)" "quiet s1" "bytes_of s1 = rest"
    by auto
  with documented_request_head [OF assms(1-7)] show ?thesis
    by (intro exI [of _ s1]) (simp add: parse_request_def)
qed

lemma documented_parse_response:
  assumes "documented E" "list_all field hs" "distinct (map fst (map lower_field hs))" "length hs \<le> 64"
    "100 \<le> code" "code < 1000" "list_all printable reason" "protocol n v"
    and q: "quiet s"
    and bs: "bytes_of s = ((v @ '' '' @ dec code @ '' '' @ reason @ crlf) @ concat (map header_line hs) @ crlf) @ rest"
  shows "\<exists>s1. quiet s1 \<and> bytes_of s1 = rest \<and>
    parse_response E s = (case response_body E (map lower_field hs) s1 of
        (Inl err, src) \<Rightarrow> (Inl err, src)
      | (Inr b, src) \<Rightarrow> (Inr \<lparr>rs_status = code, rs_version = (if n = 0 then HTTP_10 else HTTP_11),
          rs_headers = map lower_field hs, rs_upgrade = None, rs_body = b\<rparr>, src))"
proof -
  have "LF \<notin> set v" "v \<noteq> []" using assms(8) by (auto simp: protocol_def)
  moreover have "LF \<notin> set reason" using assms(7) printable_facts by (auto simp: list_all_iff)
  moreover have "LF \<notin> set (dec code)" using dec_word by blast
  ultimately have "line_ok (v @ '' '' @ dec code @ '' '' @ reason)" by (simp add: line_ok_def)
  moreover have "list_all header_ok hs" using assms(2) field_facts(2) by (auto simp: list_all_iff)
  ultimately have "split_head [] (bytes_of s) =
      ((v @ '' '' @ dec code @ '' '' @ reason @ crlf) @ concat (map header_line hs) @ crlf, rest)"
    using split_head_message [of "v @ '' '' @ dec code @ '' '' @ reason" hs rest] by (simp add: bs)
  with read_head_quiet [OF q, of "[]"] obtain s1 where
    "read_head [] s = (Ok ((v @ '' '' @ dec code @ '' '' @ reason @ crlf) @ concat (map header_line hs) @ crlf), s1)"
    "quiet s1" "bytes_of s1 = rest"
    by auto
  with documented_response_head [OF assms(1-8)] show ?thesis
    by (intro exI [of _ s1]) (simp add: parse_response_def)
qed

text \<open>A chunk with an extension is decoded like any other.\<close>

lemma chunked_next_extension:
  assumes E: "documented E" and q: "quiet s" and c: "c \<noteq> []" "length c < 2 ^ 64" and x: "list_all printable x"
    and bs: "bytes_of s = (hex (length c) @ '';'' @ x @ crlf) @ c @ crlf @ rest"
  shows "\<exists>s'. chunked_next E s = (Some c, s') \<and> quiet s' \<and> bytes_of s' = rest"
proof -
  define l where "l = hex (length c) @ '';'' @ x @ crlf"
  let ?s1 = "advance (length l) s" and ?s2 = "advance (length c) (advance (length l) s)"
  have q1: "quiet ?s1" and q2: "quiet ?s2" using q by simp_all
  have "bytes_of s = l @ c @ crlf @ rest" by (simp add: bs l_def)
  then have b1: "bytes_of ?s1 = c @ crlf @ rest" using q by simp
  then have b2: "bytes_of ?s2 = crlf @ rest" using q1 by simp
  have "LF \<notin> set (hex (length c) @ '';'' @ x)" using x printable_facts by (auto simp: list_all_iff)
  from upto_delim_line [OF this, of "c @ crlf @ rest"] have "upto_delim LF (bytes_of s) = l"
    by (simp add: bs l_def)
  then have line: "read_until LF [] s = (Ok (length l), l, ?s1)"
    using read_until_quiet [OF q, of LF "[]"] by simp
  have data: "read_exact (length c) ?s1 = (Ok c, ?s2)"
    using read_exact_quiet [OF q1, of "length c"] by (simp add: b1)
  have eol: "read_until LF buf ?s2 = (Ok 2, buf @ crlf, advance 2 ?s2)" for buf
    using read_until_quiet [OF q2, of LF buf] by (simp add: b2)
  have "c_parse_chunk_size E l = Complete (length (hex (length c)) + length x + 3) (length c)"
    using documentedD(5) [OF E] c(2) x by (simp add: extension_law_def l_def)
  moreover have "bytes_of (advance 2 ?s2) = rest" "quiet (advance 2 ?s2)" using b2 q2 by (simp_all add: crlf_def)
  moreover have "l \<noteq> []" by (simp add: l_def)
  ultimately show ?thesis
    using c(1) by (simp add: chunked_next_def chunked_loop.simps [of E "[]" s] line data eol)
qed

section \<open>The law can hold\<close>

text \<open>The reference instance with lower-case field names, chunk extensions and partial request lines.\<close>

definition doc_parse_request :: "bytes \<Rightarrow> httparse_error + parsed_request" where
  "doc_parse_request bs =
     (if LF \<in> set bs then ref_parse_request bs
      else case split_words [] bs of
        [m, u] \<Rightarrow> Inr \<lparr>pr_method = Some m, pr_path = None, pr_version = None, pr_headers = []\<rparr>
      | _ \<Rightarrow> Inl Token)"

definition doc_chunk_size :: "bytes \<Rightarrow> chunk_status" where
  "doc_chunk_size bs =
     (let ds = takeWhile (\<lambda>c. hex_value c \<noteq> None) bs; rest = drop (length ds) bs
      in case rest of
           c # x \<Rightarrow>
             if c = CHR '';'' then
               (case digits_value 16 ds 0 of
                  Some n \<Rightarrow> Complete (length ds + length (takeWhile (\<lambda>c. c \<noteq> CR) x) + 3) n
                | None \<Rightarrow> InvalidChunkSize)
             else ref_chunk_size bs
         | [] \<Rightarrow> Partial)"

definition doc_crates :: crates where
  "doc_crates = ref_crates\<lparr>c_parse_request := doc_parse_request, c_parse_chunk_size := doc_chunk_size,
     c_builder_header := (\<lambda>name v h. Some (h @ [(lower name, v)])),
     c_header_name := (\<lambda>k. if k = [] then None else Some (lower k))\<rparr>"

lemma split_lines_line: "LF \<notin> set l \<Longrightarrow> split_lines acc (l @ LF # bs) =
    (let x = acc @ l in if x \<noteq> [] \<and> last x = CR then butlast x else x) # split_lines [] bs"
  by (induction l arbitrary: acc) auto

lemma split_lines_crlf: "LF \<notin> set l \<Longrightarrow> split_lines [] (l @ crlf @ bs) = l # split_lines [] bs"
  using split_lines_line [of "l @ [CR]" "[]" bs] by (simp add: crlf_def)

lemma split_lines_head:
  "list_all (\<lambda>l. LF \<notin> set l) ls \<Longrightarrow> split_lines [] (head_text ls) = ls @ [[]]"
proof (induction ls)
  case Nil
  show ?case by (simp add: head_text_def crlf_def)
next
  case (Cons l ls)
  then show ?case by (simp add: head_text_def split_lines_crlf)
qed

lemma split_words_word: "CHR '' '' \<notin> set w \<Longrightarrow> split_words acc (w @ CHR '' '' # bs) = (acc @ w) # split_words [] bs"
  by (induction w arbitrary: acc) auto

lemma split_words_last: "CHR '' '' \<notin> set w \<Longrightarrow> split_words acc w = [acc @ w]"
  by (induction w arbitrary: acc) auto

lemma ref_headers_fields: "list_all field hs \<Longrightarrow> ref_headers (map header_text hs @ [[]]) = hs"
proof (induction hs)
  case Nil
  show ?case by (simp add: ref_headers_def)
next
  case (Cons h hs)
  obtain k v where h: "h = (k, v)" by (cases h)
  have c: "CHR '':'' \<notin> set k" "k \<noteq> []" using Cons.prems field_facts(1,5) [of h] by (simp_all add: h)
  have "takeWhile (\<lambda>c. c \<noteq> CHR '':'') (k @ CHR '':'' # CHR '' '' # v) = k"
    "dropWhile (\<lambda>c. c \<noteq> CHR '':'') (k @ CHR '':'' # CHR '' '' # v) = CHR '':'' # CHR '' '' # v"
    using c by (subst takeWhile_append2 dropWhile_append2; auto)+
  then have "ref_header (header_text h) = h"
    by (simp add: h header_text_def ref_header_def)
  with Cons c show ?case by (simp add: ref_headers_def h header_text_def)
qed

lemma field_lines: "list_all field hs \<Longrightarrow> list_all (\<lambda>l. LF \<notin> set l) (map header_text hs)"
  using field_facts(6,7) by (auto simp: list_all_iff header_text_def)

lemma word_chars:
  "field_name m \<Longrightarrow> LF \<notin> set m \<and> CHR '' '' \<notin> set m"
  "target u \<Longrightarrow> LF \<notin> set u \<and> CHR '' '' \<notin> set u"
  "protocol n v \<Longrightarrow> LF \<notin> set v \<and> CHR '' '' \<notin> set v \<and> ref_version v = Some n"
  using name_char_facts by (auto simp: field_name_def target_def protocol_def list_all_iff)

lemma doc_request_law: "request_law doc_crates"
proof -
  have "c_parse_request doc_crates (request_line m u v @ concat (map header_line hs) @ crlf) =
      Inr \<lparr>pr_method = Some m, pr_path = Some u, pr_version = Some n, pr_headers = hs @ replicate 0 EMPTY_HEADER\<rparr>"
    if hs: "list_all field hs" and w: "field_name m" "target u" "protocol n v" for hs m u n v
  proof -
    let ?l = "m @ '' '' @ u @ '' '' @ v"
    have "request_line m u v @ concat (map header_line hs) @ crlf = head_text (?l # map header_text hs)"
      using head_text_of_message [of ?l hs] by (simp add: request_line_def)
    moreover have "split_lines [] (head_text (?l # map header_text hs)) = ?l # map header_text hs @ [[]]"
      using split_lines_head [of "?l # map header_text hs"] field_lines [OF hs] word_chars(1) [OF w(1)]
        word_chars(2) [OF w(2)] word_chars(3) [OF w(3)] by simp
    moreover have "split_words [] ?l = [m, u, v]"
      using word_chars(1) [OF w(1)] word_chars(2) [OF w(2)] word_chars(3) [OF w(3)]
      by (simp add: split_words_word split_words_last)
    moreover have "LF \<in> set (head_text (?l # map header_text hs))" by (simp add: head_text_def)
    ultimately show ?thesis
      using word_chars(3) [OF w(3)] hs
      by (simp add: doc_crates_def doc_parse_request_def ref_parse_request_def ref_headers_fields del: ref_version.simps)
  qed
  then show ?thesis unfolding request_law_def by blast
qed

lemma doc_partial_request_law: "partial_request_law doc_crates"
  using word_chars(1,2)
  by (auto simp: partial_request_law_def doc_crates_def doc_parse_request_def split_words_word split_words_last)

lemma doc_response_law: "response_law doc_crates"
proof -
  have "c_parse_response doc_crates ((v @ '' '' @ dec code @ '' '' @ reason @ crlf) @ concat (map header_line hs) @ crlf) =
      Inr \<lparr>ps_code = Some code, ps_version = Some n, ps_headers = hs @ replicate 0 EMPTY_HEADER\<rparr>"
    if hs: "list_all field hs" and w: "list_all printable reason" "protocol n v" for hs code reason n v
  proof -
    let ?l = "v @ '' '' @ dec code @ '' '' @ reason"
    have "(v @ '' '' @ dec code @ '' '' @ reason @ crlf) @ concat (map header_line hs) @ crlf =
        head_text (?l # map header_text hs)"
      using head_text_of_message [of ?l hs] by simp
    moreover have "LF \<notin> set reason" using w(1) printable_facts by (auto simp: list_all_iff)
    then have "split_lines [] (head_text (?l # map header_text hs)) = ?l # map header_text hs @ [[]]"
      using split_lines_head [of "?l # map header_text hs"] field_lines [OF hs] word_chars(3) [OF w(2)]
        dec_word [of code] by simp
    moreover have "split_words [] ?l = v # dec code # split_words [] reason"
      using word_chars(3) [OF w(2)] dec_word [of code] by (simp add: split_words_word)
    ultimately show ?thesis
      using word_chars(3) [OF w(2)] hs
      by (simp add: doc_crates_def ref_crates_def ref_parse_response_def ref_headers_fields digits_value_dec
          del: ref_version.simps)
  qed
  then show ?thesis unfolding response_law_def by blast
qed

lemma doc_head_law: "head_law doc_crates"
  by (auto simp: head_law_def doc_crates_def ref_crates_def nonempty_def field_name_def target_def
      ref_status_display_def) code_simp+

lemma doc_view_law: "view_law doc_crates"
  by (auto simp: view_law_def doc_crates_def ref_crates_def ref_transfer_encoding_def ref_content_length_def
      ref_connection_def ref_expect_def connection_has_def digits_value_dec)

lemma filter_absent: "absent k h \<Longrightarrow> filter (\<lambda>x. fst x \<noteq> k) h = h"
  by (induction h) auto

lemma doc_build_law: "build_law doc_crates"
  by (auto simp: build_law_def doc_crates_def ref_crates_def ref_insert_def ref_remove_def filter_absent field_name_def)

lemma hex_digits: "takeWhile (\<lambda>c. hex_value c \<noteq> None) (hex n @ c # bs) = hex n" if "hex_value c = None"
proof -
  have "hex_value d \<noteq> None" if "d \<in> set (hex n)" for d using hex_chars [OF that] by auto
  with that show ?thesis by (subst takeWhile_append2) auto
qed

lemma hex_value_stops: "hex_value CR = None" "hex_value (CHR '';'') = None"
  by code_simp+

lemma doc_chunk_size_law: "chunk_size_law doc_crates"
proof -
  have "doc_chunk_size (hex n @ crlf) = Complete (length (hex n) + 2) n" for n
    using hex_digits [OF hex_value_stops(1), of n "[LF]"] ref_chunk_size_hex [of n]
    by (simp add: doc_chunk_size_def crlf_def)
  then show ?thesis by (simp add: chunk_size_law_def doc_crates_def)
qed

lemma doc_extension_law: "extension_law doc_crates"
proof -
  have "doc_chunk_size (hex n @ '';'' @ x @ crlf) = Complete (length (hex n) + length x + 3) n"
    if "list_all printable x" for n x
  proof -
    have "takeWhile (\<lambda>c. c \<noteq> CR) (x @ crlf) = x"
      using that printable_facts by (subst takeWhile_append2) (auto simp: crlf_def list_all_iff)
    then show ?thesis
      using hex_digits [OF hex_value_stops(2), of n "x @ crlf"] by (simp add: doc_chunk_size_def digits_value_hex)
  qed
  then show ?thesis by (simp add: extension_law_def doc_crates_def)
qed

lemma doc_documented: "documented doc_crates"
  by (simp add: documented_def doc_view_law doc_build_law doc_head_law doc_chunk_size_law doc_extension_law
      doc_request_law doc_partial_request_law doc_response_law)

end
