(* ===== verification/Interim.thy ===== *)
theory Interim
  imports Documented_Crates Client_Properties
begin

text \<open>
  The interim response that \<^verbatim>\<open>serve\<close> writes before the body of a request is read, and what the client of
  this library makes of it.
\<close>

section \<open>The interim response\<close>

definition continue_text :: bytes where
  "continue_text = (''HTTP/1.1'' @ '' '' @ dec 100 @ '' '' @ ''Continue'' @ crlf) @
     concat (map header_line [(''content-length'', dec 0)]) @ crlf"

lemma write_interim_continue:
  assumes E: "documented E" and w: "w_cap w = None"
  shows "\<exists>w'. write_interim E CONTINUE w = (None, w') \<and> w_out w' = w_out w @ continue_text \<and>
    w_flushed w' = length (w_out w') \<and> w_cap w' = None"
proof -
  let ?res = "interim_response CONTINUE :: (unit, unit) response"
  have p: "c_version_debug E HTTP_11 = ''HTTP/1.1''" "c_status_display E 100 = ''100 Continue''"
    using documentedD(3) [OF E] by (simp_all add: head_law_def)
  have len: "hb_len unit_impl (rs_body ?res) = Some 0" by (simp add: unit_impl_def)
  have "response_plan E (hb_len unit_impl (rs_body ?res)) ?res = Ok (FixedLength 0, [(''content-length'', dec 0)])"
    unfolding len
    using documented_has(1,3) [OF E, of "[]"] documented_builds(5) [OF E, of "[]" 0]
    by (simp add: response_plan_def response_encoding_def response_headers_def interim_response_def Let_def)
  from unit_body.write_response_wire [OF this w] obtain src w1 where
    w1: "write_response E unit_impl ?res True w = (Ok (response_outcome E None (FixedLength 0) [(''content-length'', dec 0)]), src, w1)"
      "w_out w1 = w_out w @ response_text E ?res [(''content-length'', dec 0)]" "w_cap w1 = None"
    by (auto simp: body_wire_def interim_response_def)
  moreover have "response_text E ?res [(''content-length'', dec 0)] = continue_text"
  proof -
    have "dec 100 = ''100''" by code_simp
    then show ?thesis
      by (simp add: response_text_def status_line_def interim_response_def CONTINUE_def p continue_text_def)
  qed
  ultimately show ?thesis by (simp add: write_interim_def)
qed

lemma interim_text:
  assumes "documented E" "w_cap w = None"
  shows "w_out (snd (write_interim E CONTINUE w :: 'h control option \<times> writer)) = w_out w @ continue_text"
proof -
  have "\<exists>w'. write_interim E CONTINUE w = (None :: 'h control option, w') \<and> w_out w' = w_out w @ continue_text \<and>
      w_flushed w' = length (w_out w') \<and> w_cap w' = None"
    by (rule write_interim_continue [OF assms])
  then show ?thesis by auto
qed

lemma advance_all: "quiet s \<Longrightarrow> advance (length (bytes_of s)) s = []"
  using quiet_Nil_iff [of "advance (length (bytes_of s)) s"] by simp

text \<open>Reading the interim response consumes it and nothing else.\<close>

lemma parse_interim:
  assumes E: "documented E" and pre: "quiet pre" "bytes_of pre = continue_text"
  shows "parse_response E (pre @ post) = (Inr \<lparr>rs_status = CONTINUE, rs_version = HTTP_11,
     rs_headers = [(''content-length'', dec 0)], rs_upgrade = None, rs_body = body_from_vec []\<rparr>, Some post)"
proof -
  let ?h = "[(''content-length'', dec 0)]"
  have f: "list_all field ?h" "list_all printable ''Continue''" "protocol 1 ''HTTP/1.1''" "map lower_field ?h = ?h"
    by code_simp+
  have "line_ok (''HTTP/1.1'' @ '' '' @ dec 100 @ '' '' @ ''Continue'')" "list_all header_ok ?h"
    using dec_word [of 100] dec_word [of 0] by (simp_all add: line_ok_def header_ok_def)
  from split_head_message [OF this, of "[]"] have "split_head [] (bytes_of pre) = (continue_text, [])"
    by (simp add: pre(2) continue_text_def)
  moreover have "head_complete continue_text"
    using empty_line_complete [of "''HTTP/1.1'' @ '' '' @ dec 100 @ '' '' @ ''Continue'' @ crlf" "''content-length: '' @ dec 0"]
    by (simp add: continue_text_def header_line_def)
  moreover have "bytes_of pre \<noteq> []" by (simp add: pre(2) continue_text_def)
  ultimately have "read_head [] (pre @ post) = (Ok continue_text, post)"
    using read_head_append [OF pre(1), of "[]" continue_text "[]" post] advance_all [OF pre(1)] by simp
  moreover have "response_head E continue_text = Inr (100, HTTP_11, ?h)"
    using documented_response_head [OF E f(1) _ _ _ _ f(2,3), of 100] f(4) by (simp add: continue_text_def)
  moreover have "response_body E ?h post = (Inr (body_from_vec []), Some post)"
    using documented_views(1) [OF E, of ?h] documented_views(4) [OF E, of ?h 0]
    by (simp add: response_body_def)
  ultimately show ?thesis by (simp add: parse_response_def CONTINUE_def)
qed

section \<open>What the client does with it\<close>

lemma conn_clone_usable: "conn_clone c \<noteq> Panic \<Longrightarrow> conn_clone (conn_with T i w c) \<noteq> Panic"
  by (cases c) (auto split: if_splits)

text \<open>
  C37: The client takes the interim response for the response.  When its request expects \<^verbatim>\<open>100-continue\<close> and the
  server of this library answers with the interim response first, \<open>send_request\<close> returns status 100 without a
  body and keeps the connection; the response proper stays in front of the next exchange, whose caller
  is given it as the answer to another request.
\<close>

theorem interim_taken_for_response:
  fixes T :: "'t tls_ops" and req req2 :: "body request"
  assumes "documented E" "tls_law T"
    and "request_plan E (body_len (rq_body req)) req = Ok (enc, h)" "rq_version req = HTTP_11"
      "body_good E (rq_body req)" "body_exact (rq_body req)"
    and "w_cap (conn_out T c) = None" "conn_clone c \<noteq> Panic"
    and "conn_in T c = pre @ post" "quiet pre"
      "bytes_of pre = w_out (snd (write_interim E CONTINUE new_writer :: 'h control option \<times> writer))"
    and "request_plan E (body_len (rq_body req2)) req2 = Ok (enc2, h2)" "rq_version req2 = HTTP_11"
      "body_good E (rq_body req2)" "body_exact (rq_body req2)"
    and "parse_response E post = (Inr final, src)"
  shows "\<exists>c1 got. send_request E (body_impl E) T c req = (Ok (OKeepAlive c1, got), c1) \<and>
    rs_status got = CONTINUE \<and> body_content E (rs_body got) = [] \<and> conn_in T c1 = post \<and>
    (\<exists>k c2. send_request E (body_impl E) T c1 req2 = (Ok (k, final), c2))"
proof -
  let ?got = "\<lparr>rs_status = CONTINUE, rs_version = HTTP_11, rs_headers = [(''content-length'', dec 0)],
    rs_upgrade = None :: 't connection option, rs_body = body_from_vec []\<rparr>"
  have "w_cap new_writer = None" by (simp add: new_writer_def)
  from assms(11) [unfolded interim_text [OF assms(1) this]] have pre: "bytes_of pre = continue_text"
    by (simp add: new_writer_def)
  from parse_interim [OF assms(1,10) pre, of post] have p: "parse_response E (conn_in T c) = (Inr ?got, Some post)"
    by (simp add: assms(9))
  have plan: "request_plan E (hb_len (body_impl E) (rq_body req)) req = Ok (enc, h)"
      "request_plan E (hb_len (body_impl E) (rq_body req2)) req2 = Ok (enc2, h2)"
    using assms(3,12) by (simp_all add: body_impl_def)
  have v: "request_version (rq_version req) = Ok ''HTTP/1.1''" "request_version (rq_version req2) = Ok ''HTTP/1.1''"
    using assms(4,13) by simp_all
  have g: "body_good E (rq_body req) \<and> body_exact (rq_body req)" "body_good E (rq_body req2) \<and> body_exact (rq_body req2)"
    using assms(5,6,14,15) by simp_all
  obtain w where w: "w_cap w = None" and sent: "\<And>res src. parse_response E (conn_in T c) = (Inr res, src) \<Longrightarrow>
       (let c' = conn_with T (socket_after (conn_in T c) (reader_position (rs_body res) src)) w c
        in send_request E (body_impl E) T c req = (Ok (send_outcome E res c', res), c'))"
    using body_chunks.send_request_written [OF plan(1) v(1) g(1) assms(7,8)] by metis
  define c1 where "c1 = conn_with T post w c"
  have "suffix post (conn_in T c)" by (simp add: assms(9) suffix_def)
  then have after: "conn_with T (socket_after (conn_in T c) (reader_position (rs_body ?got) (Some post))) w c = c1"
    by (simp add: c1_def reader_position_def)
  have "\<not> connection_has E ''close'' [(''content-length'', dec 0)]"
    using documented_has(5) [OF assms(1), of "[(''content-length'', dec 0)]"] by simp
  then have "send_outcome E ?got c1 = OKeepAlive c1"
    by (simp add: send_outcome_def CONTINUE_def SWITCHING_PROTOCOLS_def)
  with sent [OF p] after have "send_request E (body_impl E) T c req = (Ok (OKeepAlive c1, ?got), c1)"
    by (simp add: Let_def)
  moreover have c1: "conn_in T c1 = post" "w_cap (conn_out T c1) = None" "conn_clone c1 \<noteq> Panic"
    using conn_with_in_out [OF assms(2)] w conn_clone_usable [OF assms(8)] by (simp_all add: c1_def)
  moreover from body_chunks.send_request_written [OF plan(2) v(2) g(2) c1(2,3)] c1(1) assms(16)
  have "\<exists>k c2. send_request E (body_impl E) T c1 req2 = (Ok (k, final), c2)"
    by (metis (no_types, lifting))
  ultimately show ?thesis by (auto simp: body_from_vec_def)
qed

definition expecting_request :: "body request" where
  "expecting_request = \<lparr>rq_method = ''POST'', rq_uri = ''/a'', rq_version = HTTP_11,
     rq_headers = [(''expect'', ''100-continue'')], rq_body = body_from_vec ''hi''\<rparr>"

definition interim_conn :: "(tcp_stream \<times> stream \<times> writer) connection" where
  "interim_conn = conn_from_tcp (some_tcp ([Avail (take 9 continue_text), Avail (drop 9 continue_text)] @ [Avail hello_wire]))"

theorem interim_taken_for_response_witness:
  "\<exists>c1 got k c2 final. send_request doc_crates (body_impl doc_crates) plain_tls interim_conn expecting_request =
      (Ok (OKeepAlive c1, got), c1) \<and> rs_status got = 100 \<and>
    send_request doc_crates (body_impl doc_crates) plain_tls c1 (get_request ''/b'') = (Ok (k, final), c2)"
proof -
  have plan: "request_plan doc_crates (body_len (rq_body expecting_request)) expecting_request =
      Ok (FixedLength 2, [(''expect'', ''100-continue''), (''content-length'', ''2'')])" "rq_version expecting_request = HTTP_11"
    "body_good doc_crates (rq_body expecting_request)" "body_exact (rq_body expecting_request)" by code_simp+
  have conn: "w_cap (conn_out plain_tls interim_conn) = None" "conn_clone interim_conn \<noteq> Panic" by code_simp+
  let ?pre = "[Avail (take 9 continue_text), Avail (drop 9 continue_text)]"
  have wires: "conn_in plain_tls interim_conn = ?pre @ [Avail hello_wire]"
    by (simp add: interim_conn_def conn_from_tcp_def some_tcp_def)
  have pre: "quiet ?pre" "bytes_of ?pre = w_out (snd (write_interim doc_crates CONTINUE new_writer :: unit control option \<times> writer))"
    by code_simp+
  have plan2: "request_plan doc_crates (body_len (rq_body (get_request ''/b''))) (get_request ''/b'') =
      Ok (FixedLength 0, [(''content-length'', ''0'')])" "rq_version (get_request ''/b'') = HTTP_11"
    "body_good doc_crates (rq_body (get_request ''/b''))" "body_exact (rq_body (get_request ''/b''))" by code_simp+
  let ?p = "parse_response doc_crates [Avail hello_wire] ::
    (parse_error + (body, (tcp_stream \<times> stream \<times> writer) connection) response) \<times> stream option"
  have "isr (fst ?p)" by code_simp
  then obtain final src where "?p = (Inr final, src)" by (cases ?p; cases "fst ?p") auto
  from interim_taken_for_response [OF doc_documented plain_tls_law plan conn wires pre plan2 this]
  show ?thesis unfolding CONTINUE_def by blast
qed

end
