(* ===== verification/Repository_Tests.thy ===== *)
theory Repository_Tests
  imports Documented_Crates Example_Apps
begin

text \<open>
  The repository's unit tests, each as an executable predicate on the model: \<^verbatim>\<open>assert_eq!\<close> and
  \<^verbatim>\<open>matches!\<close> are the equations and cases of the predicate, \<^verbatim>\<open>unwrap\<close> on an error makes it false.  A
  \<^verbatim>\<open>Cursor\<close> is a source that delivers its bytes at once.
\<close>

section \<open>Cursors and exact reads\<close>

definition cursor :: "bytes \<Rightarrow> stream" where
  "cursor bs = push_back bs []"

lemma cursor_simps [simp]: "quiet (cursor bs)" "bytes_of (cursor bs) = bs"
  by (simp_all add: cursor_def)

text \<open>\<^verbatim>\<open>Read::read_exact\<close>, the provided method, over a \<^verbatim>\<open>BodyReader\<close>.\<close>

function reader_read_exact :: "crates \<Rightarrow> nat \<Rightarrow> body_reader \<Rightarrow> bytes res \<times> body_reader" where
  "reader_read_exact E n r =
     (if n = 0 then (Ok [], r)
      else case body_read E n r of
        (Ok bs, r') \<Rightarrow>
          if bs = [] then (Err UnexpectedEof, r')
          else (case reader_read_exact E (n - length bs) r' of
              (Ok rest, r'') \<Rightarrow> (Ok (bs @ rest), r'')
            | (x, r'') \<Rightarrow> (x, r''))
      | (Err err, r') \<Rightarrow> if err = Interrupted then reader_read_exact E n r' else (Err err, r')
      | (Panic, r') \<Rightarrow> (Panic, r'))"
  by pat_completeness auto
termination
proof (relation "inv_image (measures [reader_rank, reader_rest]) (\<lambda>(E, n, r). r)", goal_cases)
  case 1
  show ?case by auto
next
  case (2 E n r x r' bs)
  then show ?case using body_read_less [of E n r bs r'] by simp
next
  case (3 E n r x r' err)
  then show ?case using body_read_Err_less [of E n r err r'] by simp
qed

declare reader_read_exact.simps [simp del]

lemma reader_read_exact_good:
  "reader_good r \<Longrightarrow>
     \<exists>r'. reader_read_exact E n r =
         (if n \<le> length (reader_content E r) then Ok (take n (reader_content E r)) else Err UnexpectedEof, r') \<and>
       reader_good r' \<and> reader_content E r' = drop n (reader_content E r)"
proof (induction E n r rule: reader_read_exact.induct)
  case (1 E n r)
  show ?case
  proof (cases "n = 0")
    case True
    with "1.prems" show ?thesis by (simp add: reader_read_exact.simps [of E 0 r])
  next
    case False
    then have "0 < n" by simp
    from body.rd_goodE [OF "1.prems" this, of E] obtain bs r1 where
      r1: "body_read E n r = (Ok bs, r1)" "reader_good r1" "reader_content E r = bs @ reader_content E r1"
        "length bs \<le> n" "bs = [] \<Longrightarrow> reader_content E r = []" by blast
    show ?thesis
    proof (cases "bs = []")
      case True
      with False r1 show ?thesis by (simp add: reader_read_exact.simps [of E n r])
    next
      case bs: False
      from "1.IH"(1) [OF False r1(1) [symmetric] refl bs r1(2)] obtain r2 where
        "reader_read_exact E (n - length bs) r1 =
           (if n - length bs \<le> length (reader_content E r1) then Ok (take (n - length bs) (reader_content E r1))
            else Err UnexpectedEof, r2)"
        "reader_good r2" "reader_content E r2 = drop (n - length bs) (reader_content E r1)" by blast
      with False bs r1(1,3,4) show ?thesis
        by (auto simp: reader_read_exact.simps [of E n r])
    qed
  qed
qed

section \<open>Tests of body.rs\<close>

text \<open>\<^verbatim>\<open>let mut buf = [0_u8; n]; reader.read_exact(&mut buf).unwrap(); assert_eq!(buf, part)\<close>, for each part.\<close>

fun reads_parts :: "crates \<Rightarrow> body_reader \<Rightarrow> bytes list \<Rightarrow> body_reader option" where
  "reads_parts E r [] = Some r"
| "reads_parts E r (part # parts) =
     (case reader_read_exact E (length part) r of
        (Ok buf, r') \<Rightarrow> if buf = part then reads_parts E r' parts else None
      | _ \<Rightarrow> None)"

definition reader_delivers :: "crates \<Rightarrow> body \<Rightarrow> bytes list \<Rightarrow> (body_reader \<Rightarrow> bool) \<Rightarrow> bool" where
  "reader_delivers E b parts at_end \<longleftrightarrow>
     (case into_reader E b of
        Ok r \<Rightarrow> (case reads_parts E r parts of Some r' \<Rightarrow> at_end r' | None \<Rightarrow> False)
      | _ \<Rightarrow> False)"

text \<open>The byte string that counts from \<open>a\<close> to \<open>b\<close>.\<close>

definition byte_range :: "nat \<Rightarrow> nat \<Rightarrow> bytes" where
  "byte_range a b = map char_of [a..<Suc b]"

definition test_body_reader_buffered :: "crates \<Rightarrow> bool" where
  "test_body_reader_buffered E \<longleftrightarrow>
     reader_delivers E (body_from_vec (byte_range 1 10)) [byte_range 1 4, byte_range 5 5, byte_range 6 10] (\<lambda>_. True)"

definition test_body_reader_chunked :: "crates \<Rightarrow> bool" where
  "test_body_reader_chunked E \<longleftrightarrow>
     reader_delivers E
       (body_from_iter (map Data [byte_range 1 3, byte_range 4 6, byte_range 7 7, byte_range 8 9, byte_range 10 10]))
       [byte_range 1 4, byte_range 5 5, byte_range 6 10] (\<lambda>_. True)"

definition test_body_reader_with_unknown_size :: "crates \<Rightarrow> bool" where
  "test_body_reader_with_unknown_size E \<longleftrightarrow>
     reader_delivers E (body_from_reader (cursor (byte_range 1 10)) None)
       [byte_range 1 4, byte_range 5 5, byte_range 6 10] (\<lambda>_. True)"

definition test_body_reader_with_known_size :: "crates \<Rightarrow> bool" where
  "test_body_reader_with_known_size E \<longleftrightarrow>
     reader_delivers E (body_from_reader (cursor (byte_range 1 15)) (Some 10))
       [byte_range 1 4, byte_range 5 5, byte_range 6 10]
       (\<lambda>r. case io_copy E r new_writer of (Ok n, _, w) \<Rightarrow> w_out w = [] | _ \<Rightarrow> False)"

text \<open>The channel is \<^verbatim>\<open>unwrap\<close>ped after every send.\<close>

definition sent :: "bytes list \<Rightarrow> body_channel res" where
  "sent parts =
     fold (\<lambda>part ch. case ch of Ok ch \<Rightarrow> (case channel_send part ch of (Ok _, ch') \<Rightarrow> Ok ch' | _ \<Rightarrow> Panic) | x \<Rightarrow> x)
       parts (Ok new_channel)"

definition test_chunk_with_errors :: "crates \<Rightarrow> bool" where
  "test_chunk_with_errors E \<longleftrightarrow>
     (case sent [''123'', ''456''] of
        Ok ch \<Rightarrow>
          fst (into_bytes E (channel_body ch)) = Ok ''123456'' \<and>
          (case fst (into_bytes E (channel_body (channel_abort ch))) of Err _ \<Rightarrow> True | _ \<Rightarrow> False)
      | _ \<Rightarrow> False)"

definition body_tests :: "crates \<Rightarrow> bool" where
  "body_tests E \<longleftrightarrow> test_body_reader_buffered E \<and> test_body_reader_chunked E \<and>
     test_body_reader_with_unknown_size E \<and> test_body_reader_with_known_size E \<and> test_chunk_with_errors E"

lemma reads_parts_good:
  "reader_good r \<Longrightarrow> reader_content E r = concat parts @ rest \<Longrightarrow>
     \<exists>r'. reads_parts E r parts = Some r' \<and> reader_good r' \<and> reader_content E r' = rest"
proof (induction parts arbitrary: r)
  case (Cons part parts)
  from reader_read_exact_good [OF Cons.prems(1), of E "length part"] Cons.prems(2) obtain r1 where
    "reader_read_exact E (length part) r = (Ok part, r1)" "reader_good r1"
    "reader_content E r1 = concat parts @ rest" by auto
  with Cons.IH [of r1] show ?case by simp
qed simp

lemma reader_delivers_good:
  assumes "body_good E b" "body_content E b = concat parts @ rest"
    and "\<And>r. reader_good r \<Longrightarrow> reader_content E r = rest \<Longrightarrow> at_end r"
  shows "reader_delivers E b parts at_end"
proof -
  from into_reader_good [OF assms(1)] obtain r where
    "into_reader E b = Ok r" "reader_good r" "reader_content E r = body_content E b" by blast
  with reads_parts_good [of r E parts rest] assms(2,3) show ?thesis by (auto simp: reader_delivers_def)
qed

lemma byte_range_parts: "byte_range 1 10 = concat [byte_range 1 4, byte_range 5 5, byte_range 6 10]"
  by code_simp

lemma body_tests_hold: "body_tests E"
  unfolding body_tests_def
proof (intro conjI)
  let ?parts = "[byte_range 1 4, byte_range 5 5, byte_range 6 10]"
  note ten = byte_range_parts
  show "test_body_reader_buffered E"
    unfolding test_body_reader_buffered_def
    by (rule reader_delivers_good [where rest = "[]"]) (use ten in \<open>simp_all add: body_from_vec_def\<close>)
  have "concat [byte_range 1 3, byte_range 4 6, byte_range 7 7, byte_range 8 9, byte_range 10 10] = byte_range 1 10"
    by code_simp
  then show "test_body_reader_chunked E"
    unfolding test_body_reader_chunked_def
    by (intro reader_delivers_good [where rest = "[]"])
      (use ten in \<open>simp_all add: body_from_iter_def iter_ok_def iter_content_def\<close>)
  show "test_body_reader_with_unknown_size E"
    unfolding test_body_reader_with_unknown_size_def
    by (rule reader_delivers_good [where rest = "[]"]) (use ten in \<open>simp_all add: body_from_reader_def\<close>)
  have "take 10 (byte_range 1 15) = byte_range 1 10" "length (byte_range 1 15) = 15"
    by code_simp+
  moreover have "case io_copy E r new_writer of (Ok n, _, w) \<Rightarrow> w_out w = [] | _ \<Rightarrow> False"
    if "reader_good r" "reader_content E r = []" for r
    using io_copy_good [OF that(1), of new_writer E] that(2) by (auto simp: new_writer_def)
  ultimately show "test_body_reader_with_known_size E"
    unfolding test_body_reader_with_known_size_def
    by (intro reader_delivers_good [where rest = "[]"]) (use ten in \<open>simp_all add: body_from_reader_def\<close>)
  show "test_chunk_with_errors E"
    by (simp add: test_chunk_with_errors_def sent_def channel_send_def mpsc_send_def new_channel_def
        channel_abort_def channel_body_def collect_data.simps data_next.simps)
qed

section \<open>Tests of response.rs: writing\<close>

text \<open>
  Every one of these tests builds a response, writes it into an empty \<^verbatim>\<open>Cursor\<close>, and looks at the
  output and the outcome.
\<close>

definition written_as ::
  "crates \<Rightarrow> 'b http_body \<Rightarrow> string + ('b, unit) response \<Rightarrow> bool \<Rightarrow> (bytes \<Rightarrow> unit outcome \<Rightarrow> bool) \<Rightarrow> bool" where
  "written_as E B built with_body expected \<longleftrightarrow>
     (case built of
        Inl _ \<Rightarrow> False
      | Inr res \<Rightarrow>
          (case write_response E B res with_body new_writer of
             (Ok outcome, _, w) \<Rightarrow> expected (w_out w) outcome
           | _ \<Rightarrow> False))"

definition text_lines :: "bytes list \<Rightarrow> bytes" where
  "text_lines ls = concat (map (\<lambda>l. l @ crlf) ls)"

definition http_10 :: "string + ('b, unit) response \<Rightarrow> string + ('b, unit) response" where
  "http_10 = map_sum id (\<lambda>res. res\<lparr>rs_version := HTTP_10\<rparr>)"

definition writes_responses_without_bodies :: "crates \<Rightarrow> bool" where
  "writes_responses_without_bodies E \<longleftrightarrow>
     written_as E (body_impl E) (build E '''' 200 [] body_empty) True
       (\<lambda>out outcome. out = text_lines [''HTTP/1.1 200 OK'', ''content-length: 0'', ''''] \<and> outcome = KeepAlive)"

definition writes_responses_with_bodies :: "crates \<Rightarrow> bool" where
  "writes_responses_with_bodies E \<longleftrightarrow>
     written_as E str_impl (build E '''' 200 [] ''lol'') True
       (\<lambda>out outcome. out = text_lines [''HTTP/1.1 200 OK'', ''content-length: 3'', ''''] @ ''lol'' \<and> outcome = KeepAlive)"

definition allows_to_skip_body_writing :: "crates \<Rightarrow> bool" where
  "allows_to_skip_body_writing E \<longleftrightarrow>
     written_as E str_impl (build E '''' 200 [] ''lol'') False
       (\<lambda>out outcome. out = text_lines [''HTTP/1.1 200 OK'', ''content-length: 3'', ''''] \<and> outcome = KeepAlive)"

definition fails_when_the_informed_content_length_does_not_match_the_body_length :: "crates \<Rightarrow> bool" where
  "fails_when_the_informed_content_length_does_not_match_the_body_length E \<longleftrightarrow>
     (case build E '''' 200 [(''content-length'', ''5'')] ''lol'' :: string + (string, unit) response of
        Inl _ \<Rightarrow> False
      | Inr res \<Rightarrow> (case write_response E str_impl res True new_writer of (Err _, _) \<Rightarrow> True | _ \<Rightarrow> False))"

definition writes_chunked_responses :: "crates \<Rightarrow> bool" where
  "writes_chunked_responses E \<longleftrightarrow>
     written_as E (body_impl E) (build E '''' 200 [(''transfer-encoding'', ''chunked'')]
         (body_from_iter [Data ''chunk1'', Data ''chunk2''])) True
       (\<lambda>out outcome. out = text_lines [''HTTP/1.1 200 OK'', ''transfer-encoding: chunked'', '''', ''6'', ''chunk1'', ''6'', ''chunk2'', ''0'', ''''] \<and> outcome = KeepAlive)"

definition writes_chunked_responses_with_trailers :: "crates \<Rightarrow> bool" where
  "writes_chunked_responses_with_trailers E \<longleftrightarrow>
     (case sent [''lol'', ''wut''] of
        Ok ch \<Rightarrow>
          (case channel_send_trailer E ''content-length'' ''6'' ch of
             (Inr _, ch') \<Rightarrow>
               written_as E (body_impl E)
                 (build E '''' 200 [(''trailers'', ''content-length'')] (channel_body ch')) True
                 (\<lambda>out outcome. out = text_lines [''HTTP/1.1 200 OK'', ''trailers: content-length'',
                    ''transfer-encoding: chunked'', '''', ''3'', ''lol'', ''3'', ''wut'', ''0'', ''content-length: 6'', ''''] \<and>
                    outcome = KeepAlive)
           | _ \<Rightarrow> False)
      | _ \<Rightarrow> False)"

definition writes_responses_from_reader_with_known_size :: "crates \<Rightarrow> bool" where
  "writes_responses_from_reader_with_known_size E \<longleftrightarrow>
     written_as E (body_impl E) (build E '''' 200 [] (body_from_reader (cursor ''lol'') (Some 3))) True
       (\<lambda>out outcome. out = text_lines [''HTTP/1.1 200 OK'', ''content-length: 3'', ''''] @ ''lol'' \<and> outcome = KeepAlive)"

definition limits_the_from_reader_response_body_size :: "crates \<Rightarrow> bool" where
  "limits_the_from_reader_response_body_size E \<longleftrightarrow>
     written_as E (body_impl E) (build E '''' 200 [] (body_from_reader (cursor ''lolwut'') (Some 3))) True
       (\<lambda>out outcome. out = text_lines [''HTTP/1.1 200 OK'', ''content-length: 3'', ''''] @ ''lol'' \<and> outcome = KeepAlive)"

definition uses_chunked_transfer_when_the_reader_size_is_undefined :: "crates \<Rightarrow> bool" where
  "uses_chunked_transfer_when_the_reader_size_is_undefined E \<longleftrightarrow>
     written_as E (body_impl E) (build E '''' 200 [] (body_from_reader (cursor ''lolwut'') None)) True
       (\<lambda>out outcome. out = text_lines [''HTTP/1.1 200 OK'', ''transfer-encoding: chunked'', '''', ''6'', ''lolwut'', ''0'', ''''] \<and> outcome = KeepAlive)"

definition does_not_use_chunked_encoding_when_the_reader_size_is_undefined_and_connection_is_close :: "crates \<Rightarrow> bool" where
  "does_not_use_chunked_encoding_when_the_reader_size_is_undefined_and_connection_is_close E \<longleftrightarrow>
     written_as E (body_impl E) (build E '''' 200 [(''connection'', ''close'')] (body_from_reader (cursor ''lolwut'') None)) True
       (\<lambda>out outcome. out = text_lines [''HTTP/1.1 200 OK'', ''connection: close'', ''''] @ ''lolwut'' \<and> outcome = Close)"

definition supports_channel_response_bodies :: "crates \<Rightarrow> bool" where
  "supports_channel_response_bodies E \<longleftrightarrow>
     (case sent [''lol'', ''wut''] of
        Ok ch \<Rightarrow>
          written_as E (body_impl E)
            (build E '''' 200 [(''connection'', ''close'')] (channel_body ch)) True
            (\<lambda>out outcome. out = text_lines [''HTTP/1.1 200 OK'', ''connection: close'', ''''] @ ''lolwut'' \<and>
               outcome = Close)
      | _ \<Rightarrow> False)"

definition returns_a_close_connection_outcome_when_informed_an_explicit_close_connection_header :: "crates \<Rightarrow> bool" where
  "returns_a_close_connection_outcome_when_informed_an_explicit_close_connection_header E \<longleftrightarrow>
     written_as E (body_impl E) (build E '''' 200 [(''connection'', ''close'')] body_empty) True
       (\<lambda>out outcome. outcome = Close)"

definition returns_a_close_keep_alive_outcome_when_no_close_connection_is_informed :: "crates \<Rightarrow> bool" where
  "returns_a_close_keep_alive_outcome_when_no_close_connection_is_informed E \<longleftrightarrow>
     written_as E (body_impl E) (build E '''' 200 [] body_empty) True
       (\<lambda>out outcome. outcome = KeepAlive)"

definition returns_upgrade_outcome :: "crates \<Rightarrow> bool" where
  "returns_upgrade_outcome E \<longleftrightarrow>
     written_as E (body_impl E) (map_sum id (upgrade_response ()) (build E '''' SWITCHING_PROTOCOLS [] body_empty)) True
       (\<lambda>out outcome. case outcome of Upgrade _ \<Rightarrow> True | _ \<Rightarrow> False)"

definition writes_http_10_responses :: "crates \<Rightarrow> bool" where
  "writes_http_10_responses E \<longleftrightarrow>
     written_as E str_impl (http_10 (build E '''' 200 [] ''lol'')) True
       (\<lambda>out outcome. out = text_lines [''HTTP/1.0 200 OK'', ''content-length: 3'', ''''] @ ''lol'' \<and> outcome = KeepAlive)"

definition removes_chunked_transfer_encoding_from_http_10_responses :: "crates \<Rightarrow> bool" where
  "removes_chunked_transfer_encoding_from_http_10_responses E \<longleftrightarrow>
     written_as E (body_impl E) (http_10 (build E '''' 200 [(''transfer-encoding'', ''chunked'')] (body_from_iter [Data ''lol'']))) True
       (\<lambda>out outcome. out = text_lines [''HTTP/1.0 200 OK'', ''connection: close'', ''''] @ ''lol'' \<and> outcome = Close)"

text \<open>What the writer's theorems give for a test.\<close>

context http_body_contract
begin

lemma written_plain:
  assumes "built = Inr res" "response_plan E (hb_len B (rs_body res)) res = Ok (enc, h)" "good (rs_body res)"
    "enc \<noteq> Chunked" "expected (response_text E res h @ content (rs_body res)) (response_outcome E (rs_upgrade res) enc h)"
  shows "written_as E B built True expected"
proof -
  let ?w = "new_writer\<lparr>w_out := response_text E res h\<rparr>"
  have "w_cap ?w = None" by (simp add: new_writer_def)
  from write_body_plain [OF assms(3) this assms(4)] obtain src w' where
    "write_body E B enc (rs_body res) ?w = (Ok (), src, w')" "w_out w' = response_text E res h @ content (rs_body res)"
    by auto
  with write_response_body [OF assms(2), of new_writer] assms(1,5) show ?thesis
    by (simp add: written_as_def new_writer_def)
qed

end

context chunked_body_contract
begin

lemma written_chunked:
  assumes "built = Inr res" "response_plan E (hb_len B (rs_body res)) res = Ok (Chunked, h)" "good (rs_body res)"
    "expected (response_text E res h @ chunked_wire E (body_chunks E B (rs_body res)))
       (response_outcome E (rs_upgrade res) Chunked h)"
  shows "written_as E B built True expected"
proof -
  have "w_cap new_writer = None" by (simp add: new_writer_def)
  from write_response_wire [OF assms(2) this assms(3)] assms(1,4) show ?thesis
    by (auto simp: written_as_def body_wire_def new_writer_def)
qed

end

lemma written_head:
  assumes "built = Inr res" "response_plan E (hb_len B (rs_body res)) res = Ok (enc, h)"
    "expected (response_text E res h) (response_outcome E (rs_upgrade res) enc h)"
  shows "written_as E B built False expected"
  using assms write_response_head [OF assms(2), of new_writer] by (simp add: written_as_def new_writer_def)

lemma hb_lens [simp]: "hb_len (body_impl E) = body_len" "hb_len str_impl b = Some (length b)"
  by (simp_all add: body_impl_def str_impl_def)

lemma dec_digits: "dec (Suc (Suc (Suc 0))) = ''3''" "hex (Suc (Suc (Suc 0))) = ''3''"
  "hex (Suc (Suc (Suc (Suc (Suc (Suc 0)))))) = ''6''" "dec 0 = ''0''" "dec 3 = ''3''" "dec 5 = ''5''" "dec 6 = ''6''" "hex 3 = ''3''" "hex 6 = ''6''"
  by code_simp+

lemma test_fields:
  "field_name ''content-length''" "field_name ''transfer-encoding''" "field_name ''connection''" "field_name ''trailers''"
  "field_name ''Host''" "field_name ''Content-Length''" "field_name ''Transfer-Encoding''" "field_name ''date''"
  "lower ''content-length'' = ''content-length''" "lower ''transfer-encoding'' = ''transfer-encoding''"
  "lower ''connection'' = ''connection''" "lower ''trailers'' = ''trailers''" "lower ''Host'' = ''host''"
  "lower ''Content-Length'' = ''content-length''" "lower ''Transfer-Encoding'' = ''transfer-encoding''"
  "lower ''date'' = ''date''"
  "field_value ''5''" "field_value ''6''" "field_value ''2048''" "field_value ''close''" "field_value ''chunked''"
  "field_value ''content-length''" "field_value ''lol.com''" "field_value ''Mon, 25 Jul 2022 21:34:35 GMT''"
  by code_simp+

lemma documented_prints:
  assumes "documented E"
  shows "c_version_debug E HTTP_11 = ''HTTP/1.1''" "c_version_debug E HTTP_10 = ''HTTP/1.0''"
    "c_status_display E 200 = ''200 OK''"
  using documentedD(3) [OF assms] by (simp_all add: head_law_def)

text \<open>Building, planning and printing, as far as the tests go.\<close>

lemmas test_simps = build_def response_plan_def response_encoding_def response_headers_def Let_def
  response_text_def status_line_def header_line_def text_lines_def response_outcome_def crlf_def
  test_fields dec_digits http_10_def

lemma content_length_5: "documented E \<Longrightarrow> get_content_length E [(''content-length'', ''5'')] = Some 5"
  using documented_has(4) [of E "[(''content-length'', ''5'')]" 5] by (simp add: dec_digits)

lemma response_write_tests:
  assumes E: "documented E"
  shows "writes_responses_without_bodies E" "writes_responses_with_bodies E" "allows_to_skip_body_writing E"
    "fails_when_the_informed_content_length_does_not_match_the_body_length E"
proof -
  note [simp] = documented_has [OF E] documented_builds [OF E] documented_prints [OF E]
  show "writes_responses_without_bodies E"
    unfolding writes_responses_without_bodies_def
    by (rule body_body.written_plain [where enc = "FixedLength 0" and h = "[(''content-length'', ''0'')]"],
        simp add: test_simps) (simp_all add: test_simps body_empty_def)
  show "writes_responses_with_bodies E"
    unfolding writes_responses_with_bodies_def
    by (rule str_body.written_plain [where enc = "FixedLength 3" and h = "[(''content-length'', ''3'')]"],
        simp add: test_simps) (simp_all add: test_simps)
  show "allows_to_skip_body_writing E"
    unfolding allows_to_skip_body_writing_def
    by (rule written_head [where enc = "FixedLength 3" and h = "[(''content-length'', ''3'')]"],
        simp add: test_simps) (simp_all add: test_simps)
  show "fails_when_the_informed_content_length_does_not_match_the_body_length E"
    unfolding fails_when_the_informed_content_length_does_not_match_the_body_length_def
    by (simp add: build_def test_fields write_response_def response_encoding_def Let_def str_impl_def content_length_5 [OF E])
qed

text \<open>The chunks of the bodies that the tests send.\<close>

lemma body_chunks_items:
  "body_chunks E (body_impl E) (Body (Some (Iter (Items (map Inr cs))))) = map Inr cs"
proof -
  have "takeWhile isr (map Inr cs) = (map Inr cs :: (io_error + chunk) list)"
    by (simp add: takeWhile_eq_all_conv)
  then show ?thesis by (simp add: body_chunks_def body_impl_def chunk_collect_iter)
qed

lemma body_chunks_cursor:
  assumes "bs \<noteq> []" "length bs \<le> CHUNK_BUF"
  shows "body_chunks E (body_impl E) (body_from_reader (cursor bs) None) = [Inr (Data bs)]"
proof -
  have "chunk_step E (ChunkIterator (Some (CReader (cursor bs) None))) =
      (Some (Inr (Data bs)), ChunkIterator (Some (CReader [] None)))"
    using assms by (simp add: chunk_step_def cursor_def push_back_def)
  moreover have "chunk_step E (ChunkIterator (Some (CReader [] None))) = (None, ChunkIterator None)"
    by (simp add: chunk_step_def)
  ultimately show ?thesis
    by (simp add: body_chunks_def body_impl_def body_from_reader_def chunks.collect_Some chunks.collect_None)
qed

lemma chunked_wire_data:
  "chunked_wire E (map (\<lambda>d. Inr (Data d)) ds) = concat (map chunk_frame ds) @ last_chunk @ crlf"
proof -
  have "data_chunks (map (\<lambda>d. Inr (Data d)) ds) = ds" "trailer_chunks (map (\<lambda>d. Inr (Data d)) ds) = []"
    by (induction ds) auto
  then show ?thesis by (simp add: chunked_wire_def)
qed

lemmas chunked_simps = chunked_wire_def chunk_frame_def last_chunk_def hex_0 body_chunks_items [of _ "[_]", simplified]
  body_chunks_items [of _ "[_, _]", simplified] body_chunks_items [of _ "[_, _, _]", simplified]

lemma chunked_response_tests:
  assumes E: "documented E"
  shows "writes_chunked_responses E" "writes_chunked_responses_with_trailers E"
    "uses_chunked_transfer_when_the_reader_size_is_undefined E"
proof -
  note [simp] = documented_has [OF E] documented_builds [OF E] documented_prints [OF E]
  show "writes_chunked_responses E"
    unfolding writes_chunked_responses_def
    by (rule body_chunks.written_chunked [where h = "[(''transfer-encoding'', ''chunked'')]"], simp add: test_simps)
      (simp_all add: test_simps body_from_iter_def iter_ok_def chunked_simps)
  show "writes_chunked_responses_with_trailers E"
    by (simp add: writes_chunked_responses_with_trailers_def sent_def channel_send_def mpsc_send_def new_channel_def
        channel_send_trailer_def channel_send_trailers_def channel_body_def test_fields,
        rule body_chunks.written_chunked [where h = "[(''trailers'', ''content-length''), (''transfer-encoding'', ''chunked'')]"],
        simp add: test_simps)
      (simp_all add: test_simps body_from_iter_def iter_ok_def chunked_simps)
  show "uses_chunked_transfer_when_the_reader_size_is_undefined E"
    unfolding uses_chunked_transfer_when_the_reader_size_is_undefined_def
    by (rule body_chunks.written_chunked [where h = "[(''transfer-encoding'', ''chunked'')]"], simp add: test_simps)
      (simp_all add: test_simps body_from_reader_def CHUNK_BUF_def chunked_simps
        body_chunks_cursor [of "''lolwut''", unfolded body_from_reader_def])
qed

lemma reader_response_tests:
  assumes E: "documented E"
  shows "writes_responses_from_reader_with_known_size E" "limits_the_from_reader_response_body_size E"
    "does_not_use_chunked_encoding_when_the_reader_size_is_undefined_and_connection_is_close E"
    "supports_channel_response_bodies E"
proof -
  note [simp] = documented_has [OF E] documented_builds [OF E] documented_prints [OF E]
  show "writes_responses_from_reader_with_known_size E"
    unfolding writes_responses_from_reader_with_known_size_def
    by (rule body_body.written_plain [where enc = "FixedLength 3" and h = "[(''content-length'', ''3'')]"],
        simp add: test_simps) (simp_all add: test_simps body_from_reader_def)
  show "limits_the_from_reader_response_body_size E"
    unfolding limits_the_from_reader_response_body_size_def
    by (rule body_body.written_plain [where enc = "FixedLength 3" and h = "[(''content-length'', ''3'')]"],
        simp add: test_simps) (simp_all add: test_simps body_from_reader_def)
  show "does_not_use_chunked_encoding_when_the_reader_size_is_undefined_and_connection_is_close E"
    unfolding does_not_use_chunked_encoding_when_the_reader_size_is_undefined_and_connection_is_close_def
    by (rule body_body.written_plain [where enc = "CloseDelimited" and h = "[(''connection'', ''close'')]"],
        simp add: test_simps) (simp_all add: test_simps body_from_reader_def)
  show "supports_channel_response_bodies E"
    by (simp add: supports_channel_response_bodies_def sent_def channel_send_def mpsc_send_def new_channel_def channel_body_def,
        rule body_body.written_plain [where enc = CloseDelimited and h = "[(''connection'', ''close'')]"],
        simp add: test_simps) (simp_all add: test_simps iter_ok_def iter_content_def)
qed

lemma outcome_response_tests:
  assumes E: "documented E"
  shows "returns_a_close_connection_outcome_when_informed_an_explicit_close_connection_header E"
    "returns_a_close_keep_alive_outcome_when_no_close_connection_is_informed E"
    "returns_upgrade_outcome E" "writes_http_10_responses E"
    "removes_chunked_transfer_encoding_from_http_10_responses E"
proof -
  note [simp] = documented_has [OF E] documented_builds [OF E] documented_prints [OF E]
  show "returns_a_close_connection_outcome_when_informed_an_explicit_close_connection_header E"
    unfolding returns_a_close_connection_outcome_when_informed_an_explicit_close_connection_header_def
    by (rule body_body.written_plain [where enc = "FixedLength 0" and h = "[(''connection'', ''close''), (''content-length'', ''0'')]"],
        simp add: test_simps) (simp_all add: test_simps body_empty_def)
  show "returns_a_close_keep_alive_outcome_when_no_close_connection_is_informed E"
    unfolding returns_a_close_keep_alive_outcome_when_no_close_connection_is_informed_def
    by (rule body_body.written_plain [where enc = "FixedLength 0" and h = "[(''content-length'', ''0'')]"],
        simp add: test_simps) (simp_all add: test_simps body_empty_def)
  show "returns_upgrade_outcome E"
    unfolding returns_upgrade_outcome_def
    by (rule body_body.written_plain [where enc = "FixedLength 0" and h = "[(''content-length'', ''0'')]"],
        simp add: test_simps upgrade_response_def) (simp_all add: test_simps upgrade_response_def body_empty_def)
  show "writes_http_10_responses E"
    unfolding writes_http_10_responses_def
    by (rule str_body.written_plain [where enc = "FixedLength 3" and h = "[(''content-length'', ''3'')]"],
        simp add: test_simps) (simp_all add: test_simps)
  show "removes_chunked_transfer_encoding_from_http_10_responses E"
    unfolding removes_chunked_transfer_encoding_from_http_10_responses_def
    by (rule body_body.written_plain [where enc = "CloseDelimited" and h = "[(''connection'', ''close'')]"],
        simp add: test_simps) (simp_all add: test_simps body_from_iter_def iter_ok_def iter_content_def)
qed

section \<open>Tests of request.rs and response.rs: parsing\<close>

text \<open>\<^verbatim>\<open>assert_eq!(msg.into_body().into_bytes().unwrap(), expected)\<close>.\<close>

definition request_body_is :: "crates \<Rightarrow> bytes \<Rightarrow> bytes \<Rightarrow> bool" where
  "request_body_is E text expected \<longleftrightarrow>
     (case parse_request E (cursor text) of
        (Inr req, _) \<Rightarrow> fst (into_bytes E (rq_body req)) = Ok expected
      | _ \<Rightarrow> False)"

definition response_body_is :: "crates \<Rightarrow> bytes \<Rightarrow> bytes \<Rightarrow> bool" where
  "response_body_is E text expected \<longleftrightarrow>
     (case parse_response E (cursor text) :: (parse_error + (body, unit) response) \<times> stream option of
        (Inr res, _) \<Rightarrow> fst (into_bytes E (rs_body res)) = Ok expected
      | _ \<Rightarrow> False)"

text \<open>\<open>path\<close> is \<^verbatim>\<open>Uri::path\<close> of the \<^verbatim>\<open>http\<close> crate.\<close>

definition parse_request_without_body :: "(uri \<Rightarrow> string) \<Rightarrow> crates \<Rightarrow> bool" where
  "parse_request_without_body path E \<longleftrightarrow>
     (case parse_request E (cursor (text_lines [''GET /lolwut HTTP/1.1'', ''Host: lol.com'', ''''])) of
        (Inr req, _) \<Rightarrow> rq_version req = HTTP_11 \<and> path (rq_uri req) = ''/lolwut'' \<and>
          map_of (rq_headers req) ''host'' = Some ''lol.com''
      | _ \<Rightarrow> False)"

definition parse_request_with_content_length_body :: "crates \<Rightarrow> bool" where
  "parse_request_with_content_length_body E \<longleftrightarrow>
     request_body_is E
       (text_lines [''POST /lol HTTP/1.1'', ''Host: lol.com'', ''Content-Length: 6'', ''''] @ ''lolwut ignored'')
       ''lolwut''"

definition parse_request_with_chunked_body :: "crates \<Rightarrow> bool" where
  "parse_request_with_chunked_body E \<longleftrightarrow>
     request_body_is E
       (text_lines [''POST /lol HTTP/1.1'', ''Host: lol.com'', ''Transfer-Encoding: chunked'', '''',
          ''3'', ''lol'', ''3'', ''wut'', ''0'', ''''])
       ''lolwut''"

definition parse_request_with_chunked_body_and_extensions :: "crates \<Rightarrow> bool" where
  "parse_request_with_chunked_body_and_extensions E \<longleftrightarrow>
     request_body_is E
       (text_lines [''POST /lol HTTP/1.1'', ''Host: lol.com'', ''Transfer-Encoding: chunked'', '''',
          ''3;extension'', ''lol'', ''3'', ''wut'', ''0'', ''''])
       ''lolwut''"

definition parse_request_with_streaming_body :: "crates \<Rightarrow> bool" where
  "parse_request_with_streaming_body E \<longleftrightarrow>
     (let content = replicate 2048 (char_of (65 :: nat)) in
      request_body_is E
        (text_lines [''POST /lol HTTP/1.1'', ''Host: lol.com'', ''Content-Length: 2048'', ''''] @ content) content)"

definition fails_to_parse_incomplete_request :: "crates \<Rightarrow> bool" where
  "fails_to_parse_incomplete_request E \<longleftrightarrow> fst (parse_request E (cursor ''POST /lol'')) = Inl IncompleteRequest"

definition parse_response_without_body :: "crates \<Rightarrow> bool" where
  "parse_response_without_body E \<longleftrightarrow>
     (case parse_response E (cursor (text_lines [''HTTP/1.1 200 OK'', ''date: Mon, 25 Jul 2022 21:34:35 GMT'', ''''])) ::
         (parse_error + (body, unit) response) \<times> stream option of
        (Inr res, _) \<Rightarrow> rs_version res = HTTP_11 \<and> rs_status res = 200 \<and>
          map_of (rs_headers res) ''date'' = Some ''Mon, 25 Jul 2022 21:34:35 GMT''
      | _ \<Rightarrow> False)"

definition parse_response_with_content_length_body :: "crates \<Rightarrow> bool" where
  "parse_response_with_content_length_body E \<longleftrightarrow>
     response_body_is E (text_lines [''HTTP/1.1 200 OK'', ''content-length: 6'', ''''] @ ''lolwut ignored'') ''lolwut''"

definition parse_response_with_chunked_body :: "crates \<Rightarrow> bool" where
  "parse_response_with_chunked_body E \<longleftrightarrow>
     response_body_is E
       (text_lines [''HTTP/1.1 200 OK'', ''transfer-encoding: chunked'', '''', ''3'', ''lol'', ''3'', ''wut'', ''0'', ''''])
       ''lolwut''"

definition parse_response_with_chunked_body_and_extensions :: "crates \<Rightarrow> bool" where
  "parse_response_with_chunked_body_and_extensions E \<longleftrightarrow>
     response_body_is E
       (text_lines [''HTTP/1.1 200 OK'', ''transfer-encoding: chunked'', '''',
          ''3;extension'', ''lol'', ''3'', ''wut'', ''0'', ''''])
       ''lolwut''"

definition parse_response_with_streaming_body :: "crates \<Rightarrow> bool" where
  "parse_response_with_streaming_body E \<longleftrightarrow>
     (let content = replicate 2048 (char_of (65 :: nat)) in
      response_body_is E (text_lines [''HTTP/1.1 200 OK'', ''content-length: 2048'', ''''] @ content) content)"

definition parse_response_with_close_delimited_body :: "crates \<Rightarrow> bool" where
  "parse_response_with_close_delimited_body E \<longleftrightarrow>
     response_body_is E (text_lines [''HTTP/1.1 200 OK'', ''connection: close'', ''''] @ ''lolwut'') ''lolwut''"

lemma framed_fields:
  assumes "documented E" "distinct (map fst h)" "map_of h ''transfer-encoding'' \<in> {None, Some ''chunked''}"
    "map_of h ''content-length'' = None \<or> (\<exists>n < 2 ^ 64. map_of h ''content-length'' = Some (dec n))"
  shows "clean_headers E h"
  using documented_views(1-4) [OF assms(1,2)] assms(3,4) by (auto simp: clean_headers_def)

lemma request_body_isI:
  assumes E: "documented E" and hs: "list_all field hs" "distinct (map fst (map lower_field hs))" "length hs \<le> 64"
    and f: "framed E (map lower_field hs) enc content xs" "enc \<noteq> CloseDelimited"
    and msg: "text = (request_line ''POST'' ''/lol'' ''HTTP/1.1'' @ concat (map header_line hs) @ crlf) @
      framed_wire E enc content xs @ rest"
  shows "request_body_is E text content"
proof -
  have "field_name ''POST''" "target ''/lol''" "protocol 1 ''HTTP/1.1''" by code_simp+
  from documented_parse_request [OF E hs this, of "cursor text" "framed_wire E enc content xs @ rest"] msg
  obtain s1 where s1: "quiet s1" "bytes_of s1 = framed_wire E enc content xs @ rest"
    "parse_request E (cursor text) = (case request_body E (map lower_field hs) s1 of
        (Inl err, src) \<Rightarrow> (Inl err, src)
      | (Inr b, src) \<Rightarrow> (Inr \<lparr>rq_method = ''POST'', rq_uri = ''/lol'', rq_version = HTTP_11,
          rq_headers = map lower_field hs, rq_body = b\<rparr>, src))" by auto
  from request_received [OF f(1) s1(1,2) f(2)] obtain b src where
    "request_body E (map lower_field hs) s1 = (Inr b, src)" "body_good E b" "body_content E b = content" by blast
  with s1(3) into_bytes_good [of E b] show ?thesis by (simp add: request_body_is_def)
qed

lemma response_body_isI:
  assumes E: "documented E" and hs: "list_all field hs" "distinct (map fst (map lower_field hs))" "length hs \<le> 64"
    and f: "framed E (map lower_field hs) enc content xs" "enc = CloseDelimited \<Longrightarrow> rest = []"
    and msg: "text = ((''HTTP/1.1'' @ '' '' @ dec 200 @ '' '' @ ''OK'' @ crlf) @ concat (map header_line hs) @ crlf) @
      framed_wire E enc content xs @ rest"
  shows "response_body_is E text content"
proof -
  have ok: "list_all printable ''OK''" "protocol 1 ''HTTP/1.1''" by code_simp+
  have "\<exists>s1. quiet s1 \<and> bytes_of s1 = framed_wire E enc content xs @ rest \<and>
    (parse_response E (cursor text) :: (parse_error + (body, unit) response) \<times> stream option) =
      (case response_body E (map lower_field hs) s1 of
        (Inl err, src) \<Rightarrow> (Inl err, src)
      | (Inr b, src) \<Rightarrow> (Inr \<lparr>rs_status = 200, rs_version = (if (1 :: nat) = 0 then HTTP_10 else HTTP_11),
          rs_headers = map lower_field hs, rs_upgrade = None, rs_body = b\<rparr>, src))"
    by (rule documented_parse_response [OF E hs _ _ ok]) (simp_all add: msg)
  then obtain s1 where s1: "quiet s1" "bytes_of s1 = framed_wire E enc content xs @ rest"
    "(parse_response E (cursor text) :: (parse_error + (body, unit) response) \<times> stream option) =
      (case response_body E (map lower_field hs) s1 of
        (Inl err, src) \<Rightarrow> (Inl err, src)
      | (Inr b, src) \<Rightarrow> (Inr \<lparr>rs_status = 200, rs_version = HTTP_11,
          rs_headers = map lower_field hs, rs_upgrade = None, rs_body = b\<rparr>, src))" by auto
  from response_received [OF f(1) s1(1,2) f(2)] obtain b src where
    "response_body E (map lower_field hs) s1 = (Inr b, src)" "body_good E b" "body_content E b = content" by blast
  with s1(3) into_bytes_good [of E b] show ?thesis by (simp add: response_body_is_def)
qed

lemma dec_large: "dec 2048 = ''2048''" "dec 200 = ''200''"
  by code_simp+

lemmas parse_simps = text_lines_def request_line_def header_line_def crlf_def framed_wire_def framed_def
  announces_def clean_headers_def chunks_sendable_def chunked_wire_def chunk_frame_def last_chunk_def
  field_def lower_field_def test_fields dec_digits dec_large hex_0

lemma length_views:
  assumes E: "documented E" and h: "distinct (map fst h)"
  shows "map_of h ''content-length'' = Some ''6'' \<Longrightarrow> c_content_length E h = Inr (Some 6) \<and> get_content_length E h = Some 6"
    "map_of h ''content-length'' = Some ''2048'' \<Longrightarrow> c_content_length E h = Inr (Some 2048) \<and> get_content_length E h = Some 2048"
  using documented_views(4) [OF E h, of 6] documented_views(4) [OF E h, of 2048]
  by (simp_all add: dec_digits dec_large get_content_length_def)

lemma parse_request_tests:
  assumes E: "documented E"
  shows "parse_request_with_content_length_body E" "parse_request_with_chunked_body E"
    "parse_request_with_streaming_body E"
proof -
  note [simp] = documented_has [OF E] documented_views [OF E] length_views [OF E] documentedD [OF E]
  show "parse_request_with_content_length_body E"
    unfolding parse_request_with_content_length_body_def
    by (rule request_body_isI [OF E, where hs = "[(''Host'', ''lol.com''), (''Content-Length'', ''6'')]" and enc = "FixedLength 6" and xs = "[]" and rest = "'' ignored''"])
      (simp_all add: parse_simps)
  show "parse_request_with_chunked_body E"
    unfolding parse_request_with_chunked_body_def
    by (rule request_body_isI [OF E, where hs = "[(''Host'', ''lol.com''), (''Transfer-Encoding'', ''chunked'')]" and enc = "Chunked" and xs = "[Inr (Data ''lol''), Inr (Data ''wut'')]" and rest = "[]"])
      (simp_all add: parse_simps)
  show "parse_request_with_streaming_body E"
    unfolding parse_request_with_streaming_body_def Let_def
    by (rule request_body_isI [OF E, where hs = "[(''Host'', ''lol.com''), (''Content-Length'', ''2048'')]" and enc = "FixedLength 2048" and xs = "[]" and rest = "[]"])
      (simp_all add: parse_simps)
qed

lemma parse_response_tests:
  assumes E: "documented E"
  shows "parse_response_with_content_length_body E" "parse_response_with_chunked_body E"
    "parse_response_with_streaming_body E" "parse_response_with_close_delimited_body E"
proof -
  note [simp] = documented_has [OF E] documented_views [OF E] length_views [OF E] documentedD [OF E]
  show "parse_response_with_content_length_body E"
    unfolding parse_response_with_content_length_body_def
    by (rule response_body_isI [OF E, where hs = "[(''content-length'', ''6'')]" and enc = "FixedLength 6" and xs = "[]" and rest = "'' ignored''"])
      (simp_all add: parse_simps)
  show "parse_response_with_chunked_body E"
    unfolding parse_response_with_chunked_body_def
    by (rule response_body_isI [OF E, where hs = "[(''transfer-encoding'', ''chunked'')]" and enc = "Chunked" and xs = "[Inr (Data ''lol''), Inr (Data ''wut'')]" and rest = "[]"])
      (simp_all add: parse_simps)
  show "parse_response_with_streaming_body E"
    unfolding parse_response_with_streaming_body_def Let_def
    by (rule response_body_isI [OF E, where hs = "[(''content-length'', ''2048'')]" and enc = "FixedLength 2048" and xs = "[]" and rest = "[]"])
      (simp_all add: parse_simps)
  show "parse_response_with_close_delimited_body E"
    unfolding parse_response_with_close_delimited_body_def
    by (rule response_body_isI [OF E, where hs = "[(''connection'', ''close'')]" and enc = "CloseDelimited" and xs = "[]" and rest = "[]"])
      (simp_all add: parse_simps)
qed

text \<open>The body with an extension, from the first chunk on.\<close>

lemma extended_body:
  assumes E: "documented E" and q: "quiet s"
    and bs: "bytes_of s = text_lines [''3;extension'', ''lol'', ''3'', ''wut'', ''0'', '''']"
  shows "fst (into_bytes E (Body (Some (Iter (ChunkedReader s))))) = Ok ''lolwut''"
proof -
  have "list_all printable ''extension''" by code_simp
  moreover have "bytes_of s = (hex (length ''lol'') @ '';'' @ ''extension'' @ crlf) @ ''lol'' @ crlf @
      concat (map chunk_frame [''wut'']) @ last_chunk @ crlf"
    by (simp add: bs text_lines_def crlf_def chunk_frame_def last_chunk_def hex_0 dec_digits)
  ultimately obtain s1 where s1: "chunked_next E s = (Some ''lol'', s1)" "quiet s1"
    "bytes_of s1 = concat (map chunk_frame [''wut'']) @ last_chunk @ crlf"
    using chunked_next_extension [OF E q, of "''lol''" "''extension''"
        "concat (map chunk_frame [''wut'']) @ last_chunk @ crlf"] by auto
  from chunked_collect_frames [OF documentedD(4) [OF E] s1(2) _ s1(3)]
  obtain s2 where "chunked_collect E s1 = ([''wut''], s2)" by auto
  with s1(1) have "chunked_collect E s = ([''lol'', ''wut''], s2)" by (simp add: chunked.collect_Some)
  then have "data_collect E (ChunkedReader s) = (map Inr [''lol'', ''wut''], ChunkedReader s2)"
    by (simp add: data_collect_def List.map_filter_simps)
  from collect_data_end [OF this] show ?thesis by simp
qed

lemma parse_extension_tests:
  assumes E: "documented E"
  shows "parse_request_with_chunked_body_and_extensions E" "parse_response_with_chunked_body_and_extensions E"
proof -
  let ?rest = "text_lines [''3;extension'', ''lol'', ''3'', ''wut'', ''0'', '''']"
  note [simp] = documented_views [OF E]
  have ok: "field_name ''POST''" "target ''/lol''" "protocol 1 ''HTTP/1.1''" "list_all printable ''OK''" by code_simp+
  let ?hs = "[(''Host'', ''lol.com''), (''Transfer-Encoding'', ''chunked'')]"
  let ?req = "text_lines [''POST /lol HTTP/1.1'', ''Host: lol.com'', ''Transfer-Encoding: chunked'', '''',
      ''3;extension'', ''lol'', ''3'', ''wut'', ''0'', '''']"
  have "\<exists>s1. quiet s1 \<and> bytes_of s1 = ?rest \<and> parse_request E (cursor ?req) =
      (case request_body E (map lower_field ?hs) s1 of
        (Inl err, src) \<Rightarrow> (Inl err, src)
      | (Inr b, src) \<Rightarrow> (Inr \<lparr>rq_method = ''POST'', rq_uri = ''/lol'',
          rq_version = (if (1 :: nat) = 0 then HTTP_10 else HTTP_11), rq_headers = map lower_field ?hs, rq_body = b\<rparr>, src))"
    by (rule documented_parse_request [OF E _ _ _ ok(1-3)]) (simp_all add: parse_simps)
  then obtain s1 where "quiet s1" "bytes_of s1 = ?rest" "fst (parse_request E (cursor ?req)) =
      Inr \<lparr>rq_method = ''POST'', rq_uri = ''/lol'', rq_version = HTTP_11, rq_headers = map lower_field ?hs,
        rq_body = Body (Some (Iter (ChunkedReader s1)))\<rparr>"
    by (auto simp: request_body_def parse_simps)
  with extended_body [OF E, of s1] show "parse_request_with_chunked_body_and_extensions E"
    by (auto simp: parse_request_with_chunked_body_and_extensions_def request_body_is_def simp del: into_bytes.simps
        split: prod.split)
  let ?hs = "[(''transfer-encoding'', ''chunked'')]"
  let ?res = "text_lines [''HTTP/1.1 200 OK'', ''transfer-encoding: chunked'', '''',
      ''3;extension'', ''lol'', ''3'', ''wut'', ''0'', '''']"
  have "\<exists>s1. quiet s1 \<and> bytes_of s1 = ?rest \<and>
      (parse_response E (cursor ?res) :: (parse_error + (body, unit) response) \<times> stream option) =
      (case response_body E (map lower_field ?hs) s1 of
        (Inl err, src) \<Rightarrow> (Inl err, src)
      | (Inr b, src) \<Rightarrow> (Inr \<lparr>rs_status = 200, rs_version = (if (1 :: nat) = 0 then HTTP_10 else HTTP_11),
          rs_headers = map lower_field ?hs, rs_upgrade = None, rs_body = b\<rparr>, src))"
    by (rule documented_parse_response [OF E _ _ _ _ _ ok(4,3)]) (simp_all add: parse_simps)
  then obtain s1 where "quiet s1" "bytes_of s1 = ?rest"
    "fst (parse_response E (cursor ?res) :: (parse_error + (body, unit) response) \<times> stream option) =
      Inr \<lparr>rs_status = 200, rs_version = HTTP_11, rs_headers = map lower_field ?hs, rs_upgrade = None,
        rs_body = Body (Some (Iter (ChunkedReader s1)))\<rparr>"
    by (auto simp: response_body_def parse_simps)
  with extended_body [OF E, of s1] show "parse_response_with_chunked_body_and_extensions E"
    by (auto simp: parse_response_with_chunked_body_and_extensions_def response_body_is_def simp del: into_bytes.simps
        split: prod.split)
qed

lemma parse_head_tests:
  assumes E: "documented E" and path: "path ''/lolwut'' = ''/lolwut''"
  shows "parse_request_without_body path E" "fails_to_parse_incomplete_request E" "parse_response_without_body E"
proof -
  note [simp] = documented_views [OF E]
  have ok: "field_name ''GET''" "target ''/lolwut''" "protocol 1 ''HTTP/1.1''" "list_all printable ''OK''"
    "field_name ''POST''" "target ''/lol''" by code_simp+
  let ?hs = "[(''Host'', ''lol.com'')]"
  let ?req = "text_lines [''GET /lolwut HTTP/1.1'', ''Host: lol.com'', '''']"
  have "\<exists>s1. quiet s1 \<and> bytes_of s1 = [] \<and> parse_request E (cursor ?req) =
      (case request_body E (map lower_field ?hs) s1 of
        (Inl err, src) \<Rightarrow> (Inl err, src)
      | (Inr b, src) \<Rightarrow> (Inr \<lparr>rq_method = ''GET'', rq_uri = ''/lolwut'',
          rq_version = (if (1 :: nat) = 0 then HTTP_10 else HTTP_11), rq_headers = map lower_field ?hs, rq_body = b\<rparr>, src))"
    by (rule documented_parse_request [OF E _ _ _ ok(1-3)]) (simp_all add: parse_simps)
  with path show "parse_request_without_body path E"
    by (auto simp: parse_request_without_body_def request_body_def parse_simps)
  from read_head_quiet [of "cursor ''POST /lol''" "[]"] obtain s' where
    "read_head [] (cursor ''POST /lol'') = (Ok ''POST /lol'', s')"
    by (auto simp: head_complete_def ends_with_def)
  moreover from documentedD(7) [OF E] ok(5,6) obtain n hs where "c_parse_request E (''POST'' @ '' '' @ ''/lol'') =
      Inr \<lparr>pr_method = Some ''POST'', pr_path = None, pr_version = n, pr_headers = hs\<rparr>"
    unfolding partial_request_law_def by blast
  ultimately show "fails_to_parse_incomplete_request E"
    by (simp add: fails_to_parse_incomplete_request_def parse_request_def request_head_def)
  let ?hs = "[(''date'', ''Mon, 25 Jul 2022 21:34:35 GMT'')]"
  let ?res = "text_lines [''HTTP/1.1 200 OK'', ''date: Mon, 25 Jul 2022 21:34:35 GMT'', '''']"
  have "\<exists>s1. quiet s1 \<and> bytes_of s1 = [] \<and>
      (parse_response E (cursor ?res) :: (parse_error + (body, unit) response) \<times> stream option) =
      (case response_body E (map lower_field ?hs) s1 of
        (Inl err, src) \<Rightarrow> (Inl err, src)
      | (Inr b, src) \<Rightarrow> (Inr \<lparr>rs_status = 200, rs_version = (if (1 :: nat) = 0 then HTTP_10 else HTTP_11),
          rs_headers = map lower_field ?hs, rs_upgrade = None, rs_body = b\<rparr>, src))"
    by (rule documented_parse_response [OF E _ _ _ _ _ ok(4,3)]) (simp_all add: parse_simps)
  then show "parse_response_without_body E"
    using documented_has(5) [OF E, of "[(''date'', ''Mon, 25 Jul 2022 21:34:35 GMT'')]" "''close''"]
    by (auto simp: parse_response_without_body_def response_body_def parse_simps)
qed

section \<open>All of them\<close>

definition request_tests :: "(uri \<Rightarrow> string) \<Rightarrow> crates \<Rightarrow> bool" where
  "request_tests path E \<longleftrightarrow>
     parse_request_without_body path E \<and> parse_request_with_content_length_body E \<and>
     parse_request_with_chunked_body E \<and> parse_request_with_chunked_body_and_extensions E \<and>
     parse_request_with_streaming_body E \<and> fails_to_parse_incomplete_request E"

definition response_tests :: "crates \<Rightarrow> bool" where
  "response_tests E \<longleftrightarrow>
     writes_responses_without_bodies E \<and> writes_responses_with_bodies E \<and>
     allows_to_skip_body_writing E \<and>
     fails_when_the_informed_content_length_does_not_match_the_body_length E \<and> writes_chunked_responses E \<and>
     writes_chunked_responses_with_trailers E \<and> writes_responses_from_reader_with_known_size E \<and>
     limits_the_from_reader_response_body_size E \<and>
     uses_chunked_transfer_when_the_reader_size_is_undefined E \<and>
     does_not_use_chunked_encoding_when_the_reader_size_is_undefined_and_connection_is_close E \<and>
     supports_channel_response_bodies E \<and>
     returns_a_close_connection_outcome_when_informed_an_explicit_close_connection_header E \<and>
     returns_a_close_keep_alive_outcome_when_no_close_connection_is_informed E \<and> returns_upgrade_outcome E \<and>
     writes_http_10_responses E \<and> removes_chunked_transfer_encoding_from_http_10_responses E \<and>
     parse_response_without_body E \<and> parse_response_with_content_length_body E \<and>
     parse_response_with_chunked_body E \<and> parse_response_with_chunked_body_and_extensions E \<and>
     parse_response_with_streaming_body E \<and> parse_response_with_close_delimited_body E"

text \<open>
  C14: The unit tests of \<^verbatim>\<open>body.rs\<close>, \<^verbatim>\<open>request.rs\<close> and \<^verbatim>\<open>response.rs\<close> hold in the model for all crates that
  behave as documented: the five ways of reading bodies, the six requests and the 22 responses of the tests come
  out as the tests assert.
\<close>

theorem unit_tests_hold:
  assumes "documented E" "path ''/lolwut'' = ''/lolwut''"
  shows "body_tests E \<and> request_tests path E \<and> response_tests E"
  using body_tests_hold [of E] response_write_tests [OF assms(1)] chunked_response_tests [OF assms(1)]
    reader_response_tests [OF assms(1)] outcome_response_tests [OF assms(1)] parse_request_tests [OF assms(1)]
    parse_response_tests [OF assms(1)] parse_extension_tests [OF assms(1)] parse_head_tests [of E path, OF assms]
  unfolding request_tests_def response_tests_def by blast

theorem unit_tests_hold_witness:
  "body_tests doc_crates \<and> request_tests (\<lambda>u. u) doc_crates \<and> response_tests doc_crates"
  using unit_tests_hold [OF doc_documented, of "\<lambda>u. u"] by simp

end
