(* ===== verification/Client_Tests.thy ===== *)
theory Client_Tests
  imports Repository_Tests Client_Properties
begin

text \<open>
  The tests of \<^verbatim>\<open>client.rs\<close>: a server and a client on one connection.  Both run to completion here, so
  the network between them is written out: the server receives each request as one block, and the client
  receives what the server adds to its output for it.
\<close>

section \<open>The network\<close>

definition request_bytes :: "crates \<Rightarrow> 'b http_body \<Rightarrow> 'b request \<Rightarrow> bytes" where
  "request_bytes E B req = w_out (snd (snd (write_request E B req new_writer)))"

definition served_bytes ::
  "crates \<Rightarrow> 'b http_body \<Rightarrow> ('b, unit, unit) service \<Rightarrow> bytes list \<Rightarrow> bytes" where
  "served_bytes E B A texts =
     w_out (fst (snd (serve (Suc (Suc (length texts))) E B A (\<lambda>_. ''now'') (map Avail texts) new_writer ())))"

definition answers :: "(bytes list \<Rightarrow> bytes) \<Rightarrow> bytes list \<Rightarrow> stream" where
  "answers out texts =
     map (\<lambda>k. Avail (drop (length (out (take k texts))) (out (take (Suc k) texts)))) [0..<length texts]"

definition connected :: "stream \<Rightarrow> tcp_stream" where
  "connected s = \<lparr>tcp_peer = Ok ''127.0.0.1:4444'', tcp_local = Ok ''127.0.0.1:50000'', tcp_timeout = None,
     tcp_nodelay = False, tcp_fault = None, tcp_in = s, tcp_out = new_writer\<rparr>"

section \<open>The tests\<close>

text \<open>\<^verbatim>\<open>let (conn, res) = send_request(conn, req).unwrap()\<close> and the assertion on the body.\<close>

definition sends ::
  "crates \<Rightarrow> 'b http_body \<Rightarrow> 'tls tls_ops \<Rightarrow> 'tls connection \<Rightarrow> 'b request \<Rightarrow> bytes \<Rightarrow>
     ('tls connection connection_outcome \<Rightarrow> bool) \<Rightarrow> bool" where
  "sends E B T conn req expected continue \<longleftrightarrow>
     (case send_request E B T conn req of
        (Ok (outcome, res), _) \<Rightarrow> fst (into_bytes E (rs_body res)) = Ok expected \<and> continue outcome
      | _ \<Rightarrow> False)"

definition unwrapped :: "'c connection_outcome \<Rightarrow> ('c \<Rightarrow> bool) \<Rightarrow> bool" where
  "unwrapped outcome continue \<longleftrightarrow> (case outcome_unwrap outcome of Ok conn \<Rightarrow> continue conn | _ \<Rightarrow> False)"

text \<open>\<^verbatim>\<open>Request::builder()\<close> without a method and a uri is \<^verbatim>\<open>GET /\<close>.\<close>

definition plain_request :: "'b \<Rightarrow> 'b request" where
  "plain_request b = \<lparr>rq_method = ''GET'', rq_uri = ''/'', rq_version = HTTP_11, rq_headers = [], rq_body = b\<rparr>"

definition test_send_request :: "crates \<Rightarrow> 'tls tls_ops \<Rightarrow> bool" where
  "test_send_request E T \<longleftrightarrow>
     (let hello = plain_request ''Hello world''; bye = plain_request ''Bye world''; none = plain_request ();
          chunked = (plain_request (body_from_iter [Data ''lol'', Data ''wut'']))
            \<lparr>rq_headers := [(''transfer-encoding'', ''chunked'')]\<rparr>;
          texts = [request_bytes E str_impl hello, request_bytes E str_impl bye, request_bytes E unit_impl none,
            request_bytes E (body_impl E) chunked];
          conn = conn_from_tcp (connected (answers (served_bytes E (body_impl E) echo_app) texts))
      in sends E str_impl T conn hello ''Hello world'' (\<lambda>outcome. unwrapped outcome (\<lambda>conn.
         sends E str_impl T conn bye ''Bye world'' (\<lambda>outcome. unwrapped outcome (\<lambda>conn.
         sends E unit_impl T conn none [] (\<lambda>outcome. unwrapped outcome (\<lambda>conn.
         sends E (body_impl E) T conn chunked ''lolwut'' (\<lambda>_. True))))))))"

definition correctly_handles_closing_connections :: "crates \<Rightarrow> 'tls tls_ops \<Rightarrow> bool" where
  "correctly_handles_closing_connections E T \<longleftrightarrow>
     (let app = fn_service (\<lambda>n req.
            (build E '''' 200 [(''connection'', ''close'')] (body_from_reader (cursor ''lolwut'') None), rest_of_body req, n));
          none = plain_request ();
          conn = conn_from_tcp (connected
            (answers (served_bytes E (body_impl E) app) [request_bytes E unit_impl none]))
      in sends E unit_impl T conn none ''lolwut'' outcome_closed)"

definition keep_http_10_connection_alive_when_asked_to :: "crates \<Rightarrow> 'tls tls_ops \<Rightarrow> bool" where
  "keep_http_10_connection_alive_when_asked_to E T \<longleftrightarrow>
     (let app = fn_service (\<lambda>n req. (Inr (ok_response ''lolwut''), rest_of_body req, n));
          old = (plain_request ())\<lparr>rq_version := HTTP_10\<rparr>;
          keep = old\<lparr>rq_headers := [(''connection'', ''keep-alive'')]\<rparr>;
          conn = conn_from_tcp (connected
            (answers (served_bytes E str_impl app) [request_bytes E unit_impl keep, request_bytes E unit_impl old]))
      in sends E unit_impl T conn keep ''lolwut'' (\<lambda>outcome.
           (case outcome of OKeepAlive _ \<Rightarrow> True | _ \<Rightarrow> False) \<and> unwrapped outcome (\<lambda>conn.
         sends E unit_impl T conn old ''lolwut'' (\<lambda>outcome. outcome = OClose))))"

text \<open>
  \<^verbatim>\<open>Client\<close> over the same network; \<open>uri\<close> is what \<^verbatim>\<open>http://127.0.0.1:{port}\<close> prints as, with the path \<^verbatim>\<open>/\<close>.
\<close>

definition test_client :: "crates \<Rightarrow> uri_ops \<Rightarrow> 'tls tls_ops \<Rightarrow> uri \<Rightarrow> bool" where
  "test_client E U T uri \<longleftrightarrow>
     (let post = (\<lambda>b. (plain_request b)\<lparr>rq_method := ''POST'', rq_uri := uri\<rparr>);
          on_wire = (\<lambda>b. (post b)\<lparr>rq_headers := c_insert E ''host'' ''127.0.0.1'' []\<rparr>);
          texts = map (\<lambda>b. request_bytes E str_impl (on_wire b)) [''Hello world'', ''Bye world''];
          dial = (\<lambda>_. Ok (connected (answers (served_bytes E (body_impl E) echo_app) texts)))
      in case client_request E U str_impl T dial (post ''Hello world'') client_new of
           (Ok (Inr res), client) \<Rightarrow>
             fst (into_bytes E (rs_body res)) = Ok ''Hello world'' \<and>
             (case client_request E U str_impl T dial (post ''Bye world'') client of
                (Ok (Inr res), client) \<Rightarrow> fst (into_bytes E (rs_body res)) = Ok ''Bye world''
              | _ \<Rightarrow> False)
         | _ \<Rightarrow> False)"

definition local_uri_ops :: uri_ops where
  "local_uri_ops = \<lparr>u_authority = (\<lambda>u. Some ''127.0.0.1:4444''), u_host = (\<lambda>a. ''127.0.0.1''),
     u_port_u16 = (\<lambda>a. Some 4444)\<rparr>"


end
