(* ===== verification/Chat_Room.thy ===== *)
theory Chat_Room
  imports Touche_Prelude
begin

text \<open>
  What the two chat programs under \<^verbatim>\<open>examples/\<close> share: a map from user ids to the sending halves of
  channels, behind a lock, and for every user a thread that relays what arrives on the channel to the user's connection.
  Sending fails once the thread has ended, and the thread ends when its connection no longer takes anything.
\<close>

section \<open>Users\<close>

type_synonym user_id = "64 word"

text \<open>
  The channel of a user with the thread at its end: \<open>mb_queue\<close> has been sent and not yet taken,
  \<open>mb_listening\<close> holds while the thread has the receiver, \<open>mb_out\<close> is what it has passed on, and
  \<open>mb_open\<close> holds while the connection accepts more.
\<close>

record 'e mailbox =
  mb_queue :: "'e list"
  mb_listening :: bool
  mb_out :: "'e list"
  mb_open :: bool

definition new_mailbox :: "'e list \<Rightarrow> 'e mailbox" where
  "new_mailbox events = \<lparr>mb_queue = events, mb_listening = True, mb_out = [], mb_open = True\<rparr>"

text \<open>\<open>rm_users\<close> are the keys of the map; a mailbox outlives its key.\<close>

record 'e room =
  rm_users :: "user_id set"
  rm_boxes :: "user_id \<Rightarrow> 'e mailbox option"

definition empty_room :: "'e room" where
  "empty_room = \<lparr>rm_users = {}, rm_boxes = (\<lambda>_. None)\<rparr>"

section \<open>Operations\<close>

text \<open>\<^verbatim>\<open>Sender::send\<close>, and whether it succeeded.\<close>

definition tx_send :: "'e \<Rightarrow> 'e mailbox \<Rightarrow> bool \<times> 'e mailbox" where
  "tx_send ev b = (if mb_listening b then (True, b\<lparr>mb_queue := mb_queue b @ [ev]\<rparr>) else (False, b))"

definition room_insert :: "user_id \<Rightarrow> 'e list \<Rightarrow> 'e room \<Rightarrow> 'e room" where
  "room_insert u events r =
     \<lparr>rm_users = insert u (rm_users r), rm_boxes = (rm_boxes r)(u \<mapsto> new_mailbox events)\<rparr>"

text \<open>
  \<^verbatim>\<open>users.retain(|id, tx| if to(id) { tx.send(ev).is_ok() } else { true })\<close>.
\<close>

definition room_retain :: "(user_id \<Rightarrow> bool) \<Rightarrow> 'e \<Rightarrow> 'e room \<Rightarrow> 'e room" where
  "room_retain to ev r =
     \<lparr>rm_users = {u \<in> rm_users r. to u \<longrightarrow> (case rm_boxes r u of Some b \<Rightarrow> fst (tx_send ev b) | None \<Rightarrow> False)},
      rm_boxes = (\<lambda>u. if u \<in> rm_users r \<and> to u then map_option (\<lambda>b. snd (tx_send ev b)) (rm_boxes r u)
        else rm_boxes r u)\<rparr>"

text \<open>One turn of the thread's \<^verbatim>\<open>for event in rx\<close>: on a failed send it breaks and drops the receiver.\<close>

definition relay_box :: "'e mailbox \<Rightarrow> 'e mailbox" where
  "relay_box b =
     (if mb_listening b then
        (case mb_queue b of
           [] \<Rightarrow> b
         | ev # events \<Rightarrow>
             if mb_open b then b\<lparr>mb_queue := events, mb_out := mb_out b @ [ev]\<rparr>
             else b\<lparr>mb_queue := [], mb_listening := False\<rparr>)
      else b)"

definition room_relay :: "user_id \<Rightarrow> 'e room \<Rightarrow> 'e room" where
  "room_relay u r = r\<lparr>rm_boxes := (rm_boxes r)(u := map_option relay_box (rm_boxes r u))\<rparr>"

text \<open>The connection of a user breaks.\<close>

definition room_hang_up :: "user_id \<Rightarrow> 'e room \<Rightarrow> 'e room" where
  "room_hang_up u r = r\<lparr>rm_boxes := (rm_boxes r)(u := map_option (\<lambda>b. b\<lparr>mb_open := False\<rparr>) (rm_boxes r u))\<rparr>"

section \<open>Histories\<close>

text \<open>
  What has happened in a room: the broadcasts with their recipients, when a user came in (as a position
  in that list) and what the user was greeted with.
\<close>

record 'e history =
  hs_sent :: "((user_id \<Rightarrow> bool) \<times> 'e) list"
  hs_since :: "user_id \<Rightarrow> nat"
  hs_greeting :: "user_id \<Rightarrow> 'e list"

definition no_history :: "'e history" where
  "no_history = \<lparr>hs_sent = [], hs_since = (\<lambda>_. 0), hs_greeting = (\<lambda>_. [])\<rparr>"

inductive room_step :: "'e room \<times> 'e history \<Rightarrow> 'e room \<times> 'e history \<Rightarrow> bool" where
  insert: "rm_boxes r u = None \<Longrightarrow>
     room_step (r, h) (room_insert u events r,
       h\<lparr>hs_since := (hs_since h)(u := length (hs_sent h)), hs_greeting := (hs_greeting h)(u := events)\<rparr>)"
| broadcast: "room_step (r, h) (room_retain to ev r, h\<lparr>hs_sent := hs_sent h @ [(to, ev)]\<rparr>)"
| relay: "room_step (r, h) (room_relay u r, h)"
| hang_up: "room_step (r, h) (room_hang_up u r, h)"

definition room_reachable :: "'e room \<Rightarrow> 'e history \<Rightarrow> bool" where
  "room_reachable r h \<longleftrightarrow> room_step\<^sup>*\<^sup>* (empty_room, no_history) (r, h)"

text \<open>What a user should have been told.\<close>

definition due :: "'e history \<Rightarrow> user_id \<Rightarrow> 'e list" where
  "due h u = hs_greeting h u @ map snd (filter (\<lambda>x. fst x u) (drop (hs_since h u) (hs_sent h)))"

text \<open>
  A mailbox is in order when everything due has been passed on or is still queued, in order and once; after
  the thread has ended, what was passed on is a beginning of it.
\<close>

definition box_ok :: "'e room \<Rightarrow> 'e history \<Rightarrow> user_id \<Rightarrow> 'e mailbox \<Rightarrow> bool" where
  "box_ok r h u b \<longleftrightarrow>
     hs_since h u \<le> length (hs_sent h) \<and>
     (\<exists>rest. due h u = mb_out b @ rest \<and> (mb_listening b \<longrightarrow> u \<in> rm_users r \<and> rest = mb_queue b))"

definition room_ok :: "'e room \<Rightarrow> 'e history \<Rightarrow> bool" where
  "room_ok r h \<longleftrightarrow> rm_users r \<subseteq> dom (rm_boxes r) \<and> (\<forall>u b. rm_boxes r u = Some b \<longrightarrow> box_ok r h u b)"

lemma due_broadcast:
  "hs_since h u \<le> length (hs_sent h) \<Longrightarrow>
     due (h\<lparr>hs_sent := hs_sent h @ [(to, ev)]\<rparr>) u = due h u @ (if to u then [ev] else [])"
  by (simp add: due_def)

lemma room_ok_insert:
  assumes "room_ok r h" "rm_boxes r u = None"
  shows "room_ok (room_insert u events r)
    (h\<lparr>hs_since := (hs_since h)(u := length (hs_sent h)), hs_greeting := (hs_greeting h)(u := events)\<rparr>)"
proof -
  let ?h = "h\<lparr>hs_since := (hs_since h)(u := length (hs_sent h)), hs_greeting := (hs_greeting h)(u := events)\<rparr>"
  have "box_ok (room_insert u events r) ?h v b" if "rm_boxes (room_insert u events r) v = Some b" for v b
  proof (cases "v = u")
    case True
    with that show ?thesis by (auto simp: box_ok_def room_insert_def new_mailbox_def due_def)
  next
    case False
    with that assms(1) have "box_ok r h v b" by (simp add: room_ok_def room_insert_def)
    with False show ?thesis by (simp add: box_ok_def room_insert_def due_def)
  qed
  with assms(1) show ?thesis by (auto simp: room_ok_def room_insert_def)
qed

lemma room_ok_broadcast:
  assumes ok: "room_ok r h"
  shows "room_ok (room_retain to ev r) (h\<lparr>hs_sent := hs_sent h @ [(to, ev)]\<rparr>)"
proof -
  let ?h = "h\<lparr>hs_sent := hs_sent h @ [(to, ev)]\<rparr>"
  have "box_ok (room_retain to ev r) ?h u b" if b: "rm_boxes (room_retain to ev r) u = Some b" for u b
  proof -
    obtain c where c: "rm_boxes r u = Some c"
      using b by (auto simp: room_retain_def split: if_splits)
    with ok have "box_ok r h u c" by (simp add: room_ok_def)
    then obtain rest where rest: "hs_since h u \<le> length (hs_sent h)" "due h u = mb_out c @ rest"
      "mb_listening c \<longrightarrow> u \<in> rm_users r \<and> rest = mb_queue c" by (auto simp: box_ok_def)
    have due: "due ?h u = mb_out c @ rest @ (if to u then [ev] else [])"
      using due_broadcast [OF rest(1), of to ev] rest(2) by simp
    show ?thesis
    proof (cases "mb_listening c")
      case True
      with b c rest due show ?thesis
        by (auto simp: box_ok_def room_retain_def tx_send_def)
    next
      case False
      with b c have "b = c" by (auto simp: room_retain_def tx_send_def split: if_splits)
      with False rest due show ?thesis by (auto simp: box_ok_def)
    qed
  qed
  moreover have "rm_users (room_retain to ev r) \<subseteq> dom (rm_boxes (room_retain to ev r))"
    using ok by (auto simp: room_ok_def room_retain_def)
  ultimately show ?thesis by (simp add: room_ok_def)
qed

lemma room_ok_upd:
  assumes "room_ok r h" and "\<And>b. rm_boxes r u = Some b \<Longrightarrow> box_ok r h u b \<Longrightarrow> box_ok r h u (f b)"
  shows "room_ok (r\<lparr>rm_boxes := (rm_boxes r)(u := map_option f (rm_boxes r u))\<rparr>) h"
  using assms by (fastforce simp: room_ok_def box_ok_def split: if_splits)

lemma box_ok_relay: "box_ok r h u b \<Longrightarrow> box_ok r h u (relay_box b)"
  by (auto simp: box_ok_def relay_box_def split: list.split)

lemma room_step_ok: "room_step (r, h) (r', h') \<Longrightarrow> room_ok r h \<Longrightarrow> room_ok r' h'"
proof (induction "(r, h)" "(r', h')" arbitrary: r h r' h' rule: room_step.induct)
  case (relay u)
  then show ?case unfolding room_relay_def by (intro room_ok_upd box_ok_relay)
next
  case (hang_up u)
  then show ?case unfolding room_hang_up_def by (intro room_ok_upd) (simp_all add: box_ok_def)
qed (auto intro: room_ok_insert room_ok_broadcast)

lemma room_ok_empty: "room_ok empty_room no_history"
  by (simp add: room_ok_def empty_room_def)

lemma room_reachable_ok: "room_reachable r h \<Longrightarrow> room_ok r h"
  unfolding room_reachable_def
  by (induction "(r, h)" arbitrary: r h rule: rtranclp_induct) (auto intro: room_ok_empty room_step_ok)

lemma room_reachable_step: "room_reachable r h \<Longrightarrow> room_step (r, h) (r', h') \<Longrightarrow> room_reachable r' h'"
  unfolding room_reachable_def by (rule rtranclp.rtrancl_into_rtrancl)

lemma room_reachable_empty: "room_reachable empty_room no_history"
  by (simp add: room_reachable_def)

text \<open>A broadcast removes the users whose thread has ended, among its recipients.\<close>

lemma room_retain_users:
  assumes "room_ok r h"
  shows "u \<in> rm_users (room_retain to ev r) \<longleftrightarrow>
    u \<in> rm_users r \<and> (to u \<longrightarrow> (\<exists>b. rm_boxes r u = Some b \<and> mb_listening b))"
  using assms by (auto simp: room_retain_def tx_send_def room_ok_def split: option.split)

section \<open>Rooms with a counter of ids\<close>

text \<open>
  The state that the connections of a chat program share: \<^verbatim>\<open>NEXT_USER_ID\<close> and the map.
  \<open>ct_allocated\<close> are the ids that a handler has taken from the counter and not yet put into the map.
\<close>

record 'e chat =
  ct_next :: user_id
  ct_allocated :: "user_id set"
  ct_room :: "'e room"

definition chat_init :: "'e chat" where
  "chat_init = \<lparr>ct_next = 1, ct_allocated = {}, ct_room = empty_room\<rparr>"

text \<open>\<^verbatim>\<open>NEXT_USER_ID.fetch_add(1, Ordering::Relaxed)\<close>, which wraps.\<close>

definition chat_allocate :: "'e chat \<Rightarrow> user_id \<times> 'e chat" where
  "chat_allocate st =
     (ct_next st, st\<lparr>ct_next := ct_next st + 1, ct_allocated := insert (ct_next st) (ct_allocated st)\<rparr>)"

definition chat_insert :: "user_id \<Rightarrow> 'e list \<Rightarrow> 'e chat \<Rightarrow> 'e chat" where
  "chat_insert u events st = st\<lparr>ct_allocated := ct_allocated st - {u}, ct_room := room_insert u events (ct_room st)\<rparr>"

definition chat_broadcast :: "(user_id \<Rightarrow> bool) \<Rightarrow> 'e \<Rightarrow> 'e chat \<Rightarrow> 'e chat" where
  "chat_broadcast to ev st = st\<lparr>ct_room := room_retain to ev (ct_room st)\<rparr>"

definition chat_relay :: "user_id \<Rightarrow> 'e chat \<Rightarrow> 'e chat" where
  "chat_relay u st = st\<lparr>ct_room := room_relay u (ct_room st)\<rparr>"

definition chat_hang_up :: "user_id \<Rightarrow> 'e chat \<Rightarrow> 'e chat" where
  "chat_hang_up u st = st\<lparr>ct_room := room_hang_up u (ct_room st)\<rparr>"

definition came_in :: "user_id \<Rightarrow> 'e list \<Rightarrow> 'e history \<Rightarrow> 'e history" where
  "came_in u events h =
     h\<lparr>hs_since := (hs_since h)(u := length (hs_sent h)), hs_greeting := (hs_greeting h)(u := events)\<rparr>"

definition was_sent :: "(user_id \<Rightarrow> bool) \<Rightarrow> 'e \<Rightarrow> 'e history \<Rightarrow> 'e history" where
  "was_sent to ev h = h\<lparr>hs_sent := hs_sent h @ [(to, ev)]\<rparr>"

text \<open>The atomic steps of handlers and threads in any order; \<open>k\<close> counts the ids taken so far.\<close>

inductive chat_reachable :: "'e chat \<Rightarrow> 'e history \<Rightarrow> nat \<Rightarrow> bool" where
  init: "chat_reachable chat_init no_history 0"
| allocate: "chat_reachable st h k \<Longrightarrow> chat_reachable (snd (chat_allocate st)) h (Suc k)"
| insert: "chat_reachable st h k \<Longrightarrow> u \<in> ct_allocated st \<Longrightarrow>
     chat_reachable (chat_insert u events st) (came_in u events h) k"
| broadcast: "chat_reachable st h k \<Longrightarrow> chat_reachable (chat_broadcast to ev st) (was_sent to ev h) k"
| relay: "chat_reachable st h k \<Longrightarrow> chat_reachable (chat_relay u st) h k"
| hang_up: "chat_reachable st h k \<Longrightarrow> chat_reachable (chat_hang_up u st) h k"

definition ids_ok :: "'e chat \<Rightarrow> nat \<Rightarrow> bool" where
  "ids_ok st k \<longleftrightarrow> ct_next st = of_nat (Suc k) \<and>
     ct_allocated st \<union> dom (rm_boxes (ct_room st)) \<subseteq> of_nat ` {1..k} \<and>
     ct_allocated st \<inter> dom (rm_boxes (ct_room st)) = {}"

lemma fresh_id: "Suc k < 2 ^ 64 \<Longrightarrow> (of_nat (Suc k) :: user_id) \<notin> of_nat ` {1..k}"
proof
  assume k: "Suc k < 2 ^ 64" and "(of_nat (Suc k) :: user_id) \<in> of_nat ` {1..k}"
  then obtain i where i: "i \<le> k" "(of_nat (Suc k) :: user_id) = of_nat i" by auto
  then have "unat (of_nat (Suc k) :: user_id) = unat (of_nat i :: user_id)" by simp
  with i(1) k show False by (simp add: unat_of_nat del: of_nat_Suc)
qed

lemma room_doms [simp]:
  "dom (rm_boxes (room_insert u events r)) = insert u (dom (rm_boxes r))"
  "dom (rm_boxes (room_retain to ev r)) = dom (rm_boxes r)"
  "dom (rm_boxes (room_relay u r)) = dom (rm_boxes r)"
  "dom (rm_boxes (room_hang_up u r)) = dom (rm_boxes r)"
  by (auto simp: room_insert_def room_retain_def room_relay_def room_hang_up_def split: if_splits)

lemma ids_ok_allocate:
  assumes "ids_ok st k" "Suc k < 2 ^ 64"
  shows "ids_ok (snd (chat_allocate st)) (Suc k)"
proof -
  have "(of_nat (Suc k) :: user_id) \<notin> ct_allocated st \<union> dom (rm_boxes (ct_room st))"
    using assms(1) fresh_id [OF assms(2)] by (auto simp: ids_ok_def)
  moreover have "(of_nat ` {1..k} :: user_id set) \<subseteq> of_nat ` {1..Suc k}" by auto
  moreover have "(of_nat (Suc k) :: user_id) \<in> of_nat ` {1..Suc k}" by (intro imageI) simp
  ultimately show ?thesis using assms(1) by (auto simp: ids_ok_def chat_allocate_def)
qed

text \<open>The steps of the chat are steps of the room, as long as the counter has not wrapped.\<close>

lemma chat_reachable_ok:
  "chat_reachable st h k \<Longrightarrow> k < 2 ^ 64 \<Longrightarrow> ids_ok st k \<and> room_reachable (ct_room st) h"
proof (induction rule: chat_reachable.induct)
  case init
  show ?case by (simp add: ids_ok_def chat_init_def room_reachable_empty) (simp add: empty_room_def)
next
  case (allocate st h k)
  then show ?case using ids_ok_allocate [of st k] by (simp add: chat_allocate_def)
next
  case (insert st h k u events)
  then have ok: "ids_ok st k" "room_reachable (ct_room st) h" by simp_all
  then have none: "rm_boxes (ct_room st) u = None" using insert.hyps(2) by (auto simp: ids_ok_def)
  have "ids_ok (chat_insert u events st) k"
    using ok(1) insert.hyps(2) by (auto simp: ids_ok_def chat_insert_def)
  with room_reachable_step [OF ok(2) room_step.insert [OF none]] show ?case
    by (simp add: chat_insert_def came_in_def)
next
  case (broadcast st h k to ev)
  then have ok: "ids_ok st k" "room_reachable (ct_room st) h" by simp_all
  from ok(1) room_reachable_step [OF ok(2) room_step.broadcast] show ?case
    by (simp add: ids_ok_def chat_broadcast_def was_sent_def)
next
  case (relay st h k u)
  then have ok: "ids_ok st k" "room_reachable (ct_room st) h" by simp_all
  from ok(1) room_reachable_step [OF ok(2) room_step.relay] show ?case by (simp add: ids_ok_def chat_relay_def)
next
  case (hang_up st h k u)
  then have ok: "ids_ok st k" "room_reachable (ct_room st) h" by simp_all
  from ok(1) room_reachable_step [OF ok(2) room_step.hang_up] show ?case by (simp add: ids_ok_def chat_hang_up_def)
qed

text \<open>What the invariant says of one mailbox.\<close>

lemma chat_mailbox:
  assumes "chat_reachable st h k" "k < 2 ^ 64" "rm_boxes (ct_room st) u = Some b"
  obtains rest where "due h u = mb_out b @ rest"
    "mb_listening b \<Longrightarrow> rest = mb_queue b" "mb_listening b \<Longrightarrow> u \<in> rm_users (ct_room st)"
proof -
  from chat_reachable_ok [OF assms(1,2)] have "room_ok (ct_room st) h" by (auto intro: room_reachable_ok)
  with assms(3) have "box_ok (ct_room st) h u b" by (simp add: room_ok_def)
  with that show thesis by (auto simp: box_ok_def)
qed

end
