(* ===== verification/Sse_Chat.thy ===== *)
theory Sse_Chat
  imports Chat_Room Example_Apps
begin

text \<open>
  \<^verbatim>\<open>examples/sse-chat.rs\<close>: a chat over server-sent events.  Unlike the other example programs its
  connections share state, the map of users and the counter of ids, so what matters is how the atomic
  steps of the handlers and of the relaying threads interleave.
\<close>

section \<open>Events\<close>

datatype sse_event = UserEvent user_id | MessageEvent user_id string

text \<open>The two \<^verbatim>\<open>formatdoc!\<close> texts; nothing in a message is escaped.\<close>

fun sse_message :: "sse_event \<Rightarrow> bytes" where
  "sse_message (UserEvent u) =
     ''event: user'' @ [LF] @ ''data: {\"id\": \"'' @ dec (unat u) @ ''\"}'' @ [LF, LF]"
| "sse_message (MessageEvent u t) =
     ''event: message'' @ [LF] @ ''data: {\"userId\": '' @ dec (unat u) @ '', \"message\": \"'' @ t @ ''\"}'' @ [LF, LF]"

section \<open>Joining and posting\<close>

type_synonym sse_state = "sse_event chat"

text \<open>The channel of a new user already holds the event with its id.\<close>

definition sse_insert :: "user_id \<Rightarrow> sse_state \<Rightarrow> sse_state" where
  "sse_insert u = chat_insert u [UserEvent u]"

definition sse_post :: "user_id \<Rightarrow> string \<Rightarrow> sse_state \<Rightarrow> sse_state" where
  "sse_post u t = chat_broadcast (\<lambda>v. u \<noteq> v) (MessageEvent u t)"

section \<open>The relaying thread\<close>

text \<open>The body channel of a user's response, whose receiving half is the body being written.\<close>

definition sse_channel :: "sse_event mailbox \<Rightarrow> body_channel" where
  "sse_channel b = \<lparr>ch_sent = map (\<lambda>ev. Inr (Data (sse_message ev))) (mb_out b), ch_open = mb_open b\<rparr>"

definition sse_turn :: "sse_event mailbox \<Rightarrow> sse_event mailbox" where
  "sse_turn b =
     (if mb_listening b then
        (case mb_queue b of
           [] \<Rightarrow> b
         | ev # events \<Rightarrow>
             (case channel_send (sse_message ev) (sse_channel b) of
                (Ok _, ch) \<Rightarrow> b\<lparr>mb_queue := events, mb_out := mb_out b @ [ev], mb_open := ch_open ch\<rparr>
              | _ \<Rightarrow> b\<lparr>mb_queue := [], mb_listening := False\<rparr>))
      else b)"

lemma sse_turn_relay: "sse_turn b = relay_box b"
  by (simp add: sse_turn_def relay_box_def channel_send_def mpsc_send_def sse_channel_def split: list.split)

lemma sse_channel_turn:
  "mb_listening b \<Longrightarrow> mb_queue b = ev # events \<Longrightarrow> mb_open b \<Longrightarrow>
     sse_channel (sse_turn b) = snd (channel_send (sse_message ev) (sse_channel b))"
  by (simp add: sse_turn_def channel_send_def mpsc_send_def sse_channel_def)

text \<open>A turn of the thread of user \<open>u\<close> is a step of the chat.\<close>

definition sse_relay :: "user_id \<Rightarrow> sse_state \<Rightarrow> sse_state" where
  "sse_relay u st = st\<lparr>ct_room := (ct_room st)\<lparr>rm_boxes := (rm_boxes (ct_room st))
     (u := map_option sse_turn (rm_boxes (ct_room st) u))\<rparr>\<rparr>"

lemma sse_relay_eq: "sse_relay = chat_relay"
  by (intro ext) (simp add: sse_relay_def chat_relay_def room_relay_def sse_turn_relay [abs_def])

section \<open>The handler\<close>

text \<open>
  The body of a response is one that is known at once, or the channel of a user.  \<open>path\<close> is \<^verbatim>\<open>Uri::path\<close>,
  \<open>html\<close> the included page; \<^verbatim>\<open>HeaderValue::to_str\<close> fails only on values that are no number anyway.
\<close>

datatype sse_body = Known body | Stream user_id

definition sse_user_id :: "header_map \<Rightarrow> user_id option" where
  "sse_user_id h = map_option of_nat (Option.bind (map_of h ''x-user-id'') parse_usize)"

definition payload_text :: "bytes res \<Rightarrow> string" where
  "payload_text r = (case r of Ok bs \<Rightarrow> (case from_utf8 bs of Inr _ \<Rightarrow> bs | Inl _ \<Rightarrow> []) | _ \<Rightarrow> [])"

definition sse_call ::
  "crates \<Rightarrow> string \<Rightarrow> (uri \<Rightarrow> string) \<Rightarrow> string \<Rightarrow> sse_state \<Rightarrow> body request \<Rightarrow>
     (string + (sse_body, 'h) response) \<times> body_fate \<times> sse_state" where
  "sse_call E refused path html st req =
     (if path (rq_uri req) = ''/messages'' \<and> rq_method req = ''POST'' then
        (case sse_user_id (rq_headers req) of
           Some u \<Rightarrow>
             (case into_bytes E (rq_body req) of
                (r, src) \<Rightarrow>
                  (build E refused 201 [] (Known body_empty),
                   (case src of Some s \<Rightarrow> Dropped s | None \<Rightarrow> Kept),
                   sse_post u (payload_text r) st))
         | None \<Rightarrow> (build E refused 401 [] (Known (body_from_str ''Missing x-user-id header'')), rest_of_body req, st))
      else if path (rq_uri req) = ''/messages'' then
        (case chat_allocate st of
           (u, st') \<Rightarrow>
             (build E refused 200 [(''content-type'', ''text/event-stream''), (''connection'', ''close'')] (Stream u),
              rest_of_body req, sse_insert u st'))
      else if path (rq_uri req) = ''/'' then
        (build E refused 200 [(''content-type'', ''text/html'')] (Known (body_from_str html)), rest_of_body req, st)
      else (build E refused 404 [] (Known body_empty), rest_of_body req, st))"

section \<open>Interleavings\<close>

text \<open>
  The atomic steps, with the history of the room and the list of what was posted; \<open>k\<close> counts the ids
  taken so far.
\<close>

inductive sse_reachable :: "sse_state \<Rightarrow> sse_event history \<Rightarrow> (user_id \<times> string) list \<Rightarrow> nat \<Rightarrow> bool" where
  init: "sse_reachable chat_init no_history [] 0"
| allocate: "sse_reachable st h posts k \<Longrightarrow> sse_reachable (snd (chat_allocate st)) h posts (Suc k)"
| insert: "sse_reachable st h posts k \<Longrightarrow> u \<in> ct_allocated st \<Longrightarrow>
     sse_reachable (sse_insert u st) (came_in u [UserEvent u] h) posts k"
| post: "sse_reachable st h posts k \<Longrightarrow>
     sse_reachable (sse_post u t st) (was_sent (\<lambda>v. u \<noteq> v) (MessageEvent u t) h) (posts @ [(u, t)]) k"
| relay: "sse_reachable st h posts k \<Longrightarrow> sse_reachable (sse_relay u st) h posts k"
| hang_up: "sse_reachable st h posts k \<Longrightarrow> sse_reachable (chat_hang_up u st) h posts k"

text \<open>Every call of the handler is a sequence of these steps.\<close>

lemma sse_call_reachable:
  assumes "sse_reachable st h posts k" "sse_call E refused path html st req = (res, fate, st')"
  shows "\<exists>h' posts' k'. sse_reachable st' h' posts' k' \<and> k \<le> k' \<and> k' \<le> Suc k \<and>
    (\<exists>new. posts' = posts @ new)"
proof -
  have join: "\<exists>h'. sse_reachable (sse_insert (ct_next st) (snd (chat_allocate st))) h' posts (Suc k)"
    using sse_reachable.insert [OF sse_reachable.allocate [OF assms(1)], of "ct_next st"]
    by (auto simp: chat_allocate_def)
  have post: "\<exists>h'. sse_reachable (sse_post u t st) h' (posts @ [(u, t)]) k" for u t
    using sse_reachable.post [OF assms(1)] by blast
  show ?thesis
    using assms join post
    by (fastforce simp: sse_call_def chat_allocate_def split: if_splits option.splits prod.splits)
qed

lemma sse_reachable_chat: "sse_reachable st h posts k \<Longrightarrow> chat_reachable st h k"
  by (induction rule: sse_reachable.induct)
    (auto simp: sse_insert_def sse_post_def sse_relay_eq intro: chat_reachable.intros)

lemma sse_reachable_history:
  "sse_reachable st h posts k \<Longrightarrow>
     hs_sent h = map (\<lambda>(u, t). (\<lambda>v. u \<noteq> v, MessageEvent u t)) posts \<and>
     (\<forall>u \<in> dom (rm_boxes (ct_room st)). hs_greeting h u = [UserEvent u])"
proof (induction rule: sse_reachable.induct)
  case init
  show ?case by (simp add: no_history_def chat_init_def empty_room_def)
next
  case (relay st h posts k u)
  then show ?case unfolding sse_relay_eq by (simp add: chat_relay_def)
qed (simp_all add: chat_allocate_def sse_insert_def chat_insert_def came_in_def sse_post_def chat_broadcast_def
    was_sent_def chat_hang_up_def)

section \<open>Properties\<close>

text \<open>The messages that a user should see: what the others posted since the user came in.\<close>

definition posted_for :: "user_id \<Rightarrow> (user_id \<times> string) list \<Rightarrow> sse_event list" where
  "posted_for u posts = map (\<lambda>(v, t). MessageEvent v t) (filter (\<lambda>(v, t). v \<noteq> u) posts)"

lemma due_posts:
  assumes "hs_greeting h u = [UserEvent u]" "hs_sent h = map (\<lambda>(u, t). (\<lambda>v. u \<noteq> v, MessageEvent u t)) posts"
  shows "due h u = UserEvent u # posted_for u (drop (hs_since h u) posts)"
proof -
  have "map snd (filter (\<lambda>x. fst x u) (map (\<lambda>(u, t). (\<lambda>v. u \<noteq> v, MessageEvent u t)) ps)) = posted_for u ps" for ps
    by (induction ps) (auto simp: posted_for_def)
  then show ?thesis using assms by (simp add: due_def drop_map)
qed

text \<open>
  C18: However the handlers and threads of the chat program interleave, a user's event stream starts with the
  user's id and continues with exactly the messages that other users have posted since, in the
  order of posting, none lost, none doubled: what the stream has been given so far is a beginning of that,
  and while its thread lives the rest is in the thread's queue.  (Fewer than \<open>2 ^ 64\<close> users.)
\<close>

theorem chat_delivers_messages:
  assumes "sse_reachable st h posts k" "k < 2 ^ 64" "rm_boxes (ct_room st) u = Some b"
  shows "\<exists>seen rest. ch_sent (sse_channel b) = map (\<lambda>ev. Inr (Data (sse_message ev))) seen \<and>
    UserEvent u # posted_for u (drop (hs_since h u) posts) = seen @ rest \<and>
    (mb_listening b \<longrightarrow> rest = mb_queue b \<and> u \<in> rm_users (ct_room st))"
proof -
  from chat_mailbox [OF sse_reachable_chat [OF assms(1)] assms(2,3)] obtain rest where
    "due h u = mb_out b @ rest" "mb_listening b \<longrightarrow> rest = mb_queue b \<and> u \<in> rm_users (ct_room st)" by blast
  moreover have "due h u = UserEvent u # posted_for u (drop (hs_since h u) posts)"
    using due_posts [of h u posts] sse_reachable_history [OF assms(1)] assms(3) by auto
  ultimately show ?thesis by (auto simp: sse_channel_def)
qed

text \<open>Two users; the first has read its id, the second has posted once.\<close>

definition two_users :: sse_state where
  "two_users = sse_relay 1 (sse_post 2 ''hi''
     (sse_insert 2 (snd (chat_allocate (sse_insert 1 (snd (chat_allocate chat_init)))))))"

theorem chat_delivers_messages_witness:
  "\<exists>b. rm_boxes (ct_room two_users) 1 = Some b \<and> mb_listening b \<and> mb_queue b = [MessageEvent 2 ''hi''] \<and>
     ch_sent (sse_channel b) = [Inr (Data (sse_message (UserEvent 1)))]"
proof -
  have one: "ct_next chat_init = 1" "ct_next (sse_insert 1 (snd (chat_allocate chat_init))) = 2"
    by (simp_all add: chat_init_def sse_insert_def chat_insert_def chat_allocate_def)
  have "1 \<in> ct_allocated (snd (chat_allocate chat_init))" by (simp add: chat_allocate_def one)
  note first = sse_reachable.insert [OF sse_reachable.allocate [OF sse_reachable.init] this]
  have "2 \<in> ct_allocated (snd (chat_allocate (sse_insert 1 (snd (chat_allocate chat_init)))))"
    using one(2) by (simp add: chat_allocate_def [of "sse_insert 1 _"])
  note second = sse_reachable.relay [OF sse_reachable.post [OF sse_reachable.insert
        [OF sse_reachable.allocate [OF first] this], where u = 2 and t = "''hi''"], where u = 1]
  let ?b = "\<lparr>mb_queue = [MessageEvent 2 ''hi''], mb_listening = True, mb_out = [UserEvent 1], mb_open = True\<rparr>"
  have b: "rm_boxes (ct_room two_users) 1 = Some ?b"
    by (simp add: two_users_def sse_relay_def sse_post_def chat_broadcast_def sse_insert_def chat_insert_def chat_init_def chat_allocate_def room_insert_def
        empty_room_def room_retain_def tx_send_def new_mailbox_def sse_turn_relay relay_box_def)
  from chat_delivers_messages [OF second _ b [unfolded two_users_def]]
  have "\<exists>seen rest. ch_sent (sse_channel ?b) = map (\<lambda>ev. Inr (Data (sse_message ev))) seen" by auto
  with b show ?thesis by (auto simp: sse_channel_def)
qed

text \<open>
  Messages are not escaped: for any text \<open>x\<close> of its own and any message \<open>y\<close> of another user \<open>v\<close>, a user can post
  one text that every other client receives as the two events.
\<close>

lemma chat_messages_forgeable:
  "sse_message (MessageEvent u
      (x @ ''\"}'' @ [LF, LF] @ ''event: message'' @ [LF] @ ''data: {\"userId\": '' @ dec (unat v) @ '', \"message\": \"'' @ y)) =
    sse_message (MessageEvent u x) @ sse_message (MessageEvent v y)"
  by simp

end
