(* ===== verification/Websocket_Chat.thy ===== *)
theory Websocket_Chat
  imports Chat_Room Example_Apps
begin

text \<open>
  \<^verbatim>\<open>examples/websocket-chat.rs\<close>: the chat over web sockets.  The handshake, the framing and the JSON of an event
  belong to \<^verbatim>\<open>tungstenite\<close> and \<^verbatim>\<open>serde_json\<close> and are parameters; the shared map and the threads are
  those of \<open>Chat_Room\<close>.
\<close>

section \<open>Events and steps\<close>

datatype ws_event = WsUser user_id | WsMessage user_id string

type_synonym ws_state = "ws_event chat"

text \<open>
  The upgrade handler starts with the lock held: the user comes in, and everybody, the new user
  included, is told; whoever cannot be told is removed.
\<close>

definition ws_join :: "user_id \<Rightarrow> ws_state \<Rightarrow> ws_state" where
  "ws_join u st = chat_broadcast (\<lambda>_. True) (WsUser u) (chat_insert u [] st)"

text \<open>The reading thread has received a text; the sender is told, too.\<close>

definition ws_say :: "user_id \<Rightarrow> string \<Rightarrow> ws_state \<Rightarrow> ws_state" where
  "ws_say u t = chat_broadcast (\<lambda>_. True) (WsMessage u t)"

text \<open>
  What the reading thread makes of the messages of its connection: \<^verbatim>\<open>to_text\<close> fails on one that is not
  Unicode, and then the thread ends.
\<close>

fun ws_read_thread :: "user_id \<Rightarrow> (unit + string) list \<Rightarrow> ws_state \<Rightarrow> ws_state" where
  "ws_read_thread u [] st = st"
| "ws_read_thread u (Inr t # ms) st = ws_read_thread u ms (ws_say u t st)"
| "ws_read_thread u (Inl _ # ms) st = st"

text \<open>The writing thread: its messages so far, given the JSON of an event.\<close>

definition ws_frames :: "(ws_event \<Rightarrow> string) \<Rightarrow> ws_event mailbox \<Rightarrow> string list" where
  "ws_frames json b = map json (mb_out b)"

section \<open>The handler of requests\<close>

datatype ws_handler = WsChat

definition ws_page :: "crates \<Rightarrow> string \<Rightarrow> string \<Rightarrow> string + (body, ws_handler) response" where
  "ws_page E refused html = build E refused 200 [(''content-type'', ''text/html'')] (body_from_str html)"

definition ws_call ::
  "crates \<Rightarrow> string \<Rightarrow> (header_map \<Rightarrow> bool) \<Rightarrow> (unit request \<Rightarrow> string + (unit, ws_handler) response) \<Rightarrow> string \<Rightarrow>
     body request \<Rightarrow> (string + (body, ws_handler) response) \<times> body_fate" where
  "ws_call E refused has_upgrade create_response html req =
     (if has_upgrade (rq_headers req) then
        (case create_response \<lparr>rq_method = rq_method req, rq_uri = rq_uri req, rq_version = rq_version req,
             rq_headers = rq_headers req, rq_body = ()\<rparr> of
           Inl err \<Rightarrow> (Inl err, rest_of_body req)
         | Inr res \<Rightarrow>
             (Inr (upgrade_response WsChat \<lparr>rs_status = rs_status res, rs_version = rs_version res,
                rs_headers = rs_headers res, rs_upgrade = rs_upgrade res, rs_body = body_empty\<rparr>), rest_of_body req))
      else (ws_page E refused html, rest_of_body req))"

text \<open>A request without the header gets the page, any other the handler or the error of the handshake.\<close>

lemma ws_call_cases:
  assumes "ws_call E refused has_upgrade create html req = (r, fate)"
  shows "fate = rest_of_body req" "has_upgrade (rq_headers req) \<Longrightarrow> r = Inr res \<Longrightarrow> rs_upgrade res = Some WsChat"
    "\<not> has_upgrade (rq_headers req) \<Longrightarrow> r = Inr res \<Longrightarrow> rs_upgrade res = None"
  using assms
  by (auto simp: ws_call_def ws_page_def upgrade_response_def build_def split: if_splits sum.splits option.splits)

section \<open>Interleavings\<close>

inductive ws_reachable :: "ws_state \<Rightarrow> ws_event history \<Rightarrow> ws_event list \<Rightarrow> nat \<Rightarrow> bool" where
  init: "ws_reachable chat_init no_history [] 0"
| allocate: "ws_reachable st h evs k \<Longrightarrow> ws_reachable (snd (chat_allocate st)) h evs (Suc k)"
| join: "ws_reachable st h evs k \<Longrightarrow> u \<in> ct_allocated st \<Longrightarrow>
     ws_reachable (ws_join u st) (was_sent (\<lambda>_. True) (WsUser u) (came_in u [] h)) (evs @ [WsUser u]) k"
| say: "ws_reachable st h evs k \<Longrightarrow> u \<in> dom (rm_boxes (ct_room st)) \<Longrightarrow>
     ws_reachable (ws_say u t st) (was_sent (\<lambda>_. True) (WsMessage u t) h) (evs @ [WsMessage u t]) k"
| relay: "ws_reachable st h evs k \<Longrightarrow> ws_reachable (chat_relay u st) h evs k"
| hang_up: "ws_reachable st h evs k \<Longrightarrow> ws_reachable (chat_hang_up u st) h evs k"

lemma ws_read_thread_reachable:
  "ws_reachable st h evs k \<Longrightarrow> u \<in> dom (rm_boxes (ct_room st)) \<Longrightarrow>
     \<exists>h' evs'. ws_reachable (ws_read_thread u ms st) h' evs' k"
proof (induction u ms st arbitrary: h evs rule: ws_read_thread.induct)
  case (2 u t ms st)
  have "u \<in> dom (rm_boxes (ct_room (ws_say u t st)))"
    using "2.prems"(2) by (simp add: ws_say_def chat_broadcast_def)
  from "2.IH" [OF ws_reachable.say [OF "2.prems"] this] show ?case by simp
qed auto

lemma ws_reachable_chat: "ws_reachable st h evs k \<Longrightarrow> chat_reachable st h k"
  by (induction rule: ws_reachable.induct)
    (auto simp: ws_join_def ws_say_def intro: chat_reachable.intros)

lemma drop_Cons_append: "drop n xs = y # ys \<Longrightarrow> drop n (xs @ zs) = y # ys @ zs"
  by (cases "n \<le> length xs") simp_all

lemma ws_reachable_history:
  "ws_reachable st h evs k \<Longrightarrow>
     hs_sent h = map (\<lambda>ev. (\<lambda>_. True, ev)) evs \<and>
     (\<forall>u \<in> dom (rm_boxes (ct_room st)). hs_greeting h u = [] \<and>
        (\<exists>later. drop (hs_since h u) evs = WsUser u # later))"
proof (induction rule: ws_reachable.induct)
  case init
  show ?case by (simp add: no_history_def chat_init_def empty_room_def)
next
  case (join st h evs k u)
  then have old: "hs_sent h = map (\<lambda>ev. (\<lambda>_. True, ev)) evs"
    "\<And>v. v \<in> dom (rm_boxes (ct_room st)) \<Longrightarrow> hs_greeting h v = [] \<and> (\<exists>later. drop (hs_since h v) evs = WsUser v # later)"
    by simp_all
  have "hs_greeting (came_in u [] h) v = [] \<and> (\<exists>later. drop (hs_since (came_in u [] h) v) (evs @ [WsUser u]) = WsUser v # later)"
    if "v \<in> insert u (dom (rm_boxes (ct_room st)))" for v
    using that old drop_Cons_append by (cases "v = u") (fastforce simp: came_in_def)+
  with old(1) show ?case
    by (simp add: ws_join_def chat_broadcast_def chat_insert_def was_sent_def came_in_def)
next
  case (say st h evs k u t)
  then have "\<forall>v \<in> dom (rm_boxes (ct_room st)). \<exists>later. drop (hs_since h v) (evs @ [WsMessage u t]) = WsUser v # later"
    using drop_Cons_append by fast
  with say.IH show ?case by (simp add: ws_say_def chat_broadcast_def was_sent_def)
qed (simp_all add: chat_allocate_def chat_relay_def chat_hang_up_def)

section \<open>What a user is told\<close>

lemma due_all:
  "hs_greeting h u = [] \<Longrightarrow> hs_sent h = map (\<lambda>ev. (\<lambda>_. True, ev)) evs \<Longrightarrow> due h u = drop (hs_since h u) evs"
  by (simp add: due_def drop_map filter_map o_def)

text \<open>
  The frames on a user's web socket are, from the user's own entrance on, the events of the chat in their order, as far
  as its thread has come; while the thread lives, the others are in its queue.
\<close>

lemma ws_user_told:
  assumes "ws_reachable st h evs k" "k < 2 ^ 64" "rm_boxes (ct_room st) u = Some b"
  shows "\<exists>later told rest. drop (hs_since h u) evs = WsUser u # later \<and> WsUser u # later = told @ rest \<and>
    ws_frames json b = map json told \<and> (mb_listening b \<longrightarrow> rest = mb_queue b \<and> u \<in> rm_users (ct_room st))"
proof -
  from chat_mailbox [OF ws_reachable_chat [OF assms(1)] assms(2,3)] obtain rest where
    rest: "due h u = mb_out b @ rest" "mb_listening b \<longrightarrow> rest = mb_queue b \<and> u \<in> rm_users (ct_room st)" by blast
  from ws_reachable_history [OF assms(1)] assms(3) obtain later where
    "hs_sent h = map (\<lambda>ev. (\<lambda>_. True, ev)) evs" "hs_greeting h u = []" "drop (hs_since h u) evs = WsUser u # later"
    by blast
  with rest show ?thesis
    by (intro exI [of _ later] exI [of _ "mb_out b"] exI [of _ rest]) (simp add: due_all ws_frames_def)
qed

end
