(* ===== verification/Example_Crates.thy ===== *)
theory Example_Crates
  imports Example_Properties Handover
begin

text \<open>
  The example programs that use other crates or other listeners: \<^verbatim>\<open>sse.rs\<close>, \<^verbatim>\<open>compress.rs\<close>,
  \<^verbatim>\<open>unix-socket.rs\<close>, \<^verbatim>\<open>tls.rs\<close>, \<^verbatim>\<open>websocket.rs\<close> and \<^verbatim>\<open>websocket-tokio.rs\<close>.  What belongs to the other
  crates (the gzip encoder, the set-up of TLS, the web socket) is a parameter.
\<close>

section \<open>Server-sent events\<close>

fun contains_str :: "string \<Rightarrow> string \<Rightarrow> bool" where
  "contains_str pat [] \<longleftrightarrow> pat = []"
| "contains_str pat (c # cs) \<longleftrightarrow> prefix pat (c # cs) \<or> contains_str pat cs"

lemma contains_str_sublist: "contains_str pat s \<longleftrightarrow> sublist pat s"
  by (induction s) (auto simp: sublist_Cons_right)

text \<open>\<^verbatim>\<open>HeaderValue::to_str\<close>: visible ASCII, spaces and tabs.\<close>

definition header_to_str :: "bytes \<Rightarrow> string option" where
  "header_to_str v =
     (if list_all (\<lambda>c. let n = of_char c :: nat in n = 9 \<or> 32 \<le> n \<and> n < 127) v then Some v else None)"

definition sse_text :: "string \<Rightarrow> string \<Rightarrow> bytes" where
  "sse_text name data = ''event: '' @ name @ [LF] @ ''data: '' @ data @ [LF, LF]"

definition sse_texts :: "bytes list" where
  "sse_texts =
     [sse_text ''userconnect'' ''{\"name\": \"sasha\"}''] @
     replicate 9 (sse_text ''usermessage'' ''{\"name\": \"sasha\", \"message\": \"message\"}'') @
     [sse_text ''userdisconnect'' ''{\"name\": \"sasha\"}'']"

text \<open>The thread: the first send that fails ends it.\<close>

fun send_each :: "bytes list \<Rightarrow> (body_channel, unit) act" where
  "send_each [] = act_return ()"
| "send_each (d # ds) = act_then (channel_send d) (send_each ds)"

definition sse_app :: "crates \<Rightarrow> string \<Rightarrow> string \<Rightarrow> (body, 'h, unit) service" where
  "sse_app E refused html = fn_service (\<lambda>n req.
     (case Option.bind (map_of (rq_headers req) ''accept'') header_to_str of
        Some accept \<Rightarrow>
          if contains_str ''text/event-stream'' accept then
            build E refused 200 [(''content-type'', ''text/event-stream'')]
              (channel_body (snd (send_each sse_texts new_channel)))
          else build E refused 200 [(''content-type'', ''text/html'')] (body_from_str html)
      | None \<Rightarrow> build E refused 200 [(''content-type'', ''text/html'')] (body_from_str html),
      rest_of_body req, n))"

definition sse_main :: "string \<Rightarrow> string \<Rightarrow> ('p, 'tls) host \<Rightarrow> (('tls, 'h) served \<times> listen_end) res" where
  "sse_main refused html H =
     host_serve H (body_impl (h_crates H)) (sse_app (h_crates H) refused html) ()
       (server_bind (h_pool_new H) (h_tcp_bind H) ''0.0.0.0:4444'')"

lemma send_each_open:
  "ch_open ch \<Longrightarrow> send_each ds ch = (Ok (), ch\<lparr>ch_sent := ch_sent ch @ map (\<lambda>d. Inr (Data d)) ds\<rparr>)"
  by (induction ds arbitrary: ch) (simp_all add: act_then_def act_bind_def act_return_def channel_send_def mpsc_send_def)

lemma send_each_closed: "\<not> ch_open ch \<Longrightarrow> ds \<noteq> [] \<Longrightarrow> send_each ds ch = (Err (Other ''body closed''), ch)"
  by (cases ds) (simp_all add: act_then_def act_bind_def channel_send_def mpsc_send_def)

text \<open>The body of an event stream: well formed, of unknown length, and the concatenation of the texts.\<close>

lemma sse_body:
  defines "b \<equiv> channel_body (snd (send_each sse_texts new_channel))"
  shows "body_good E b" "body_exact b" "body_len b = None" "body_content E b = concat sse_texts"
proof -
  have "b = body_from_iter (map Data sse_texts)"
    by (simp add: b_def send_each_open new_channel_def channel_body_def body_from_iter_def o_def)
  then show "body_good E b" "body_exact b" "body_len b = None" "body_content E b = concat sse_texts"
    by (auto simp: body_from_iter_def iter_ok_def iter_content_def list_all_iff o_def)
qed

lemma sse_app_dropping: "honest body_owner (sse_app E refused html)" "releases body_owner (sse_app E refused html)"
  by (rule dropping_app; simp add: sse_app_def fn_service_def)+

section \<open>Compressed bodies\<close>

text \<open>
  \<^verbatim>\<open>Compressed<Body>\<close>; \<open>gz\<close> is \<^verbatim>\<open>GzEncoder::new(_, Compression::fast())\<close>, which turns a reader into what
  its own reads deliver.
\<close>

definition compressed_impl :: "crates \<Rightarrow> (body_reader \<Rightarrow> stream) \<Rightarrow> 'b http_body \<Rightarrow> 'b http_body" where
  "compressed_impl E gz B =
     \<lparr>hb_len = (\<lambda>_. None),
      hb_into_reader = (\<lambda>b. map_res (\<lambda>r. RReader (gz r) None) (hb_into_reader B b)),
      hb_into_chunks = (\<lambda>b. map_res (\<lambda>r. ChunkIterator (Some (CReader (gz r) None))) (hb_into_reader B b)),
      hb_into_bytes = default_into_bytes E (\<lambda>b. map_res (\<lambda>r. RReader (gz r) None) (hb_into_reader B b)),
      hb_drop = hb_drop B\<rparr>"

text \<open>What \<^verbatim>\<open>flate2\<close> documents: reading the encoder of a healthy reader yields the compressed content.\<close>

definition gzip_law :: "crates \<Rightarrow> (body_reader \<Rightarrow> stream) \<Rightarrow> (bytes \<Rightarrow> bytes option) \<Rightarrow> bool" where
  "gzip_law E gz gunzip \<longleftrightarrow>
     (\<forall>r. reader_good r \<longrightarrow> quiet (gz r) \<and> gunzip (bytes_of (gz r)) = Some (reader_content E r))"

definition compressed_content :: "(body_reader \<Rightarrow> stream) \<Rightarrow> 'b http_body \<Rightarrow> 'b \<Rightarrow> bytes" where
  "compressed_content gz B b = (case hb_into_reader B b of Ok r \<Rightarrow> bytes_of (gz r) | _ \<Rightarrow> [])"

definition compressible :: "(body_reader \<Rightarrow> stream) \<Rightarrow> 'b http_body \<Rightarrow> 'b \<Rightarrow> bool" where
  "compressible gz B b \<longleftrightarrow> (\<exists>r. hb_into_reader B b = Ok r \<and> quiet (gz r))"

lemma compressed_into_bytes:
  assumes "compressible gz B b"
  shows "fst (hb_into_bytes (compressed_impl E gz B) b) = Ok (compressed_content gz B b)"
proof -
  from assms obtain r where r: "hb_into_reader B b = Ok r" "quiet (gz r)" by (auto simp: compressible_def)
  have "reader_good (RReader (gz r) None)" "w_cap new_writer = None" using r(2) by (simp_all add: new_writer_def)
  from io_copy_good [OF this, of E] r show ?thesis
    by (auto simp: compressed_impl_def default_into_bytes_def compressed_content_def new_writer_def)
qed

interpretation compressed: chunked_body_contract
  E "compressed_impl E gz B" "compressed_content gz B" "compressible gz B" for E gz and B :: "'b http_body"
proof
  fix b assume ok: "compressible gz B b"
  then obtain r where r: "hb_into_reader B b = Ok r" "quiet (gz r)" by (auto simp: compressible_def)
  show "fst (hb_into_bytes (compressed_impl E gz B) b) = Ok (compressed_content gz B b)"
    by (rule compressed_into_bytes [OF ok])
  show "\<exists>r'. hb_into_reader (compressed_impl E gz B) b = Ok r' \<and> reader_good r' \<and>
      reader_content E r' = compressed_content gz B b"
    using r by (simp add: compressed_impl_def compressed_content_def)
  from chunk_collect_reader [OF r(2), of E] r(1)
  show "\<exists>it. hb_into_chunks (compressed_impl E gz B) b = Ok it \<and> list_all isr (fst (chunk_collect E it)) \<and>
      concat (map chunk_data (fst (chunk_collect E it))) = compressed_content gz B b"
    by (auto simp: compressed_impl_def compressed_content_def list_all_iff o_def)
qed (simp add: compressed_impl_def)

text \<open>Decompressing what a compressed body delivers gives the content of the body inside.\<close>

lemma compressed_decodes:
  assumes "gzip_law E gz gunzip" "hb_into_reader B b = Ok r" "reader_good r"
  shows "compressible gz B b" "gunzip (compressed_content gz B b) = Some (reader_content E r)"
  using assms by (auto simp: gzip_law_def compressible_def compressed_content_def)

definition compress_app :: "crates \<Rightarrow> string \<Rightarrow> bytes \<Rightarrow> (bytes, 'h, unit) service" where
  "compress_app E refused file = fn_service (\<lambda>n req.
     (build E refused 200 [(''content-type'', ''text/plain''), (''content-encoding'', ''gzip'')] file, rest_of_body req, n))"

definition compress_main ::
  "string \<Rightarrow> (body_reader \<Rightarrow> stream) \<Rightarrow> bytes \<Rightarrow> ('p, 'tls) host \<Rightarrow> (('tls, 'h) served \<times> listen_end) res" where
  "compress_main refused gz file H =
     host_serve H (compressed_impl (h_crates H) gz slice_impl) (compress_app (h_crates H) refused file) ()
       (server_bind (h_pool_new H) (h_tcp_bind H) ''0.0.0.0:4444'')"

text \<open>The answer of the program to an HTTP/1.1 request: chunks whose data decompress to the file.\<close>

lemma compress_answer:
  fixes res :: "(bytes, 'h) response"
  assumes "gzip_law E gz gunzip" "response_plan E None res = Ok (Chunked, h)" "w_cap w = None"
  shows "\<exists>zipped src w'. write_response E (compressed_impl E gz slice_impl) res True w =
      (Ok (response_outcome E (rs_upgrade res) Chunked h), src, w') \<and>
    w_out w' = w_out w @ response_text E res h @
      body_wire E (compressed_impl E gz slice_impl) (compressed_content gz slice_impl) Chunked (rs_body res) \<and>
    concat (map chunk_data (body_chunks E (compressed_impl E gz slice_impl) (rs_body res))) = zipped \<and>
    gunzip zipped = Some (rs_body res)"
proof -
  have r: "hb_into_reader slice_impl (rs_body res) = Ok (RBuffered (rs_body res))" "reader_good (RBuffered (rs_body res))"
    by (simp_all add: slice_impl_def)
  note z = compressed_decodes [OF assms(1) r]
  have len: "hb_len (compressed_impl E gz slice_impl) (rs_body res) = None" by (simp add: compressed_impl_def)
  from compressed.write_response_wire [of E gz slice_impl res Chunked h w] assms(2,3) z(1) len
  obtain src w' where "write_response E (compressed_impl E gz slice_impl) res True w =
      (Ok (response_outcome E (rs_upgrade res) Chunked h), src, w')"
    "w_out w' = w_out w @ response_text E res h @
      body_wire E (compressed_impl E gz slice_impl) (compressed_content gz slice_impl) Chunked (rs_body res)"
    by auto
  moreover have "concat (map chunk_data (body_chunks E (compressed_impl E gz slice_impl) (rs_body res))) =
      compressed_content gz slice_impl (rs_body res)"
    by (rule compressed.body_chunks_content [OF z(1)])
  ultimately show ?thesis using z(2) by auto
qed

section \<open>Other listeners\<close>

text \<open>\<^verbatim>\<open>filter_map(|conn| conn.ok())\<close>.\<close>

definition accepted_ones :: "(io_error + 'a) list \<Rightarrow> 'a list" where
  "accepted_ones = List.map_filter (\<lambda>r. case r of Inr c \<Rightarrow> Some c | Inl _ \<Rightarrow> None)"

definition greeting_app :: "string \<Rightarrow> (string, 'h, unit) service" where
  "greeting_app greeting = fn_service (\<lambda>n req. (Inr (ok_response greeting), rest_of_body req, n))"

text \<open>\<open>unix_bind\<close> is \<^verbatim>\<open>UnixListener::bind\<close>; whether the old socket could be removed is ignored.\<close>

definition unix_socket_main ::
  "(string \<Rightarrow> (io_error + unix_stream) list res) \<Rightarrow> ('p, 'tls) host \<Rightarrow> (('tls, 'h) served \<times> listen_end) res" where
  "unix_socket_main unix_bind H =
     (case unix_bind ''./examples/unix-socket.socket'' of
        Ok script \<Rightarrow>
          host_serve H str_impl (greeting_app ''Hello from Unix socket!'') ()
            (from_connections (h_pool_new H) (FromWaiting (map conn_from_unix (accepted_ones script)))
              (builder_max_threads 100 builder_default))
      | Err err \<Rightarrow> Err err
      | Panic \<Rightarrow> Panic)"

text \<open>
  What \<^verbatim>\<open>tls.rs\<close> takes from \<^verbatim>\<open>rustls\<close>; an error of its set-up is its text.  \<open>ts_session\<close> is
  \<^verbatim>\<open>ServerConnection::new\<close> and \<^verbatim>\<open>StreamOwned::new\<close>.
\<close>

record ('cert, 'key, 'cfg, 'tls) tls_setup =
  ts_pem_file_iter :: "string \<Rightarrow> string + (string + 'cert) list"
  ts_from_pem_file :: "string \<Rightarrow> string + 'key"
  ts_with_single_cert :: "'cert list \<Rightarrow> 'key \<Rightarrow> string + 'cfg"
  ts_session :: "'cfg \<Rightarrow> tcp_stream \<Rightarrow> 'tls option"

definition tls_config :: "('cert, 'key, 'cfg, 'tls) tls_setup \<Rightarrow> 'cfg res" where
  "tls_config S =
     (case ts_pem_file_iter S ''examples/tls/cert.pem'' of
        Inl err \<Rightarrow> Err (Other err)
      | Inr certs \<Rightarrow>
          (case ts_from_pem_file S ''examples/tls/key.pem'' of
             Inl err \<Rightarrow> Err (Other err)
           | Inr key \<Rightarrow>
               (case ts_with_single_cert S (List.map_filter (\<lambda>c. case c of Inr c \<Rightarrow> Some c | Inl _ \<Rightarrow> None) certs) key of
                  Inl err \<Rightarrow> Err (Other err)
                | Inr cfg \<Rightarrow> Ok cfg)))"

definition tls_main ::
  "('cert, 'key, 'cfg, 'tls) tls_setup \<Rightarrow> ('p, 'tls) host \<Rightarrow> (('tls, 'h) served \<times> listen_end) res" where
  "tls_main S H =
     (case h_tcp_bind H ''0.0.0.0:4444'' of
        Ok listener \<Rightarrow>
          (case tls_config S of
             Ok cfg \<Rightarrow>
               host_serve H str_impl (greeting_app ''Hello from TLS'') ()
                 (from_connections (h_pool_new H)
                   (FromWaiting (map conn_from_tls
                     (List.map_filter (ts_session S cfg) (map fst (accepted_ones listener)))))
                   (builder_max_threads 100 builder_default))
           | Err err \<Rightarrow> Err err
           | Panic \<Rightarrow> Panic)
      | Err err \<Rightarrow> Err err
      | Panic \<Rightarrow> Panic)"

text \<open>
  Unlike the listener of the library, whose iterator ends at the first failed \<^verbatim>\<open>accept\<close>, these programs go on:
  every connection whose options can be set is served, and then they wait.
\<close>

lemma each_pool_body:
  "snd (each (pool_body fuel E B A clocks T app) cs fin log) = fin \<and>
   map fst (fst (each (pool_body fuel E B A clocks T app) cs fin log)) = map fst log @ cs"
  by (induction cs arbitrary: log) (auto simp: pool_body_def split: prod.split)

lemma host_serve_waiting:
  assumes "h_pool_new H (sb_max_threads b) = Ok pool" "list_all (\<lambda>c. \<not> conn_poisoned c) cs"
  shows "\<exists>log. host_serve H B A app (from_connections (h_pool_new H) (FromWaiting cs) b) = Ok (log, Accepting) \<and>
    map fst log = List.map_filter (\<lambda>c. ok_option (configure (h_tls H) b c)) cs"
proof -
  let ?cs = "List.map_filter (\<lambda>c. ok_option (configure (h_tls H) b c)) cs"
  let ?body = "pool_body (h_fuel H) (h_crates H) B A (h_clocks H) (h_tls H) app"
  have "host_serve H B A app (from_connections (h_pool_new H) (FromWaiting cs) b) = Ok (each ?body ?cs Accepting [])"
    using assms(1) configured_eq [OF assms(2), of "h_tls H" b Accepting]
    by (simp add: host_serve_def from_connections_def serve_pool_def accept_loop_each arriving_def)
  moreover obtain log fin where e: "each ?body ?cs Accepting [] = (log, fin)" by (metis surj_pair)
  moreover have "fin = Accepting" "map fst log = ?cs"
    using each_pool_body [of "h_fuel H" "h_crates H" B A "h_clocks H" "h_tls H" app ?cs Accepting "[]"] e by simp_all
  ultimately show ?thesis by simp
qed

lemma unix_socket_serves_on:
  assumes "unix_bind ''./examples/unix-socket.socket'' = Ok script" "h_pool_new H 100 = Ok pool"
  shows "\<exists>log. unix_socket_main unix_bind H = Ok (log, Accepting) \<and>
    map fst log = map (\<lambda>c. conn_from_unix (c\<lparr>ux_timeout := None\<rparr>)) (filter (\<lambda>c. ux_fault c = None) (accepted_ones script))"
proof -
  let ?b = "builder_max_threads 100 builder_default"
  have conf: "ok_option (configure (h_tls H) ?b (conn_from_unix c)) =
      (if ux_fault c = None then Some (conn_from_unix (c\<lparr>ux_timeout := None\<rparr>)) else None)" for c
    by (auto simp: configure_def builder_max_threads_def builder_default_def conn_from_unix_def
        unix_set_read_timeout_def ok_option_def split: option.split)
  have arrive: "List.map_filter (\<lambda>c. ok_option (configure (h_tls H) ?b c)) (map conn_from_unix cs) =
      map (\<lambda>c. conn_from_unix (c\<lparr>ux_timeout := None\<rparr>)) (filter (\<lambda>c. ux_fault c = None) cs)" for cs
    by (induction cs) (simp_all add: List.map_filter_simps conf)
  have "h_pool_new H (sb_max_threads ?b) = Ok pool"
    using assms(2) by (simp add: builder_max_threads_def)
  moreover have "list_all (\<lambda>c. \<not> conn_poisoned c) (map conn_from_unix (accepted_ones script))"
    by (simp add: list_all_iff conn_from_unix_def)
  ultimately show ?thesis
    unfolding unix_socket_main_def assms(1) res.case arrive [symmetric] by (rule host_serve_waiting)
qed

lemma tls_serves_on:
  assumes "h_tcp_bind H ''0.0.0.0:4444'' = Ok listener" "tls_config S = Ok cfg" "h_pool_new H 100 = Ok pool"
  shows "\<exists>log. tls_main S H = Ok (log, Accepting) \<and>
    map fst log = List.map_filter (\<lambda>c. ok_option (configure (h_tls H) (builder_max_threads 100 builder_default) c))
      (map conn_from_tls (List.map_filter (ts_session S cfg) (map fst (accepted_ones listener))))"
proof -
  let ?b = "builder_max_threads 100 builder_default"
  have "h_pool_new H (sb_max_threads ?b) = Ok pool"
    using assms(3) by (simp add: builder_max_threads_def)
  moreover have "list_all (\<lambda>c. \<not> conn_poisoned c)
      (map conn_from_tls (List.map_filter (ts_session S cfg) (map fst (accepted_ones listener))))"
    by (simp add: list_all_iff conn_from_tls_def tls_from_def)
  ultimately show ?thesis
    unfolding tls_main_def assms(1,2) res.case by (rule host_serve_waiting)
qed

section \<open>Web sockets\<close>

text \<open>
  \<open>create_response\<close> is the handshake of \<^verbatim>\<open>tungstenite\<close> on the request without its body.
\<close>

datatype socket_handler = EchoSocket

definition without_body :: "body request \<Rightarrow> unit request" where
  "without_body req = \<lparr>rq_method = rq_method req, rq_uri = rq_uri req, rq_version = rq_version req,
     rq_headers = rq_headers req, rq_body = ()\<rparr>"

definition websocket_app ::
  "(unit request \<Rightarrow> string + (unit, socket_handler) response) \<Rightarrow> (unit, socket_handler, unit) service" where
  "websocket_app create_response = fn_service (\<lambda>n req.
     (map_sum id (upgrade_response EchoSocket) (create_response (without_body req)), rest_of_body req, n))"

text \<open>
  The handler's loop, over what \<^verbatim>\<open>read\<close> returns until its first error; \<open>send_msg\<close> is \<^verbatim>\<open>send\<close>, which
  says whether it succeeded.
\<close>

fun websocket_loop :: "('m \<Rightarrow> bool) \<Rightarrow> ('m \<Rightarrow> 'w \<Rightarrow> bool \<times> 'w) \<Rightarrow> 'm list \<Rightarrow> 'w \<Rightarrow> 'w" where
  "websocket_loop is_text send_msg [] w = w"
| "websocket_loop is_text send_msg (m # ms) w =
     (if is_text m then
        (case send_msg m w of (sent, w') \<Rightarrow> if sent then websocket_loop is_text send_msg ms w' else w')
      else websocket_loop is_text send_msg ms w)"

definition websocket_main ::
  "(unit request \<Rightarrow> string + (unit, socket_handler) response) \<Rightarrow> ('p, 'tls) host \<Rightarrow>
     (('tls, socket_handler) served \<times> listen_end) res" where
  "websocket_main create_response H = host_serve H unit_impl (websocket_app create_response) ()
     (server_bind (h_pool_new H) (h_tcp_bind H) ''0.0.0.0:4444'')"

text \<open>With sends that succeed while the socket takes messages, the text messages come back in order.\<close>

definition sends_up_to :: "nat \<Rightarrow> 'm \<Rightarrow> 'm list \<Rightarrow> bool \<times> 'm list" where
  "sends_up_to n m out = (if length out < n then (True, out @ [m]) else (False, out))"

lemma websocket_loop_echoes:
  "length out \<le> n \<Longrightarrow> websocket_loop is_text (sends_up_to n) ms out = take n (out @ filter is_text ms)"
  by (induction ms arbitrary: out) (auto simp: sends_up_to_def take_Cons')

interpretation unit_returning: returning_body unit_impl "\<lambda>_. None"
  by unfold_locales (auto simp: unit_impl_def owns_alike_def)

lemma websocket_serves_to_the_end:
  assumes "Suc (stream_size conn) < fuel"
  shows "serve_ended (fst (serve fuel E unit_impl (websocket_app create_response) clock conn w ()))"
proof -
  let ?A = "websocket_app create_response"
  have A: "honest (\<lambda>_. None) ?A" "releases (\<lambda>_. None) ?A" "answers_live (\<lambda>_. True) ?A"
    by (auto intro!: dropping_app simp: websocket_app_def fn_service_def answers_live_def)
  have "fst (serve fuel E unit_impl ?A clock conn w ()) \<noteq> OutOfFuel"
    by (rule unit_sourced.serve_ends [OF A(1) assms])
  moreover have "fst (serve fuel E unit_impl ?A clock conn w ()) \<noteq> Panics"
    by (rule live_unit.serve_no_panic [OF A(3)])
  moreover have "fst (serve fuel E unit_impl ?A clock conn w ()) \<noteq> WaitsForever"
    by (rule unit_returning.serve_returned [OF A(2)])
  ultimately show ?thesis by (cases "fst (serve fuel E unit_impl ?A clock conn w ())") auto
qed

text \<open>
  \<^verbatim>\<open>websocket-tokio.rs\<close>: the handler gives the socket, not blocking any more, to a task of the other runtime and
  returns; it panics for a connection that is not a TCP stream.
\<close>

definition tokio_handler :: "'tls connection \<Rightarrow> tcp_stream res" where
  "tokio_handler conn =
     (case conn_downcast TcpStreamT conn of
        Ok (Inr (AnyTcp stream)) \<Rightarrow> if tcp_fault stream = None then Ok stream else Panic
      | _ \<Rightarrow> Panic)"

definition websocket_tokio_main ::
  "unit res \<Rightarrow> (unit request \<Rightarrow> string + (unit, socket_handler) response) \<Rightarrow> ('p, 'tls) host \<Rightarrow>
     ((('tls, socket_handler) served \<times> unit) \<times> listen_end) res" where
  "websocket_tokio_main runtime create_response H =
     (case runtime of
        Ok _ \<Rightarrow>
          map_res (\<lambda>srv. serve_single_thread (h_fuel H) (h_crates H) unit_impl (websocket_app create_response)
              (h_clocks H) (h_tls H) srv ())
            (builder_bind (h_pool_new H) (h_tcp_bind H) ''0.0.0.0:4444'' builder_default)
      | Err err \<Rightarrow> Err err
      | Panic \<Rightarrow> Panic)"

lemma tokio_handler_cases:
  "tokio_handler conn = Ok s \<longleftrightarrow> conn = Tcp s \<and> tcp_fault s = None" "tokio_handler conn \<noteq> Err err"
  by (cases conn; auto simp: tokio_handler_def tls_into_inner_def split: res.split sum.split)+

end
