(* ===== verification/Tunnel.thy ===== *)
theory Tunnel
  imports Example_Properties
begin

text \<open>
  \<^verbatim>\<open>examples/tunnel.rs\<close>: a proxy for \<^verbatim>\<open>CONNECT\<close>.  The handler of the upgraded connection runs two threads, each of
  which copies one direction and then shuts the socket that it has written to.
\<close>

section \<open>The application\<close>

datatype tunnel_handler = TunnelTo string

text \<open>\<open>authority\<close> is \<^verbatim>\<open>Uri::authority\<close> with \<^verbatim>\<open>to_string\<close>.\<close>

definition tunnel_app :: "crates \<Rightarrow> string \<Rightarrow> (uri \<Rightarrow> string option) \<Rightarrow> (body, tunnel_handler, unit) service" where
  "tunnel_app E refused authority = fn_service (\<lambda>n req.
     (if rq_method req \<noteq> ''CONNECT'' then build E refused 405 [(''allow'', ''connect'')] body_empty
      else (case authority (rq_uri req) of
          Some address \<Rightarrow> map_sum id (upgrade_response (TunnelTo address)) (build E refused 200 [] body_empty)
        | None \<Rightarrow> build E refused 400 [] (body_from_str ''Invalid address'')),
      rest_of_body req, n))"

definition tunnel_main ::
  "string \<Rightarrow> (uri \<Rightarrow> string option) \<Rightarrow> ('p, 'tls) host \<Rightarrow> (('tls, tunnel_handler) served \<times> listen_end) res" where
  "tunnel_main refused authority H =
     host_serve H (body_impl (h_crates H)) (tunnel_app (h_crates H) refused authority) ()
       (server_bind (h_pool_new H) (h_tcp_bind H) ''0.0.0.0:4444'')"

lemma tunnel_app_dropping:
  "honest body_owner (tunnel_app E refused authority)" "releases body_owner (tunnel_app E refused authority)"
  by (rule dropping_app; simp add: tunnel_app_def fn_service_def)+

section \<open>The two threads\<close>

datatype copier = Copying nat | Ended "nat res"

record tunnel =
  tn_client :: tcp_stream
  tn_server :: tcp_stream
  tn_up :: copier
  tn_down :: copier

text \<open>
  \<^verbatim>\<open>shutdown(Shutdown::Both)\<close>: nothing more can be written, and of what the peer sends only what has
  already arrived, the first \<open>k\<close> blocks, can still be read.
\<close>

definition tcp_shutdown_both :: "nat \<Rightarrow> tcp_stream \<Rightarrow> unit res \<times> tcp_stream" where
  "tcp_shutdown_both k s =
     (case tcp_fault s of
        Some err \<Rightarrow> (Err err, s)
      | None \<Rightarrow> (Ok (), s\<lparr>tcp_in := take k (tcp_in s), tcp_out := (tcp_out s)\<lparr>w_cap := Some 0\<rparr>\<rparr>))"

text \<open>
  A turn of a thread from \<open>src\<close> to \<open>dst\<close>: \<^verbatim>\<open>io::copy\<close> reads a block of some size and writes it; at the
  end of the source the thread shuts \<open>dst\<close> and returns the number of bytes.
\<close>

inductive copy_step :: "tcp_stream \<times> tcp_stream \<times> copier \<Rightarrow> tcp_stream \<times> tcp_stream \<times> copier \<Rightarrow> bool" where
  pass: "0 < m \<Longrightarrow> read m (tcp_in src) = (Ok bs, i) \<Longrightarrow> bs \<noteq> [] \<Longrightarrow> write_all bs (tcp_out dst) = (Ok (), w) \<Longrightarrow>
     copy_step (src, dst, Copying n) (src\<lparr>tcp_in := i\<rparr>, dst\<lparr>tcp_out := w\<rparr>, Copying (n + length bs))"
| broken: "0 < m \<Longrightarrow> read m (tcp_in src) = (Ok bs, i) \<Longrightarrow> bs \<noteq> [] \<Longrightarrow> write_all bs (tcp_out dst) = (Err err, w) \<Longrightarrow>
     copy_step (src, dst, Copying n) (src\<lparr>tcp_in := i\<rparr>, dst\<lparr>tcp_out := w\<rparr>, Ended (Err err))"
| again: "0 < m \<Longrightarrow> read m (tcp_in src) = (Err Interrupted, i) \<Longrightarrow>
     copy_step (src, dst, Copying n) (src\<lparr>tcp_in := i\<rparr>, dst, Copying n)"
| failed: "0 < m \<Longrightarrow> read m (tcp_in src) = (Err err, i) \<Longrightarrow> err \<noteq> Interrupted \<Longrightarrow>
     copy_step (src, dst, Copying n) (src\<lparr>tcp_in := i\<rparr>, dst, Ended (Err err))"
| finish: "0 < m \<Longrightarrow> read m (tcp_in src) = (Ok [], i) \<Longrightarrow> tcp_shutdown_both k dst = (r, dst') \<Longrightarrow>
     copy_step (src, dst, Copying n) (src\<lparr>tcp_in := i\<rparr>, dst', Ended (map_res (\<lambda>_. n) r))"

inductive tunnel_step :: "tunnel \<Rightarrow> tunnel \<Rightarrow> bool" where
  up: "copy_step (tn_client t, tn_server t, tn_up t) (c, s, up) \<Longrightarrow>
     tunnel_step t (t\<lparr>tn_client := c, tn_server := s, tn_up := up\<rparr>)"
| down: "copy_step (tn_server t, tn_client t, tn_down t) (s, c, down) \<Longrightarrow>
     tunnel_step t (t\<lparr>tn_client := c, tn_server := s, tn_down := down\<rparr>)"

lemma tunnel_steps:
  "copy_step (c, s, up) (c', s', up') \<Longrightarrow>
     tunnel_step \<lparr>tn_client = c, tn_server = s, tn_up = up, tn_down = down\<rparr>
       \<lparr>tn_client = c', tn_server = s', tn_up = up', tn_down = down\<rparr>"
  "copy_step (s, c, down) (s', c', down') \<Longrightarrow>
     tunnel_step \<lparr>tn_client = c, tn_server = s, tn_up = up, tn_down = down\<rparr>
       \<lparr>tn_client = c', tn_server = s', tn_up = up, tn_down = down'\<rparr>"
  using tunnel_step.up [of "\<lparr>tn_client = c, tn_server = s, tn_up = up, tn_down = down\<rparr>" c' s' up']
    tunnel_step.down [of "\<lparr>tn_client = c, tn_server = s, tn_up = up, tn_down = down\<rparr>" s' c' down'] by simp_all

definition tunnel_start :: "tcp_stream \<Rightarrow> tcp_stream \<Rightarrow> tunnel" where
  "tunnel_start client server = \<lparr>tn_client = client, tn_server = server, tn_up = Copying 0, tn_down = Copying 0\<rparr>"

text \<open>What \<^verbatim>\<open>tunnel\<close> returns, once it does: the first thread is joined first.\<close>

definition tunnel_result :: "tunnel \<Rightarrow> (nat \<times> nat) res option" where
  "tunnel_result t =
     (case tn_up t of
        Copying _ \<Rightarrow> None
      | Ended (Ok written) \<Rightarrow>
          (case tn_down t of Copying _ \<Rightarrow> None | Ended r \<Rightarrow> Some (map_res (\<lambda>got. (written, got)) r))
      | Ended (Err err) \<Rightarrow> Some (Err err)
      | Ended Panic \<Rightarrow> Some Panic)"

text \<open>The handler: without a connection to the address nothing happens; \<open>downcast\<close> and \<open>try_clone\<close> may fail.\<close>

definition tunnel_handle ::
  "(string \<Rightarrow> tcp_stream res) \<Rightarrow> tunnel_handler \<Rightarrow> 'tls connection \<Rightarrow> tunnel option res" where
  "tunnel_handle connect h conn =
     (case h of TunnelTo address \<Rightarrow>
        (case connect address of
           Ok server \<Rightarrow>
             (case conn_downcast TcpStreamT conn of
                Ok (Inr (AnyTcp client)) \<Rightarrow>
                  Ok (if tcp_fault client = None \<and> tcp_fault server = None then Some (tunnel_start client server) else None)
              | _ \<Rightarrow> Panic)
         | _ \<Rightarrow> Ok None))"

section \<open>One direction\<close>

text \<open>
  \<open>passed\<close> has come through of \<open>i\<close>, what the source had to deliver, and \<open>lost\<close> never will.
\<close>

definition flows :: "bytes \<Rightarrow> bytes \<Rightarrow> tcp_stream \<Rightarrow> tcp_stream \<Rightarrow> copier \<Rightarrow> bytes \<Rightarrow> bytes \<Rightarrow> bool" where
  "flows i out src dst cp passed lost \<longleftrightarrow>
     quiet (tcp_in src) \<and> w_out (tcp_out dst) = out @ passed \<and>
     (case cp of
        Copying n \<Rightarrow> i = passed @ bytes_of (tcp_in src) @ lost \<and> n = length passed
      | Ended r \<Rightarrow> i = passed @ lost \<and> (\<forall>n. r = Ok n \<longrightarrow> n = length passed))"

lemma flows_unchanged:
  "flows i out src dst cp passed lost \<Longrightarrow> tcp_in src' = tcp_in src \<Longrightarrow> tcp_out dst' = tcp_out dst \<Longrightarrow>
     flows i out src' dst' cp passed lost"
  by (cases cp) (simp_all add: flows_def)

lemma quiet_take: "quiet s \<Longrightarrow> quiet (take k s)"
  unfolding quiet_def list_all_iff by (blast dest: in_set_takeD)

lemma write_all_takes: "write_all bs w = (r, w') \<Longrightarrow> \<exists>k. w_out w' = w_out w @ take k bs"
proof -
  assume "write_all bs w = (r, w')"
  moreover have "\<exists>k. bs = take k bs" by (rule exI [of _ "length bs"]) simp
  ultimately show ?thesis by (auto simp: write_all_def split: option.splits if_splits)
qed

lemma read_quiet_parts:
  assumes "quiet s" "0 < n" "read n s = (r, s')"
  obtains bs where "r = Ok bs" "quiet s'" "bytes_of s = bs @ bytes_of s'" "bs = [] \<Longrightarrow> bytes_of s = []"
  using source.rd_goodE [OF assms(1,2)] assms(3) by (metis prod.inject)

abbreviation ended_ok :: "copier \<Rightarrow> bool" where
  "ended_ok cp \<equiv> \<exists>n. cp = Ended (Ok n)"

abbreviation ended_err :: "copier \<Rightarrow> bool" where
  "ended_err cp \<equiv> \<exists>err. cp = Ended (Err err)"

text \<open>A turn of a thread: only an error can lose anything of its own direction.\<close>

lemma flows_step:
  assumes "copy_step (src, dst, cp) (src', dst', cp')" "flows i out src dst cp passed lost"
  shows "\<exists>passed' lost'. flows i out src' dst' cp' passed' lost' \<and> (lost' = lost \<or> ended_err cp')"
  using assms(1)
proof cases
  case (pass m bs s w n)
  from assms(2) pass(1) have q: "quiet (tcp_in src)" by (simp add: flows_def)
  from read_quiet_parts [OF q pass(5,6)] pass(6)
  have "quiet s" "bytes_of (tcp_in src) = bs @ bytes_of s" by auto
  with assms(2) pass write_all_Ok [OF pass(8)] show ?thesis
    by (intro exI [of _ "passed @ bs"] exI [of _ lost]) (simp add: flows_def)
next
  case (broken m bs s err w n)
  from assms(2) broken(1) have q: "quiet (tcp_in src)" by (simp add: flows_def)
  from read_quiet_parts [OF q broken(5,6)] broken(6)
  have s: "quiet s" "bytes_of (tcp_in src) = bs @ bytes_of s" by auto
  from write_all_takes [OF broken(8)] obtain k where k: "w_out w = w_out (tcp_out dst) @ take k bs" by blast
  have "bs = take k bs @ drop k bs" by simp
  with assms(2) broken s k show ?thesis
    by (intro exI [of _ "passed @ take k bs"] exI [of _ "drop k bs @ bytes_of s @ lost"]) (simp add: flows_def)
next
  case (finish m s k r n)
  from assms(2) finish(1) have q: "quiet (tcp_in src)" by (simp add: flows_def)
  from read_quiet_parts [OF q finish(4,5)] finish(5)
  have s: "quiet s" "bytes_of (tcp_in src) = []" by auto
  from finish(6) have "w_out (tcp_out dst') = w_out (tcp_out dst)"
    by (auto simp: tcp_shutdown_both_def split: option.splits)
  with assms(2) finish s show ?thesis
    by (intro exI [of _ passed] exI [of _ lost]) (auto simp: flows_def)
qed (use assms(2) in \<open>auto simp: flows_def dest: read_quiet_parts\<close>)

text \<open>And only its end can lose something of the other direction, while that is still copying.\<close>

lemma flows_other_step:
  assumes "copy_step (src, dst, cp) (src', dst', cp')" "flows i out dst src cp2 passed lost"
  shows "\<exists>lost'. flows i out dst' src' cp2 passed lost' \<and> (lost' = lost \<or> ended_ok cp' \<and> (\<exists>n. cp2 = Copying n))"
  using assms(1)
proof cases
  case (finish m s k r n)
  show ?thesis
  proof (cases "tcp_fault dst")
    case None
    then have dst': "r = Ok ()" "tcp_in dst' = take k (tcp_in dst)"
      using finish(6) by (auto simp: tcp_shutdown_both_def)
    have "bytes_of (tcp_in dst) = bytes_of (take k (tcp_in dst)) @ bytes_of (drop k (tcp_in dst))"
      by (simp add: bytes_of_def flip: concat_append map_append)
    with assms(2) finish dst' show ?thesis
      by (cases cp2)
        (auto simp: flows_def quiet_take intro!: exI [of _ "bytes_of (drop k (tcp_in dst)) @ lost"])
  next
    case (Some err)
    with finish(6) have "dst' = dst" by (simp add: tcp_shutdown_both_def)
    with assms(2) finish show ?thesis by (auto simp: flows_def)
  qed
qed (use assms(2) in \<open>auto elim: flows_unchanged\<close>)

section \<open>Both directions\<close>

text \<open>
  Something of a direction is only lost to its own error or to the end of the other one; when both have ended
  well, at least one of them is complete.
\<close>

definition duplex ::
  "bytes \<Rightarrow> bytes \<Rightarrow> bytes \<Rightarrow> bytes \<Rightarrow> tcp_stream \<Rightarrow> tcp_stream \<Rightarrow> copier \<Rightarrow> copier \<Rightarrow> bool" where
  "duplex ia ob ib oa a b cp cp2 \<longleftrightarrow>
     (\<exists>passed lost passed2 lost2. flows ia ob a b cp passed lost \<and> flows ib oa b a cp2 passed2 lost2 \<and>
        (lost \<noteq> [] \<longrightarrow> ended_ok cp2 \<or> ended_err cp) \<and> (lost2 \<noteq> [] \<longrightarrow> ended_ok cp \<or> ended_err cp2) \<and>
        (ended_ok cp \<and> ended_ok cp2 \<longrightarrow> lost = [] \<or> lost2 = []))"

lemma duplex_sym: "duplex ia ob ib oa a b cp cp2 \<Longrightarrow> duplex ib oa ia ob b a cp2 cp"
  unfolding duplex_def by blast

lemma copy_step_copying: "copy_step (src, dst, cp) y \<Longrightarrow> \<exists>n. cp = Copying n"
  by (auto elim: copy_step.cases)

lemma duplex_step:
  assumes "copy_step (a, b, cp) (a', b', cp')" "duplex ia ob ib oa a b cp cp2"
  shows "duplex ia ob ib oa a' b' cp' cp2"
proof -
  from assms(2) obtain passed lost passed2 lost2 where d: "flows ia ob a b cp passed lost"
    "flows ib oa b a cp2 passed2 lost2" "lost \<noteq> [] \<longrightarrow> ended_ok cp2 \<or> ended_err cp"
    "lost2 \<noteq> [] \<longrightarrow> ended_ok cp \<or> ended_err cp2" unfolding duplex_def by blast
  from flows_step [OF assms(1) d(1)] obtain passed' lost' where
    f: "flows ia ob a' b' cp' passed' lost'" "lost' = lost \<or> ended_err cp'" by blast
  from flows_other_step [OF assms(1) d(2)] obtain lost2' where
    g: "flows ib oa b' a' cp2 passed2 lost2'" "lost2' = lost2 \<or> ended_ok cp' \<and> (\<exists>n. cp2 = Copying n)" by blast
  from copy_step_copying [OF assms(1)] obtain n where "cp = Copying n" ..
  with d f(2) g(2) have "lost' \<noteq> [] \<longrightarrow> ended_ok cp2 \<or> ended_err cp'" "lost2' \<noteq> [] \<longrightarrow> ended_ok cp' \<or> ended_err cp2"
    "ended_ok cp' \<and> ended_ok cp2 \<longrightarrow> lost' = [] \<or> lost2' = []" by auto
  with f(1) g(1) show ?thesis unfolding duplex_def by blast
qed

definition tunnel_ok :: "tcp_stream \<Rightarrow> tcp_stream \<Rightarrow> tunnel \<Rightarrow> bool" where
  "tunnel_ok client server t \<longleftrightarrow>
     duplex (bytes_of (tcp_in client)) (w_out (tcp_out server)) (bytes_of (tcp_in server)) (w_out (tcp_out client))
       (tn_client t) (tn_server t) (tn_up t) (tn_down t)"

lemma tunnel_ok_start:
  assumes "quiet (tcp_in client)" "quiet (tcp_in server)"
  shows "tunnel_ok client server (tunnel_start client server)"
  using assms by (auto simp: tunnel_ok_def tunnel_start_def duplex_def flows_def)

lemma tunnel_ok_step: "tunnel_step t t' \<Longrightarrow> tunnel_ok client server t \<Longrightarrow> tunnel_ok client server t'"
proof (induction rule: tunnel_step.induct)
  case (down t s c cp)
  have "duplex (bytes_of (tcp_in server)) (w_out (tcp_out client)) (bytes_of (tcp_in client)) (w_out (tcp_out server))
      s c cp (tn_up t)"
    by (rule duplex_step [OF down.hyps]) (use down.prems in \<open>simp add: tunnel_ok_def duplex_sym\<close>)
  then show ?case by (simp add: tunnel_ok_def duplex_sym)
qed (simp add: tunnel_ok_def duplex_step)

lemma tunnel_reachable_ok:
  "tunnel_step\<^sup>*\<^sup>* t t' \<Longrightarrow> tunnel_ok client server t \<Longrightarrow> tunnel_ok client server t'"
  by (induction rule: rtranclp_induct) (auto intro: tunnel_ok_step)

section \<open>Properties\<close>

text \<open>
  C19: Whatever the interleaving of its two threads, a tunnel passes on, in each direction, a beginning of what the
  source sends, unchanged.  When it returns \<^verbatim>\<open>Ok((w, r))\<close> these are the numbers of bytes passed on, and one
  of the two directions has been passed on completely; only the other may have been cut.
\<close>

theorem tunnel_passes_bytes:
  assumes "quiet (tcp_in client)" "quiet (tcp_in server)" "tunnel_step\<^sup>*\<^sup>* (tunnel_start client server) t"
  shows "\<exists>up down lost lost2.
    w_out (tcp_out (tn_server t)) = w_out (tcp_out server) @ up \<and> bytes_of (tcp_in client) = up @ lost \<and>
    w_out (tcp_out (tn_client t)) = w_out (tcp_out client) @ down \<and> bytes_of (tcp_in server) = down @ lost2 \<and>
    (\<forall>w r. tunnel_result t = Some (Ok (w, r)) \<longrightarrow> w = length up \<and> r = length down \<and> (lost = [] \<or> lost2 = []))"
proof -
  from tunnel_reachable_ok [OF assms(3) tunnel_ok_start [OF assms(1,2)]] obtain up lost down lost2 where
    f: "flows (bytes_of (tcp_in client)) (w_out (tcp_out server)) (tn_client t) (tn_server t) (tn_up t) up lost"
    "flows (bytes_of (tcp_in server)) (w_out (tcp_out client)) (tn_server t) (tn_client t) (tn_down t) down lost2"
    and both: "ended_ok (tn_up t) \<and> ended_ok (tn_down t) \<longrightarrow> lost = [] \<or> lost2 = []"
    unfolding tunnel_ok_def duplex_def by blast
  show ?thesis
  proof (cases "\<exists>w r. tunnel_result t = Some (Ok (w, r))")
    case True
    then obtain w r where "tn_up t = Ended (Ok w)" "tn_down t = Ended (Ok r)"
      by (auto simp: tunnel_result_def split: copier.splits res.splits)
    with f both show ?thesis
      by (intro exI [of _ up] exI [of _ down] exI [of _ lost] exI [of _ lost2])
        (auto simp: flows_def tunnel_result_def)
  next
    case False
    from f(1) obtain l where "bytes_of (tcp_in client) = up @ l" by (auto simp: flows_def split: copier.splits)
    moreover from f(2) obtain l2 where "bytes_of (tcp_in server) = down @ l2" by (auto simp: flows_def split: copier.splits)
    ultimately show ?thesis using f False
      by (intro exI [of _ up] exI [of _ down] exI [of _ l] exI [of _ l2]) (simp add: flows_def)
  qed
qed

definition ask_client :: tcp_stream where "ask_client = some_tcp [Avail ''ask'']"
definition reply_server :: tcp_stream where "reply_server = some_tcp [Avail ''reply'']"

lemma some_tcp_parts [simp]:
  "tcp_in (some_tcp s) = s" "tcp_out (some_tcp s) = new_writer" "tcp_fault (some_tcp s) = None"
  by (simp_all add: some_tcp_def)

theorem tunnel_passes_bytes_witness:
  "\<exists>t up lost. tunnel_step (tunnel_start ask_client reply_server) t \<and> tn_up t = Copying 2 \<and>
     w_out (tcp_out (tn_server t)) = up \<and> up = ''as'' \<and> ''ask'' = up @ lost"
proof -
  have "copy_step (ask_client, reply_server, Copying 0) (ask_client\<lparr>tcp_in := [Avail ''k'']\<rparr>,
      reply_server\<lparr>tcp_out := new_writer\<lparr>w_out := ''as''\<rparr>\<rparr>, Copying (0 + length ''as''))"
    by (rule copy_step.pass [of 2])
      (simp_all add: ask_client_def reply_server_def push_back_def new_writer_def numeral_2_eq_2)
  from tunnel_steps(1) [OF this, of "Copying 0"] obtain t where t: "tunnel_step (tunnel_start ask_client reply_server) t"
    "tn_up t = Copying 2" "w_out (tcp_out (tn_server t)) = ''as''" by (force simp: tunnel_start_def)
  from t(1) have "tunnel_step\<^sup>*\<^sup>* (tunnel_start ask_client reply_server) t" by blast
  from tunnel_passes_bytes [OF _ _ this] obtain up lost where "w_out (tcp_out (tn_server t)) = up" "''ask'' = up @ lost"
    by (auto simp: ask_client_def reply_server_def new_writer_def bytes_of_def)
  with t show ?thesis by blast
qed

text \<open>
  C40: A client that ends its sending direction after its request loses the reply: the first thread then shuts the
  server's socket in both directions, so there is a run in which the server gets the whole request, its reply does not
  get through at all, and \<^verbatim>\<open>tunnel\<close> returns \<^verbatim>\<open>Ok\<close>.
\<close>

theorem tunnel_half_close_cuts:
  assumes "x \<noteq> []" "tcp_in client = [Avail x]" "tcp_fault client = None" "tcp_fault server = None"
    and "w_cap (tcp_out server) = None"
  shows "\<exists>t. tunnel_step\<^sup>*\<^sup>* (tunnel_start client server) t \<and> tunnel_result t = Some (Ok (length x, 0)) \<and>
    w_out (tcp_out (tn_server t)) = w_out (tcp_out server) @ x \<and> w_out (tcp_out (tn_client t)) = w_out (tcp_out client)"
proof -
  let ?w = "(tcp_out server)\<lparr>w_out := w_out (tcp_out server) @ x\<rparr>"
  let ?s1 = "server\<lparr>tcp_out := ?w\<rparr>"
  let ?s2 = "?s1\<lparr>tcp_in := [], tcp_out := ?w\<lparr>w_cap := Some 0\<rparr>\<rparr>"
  let ?c1 = "client\<lparr>tcp_in := []\<rparr>"
  let ?c2 = "?c1\<lparr>tcp_in := [], tcp_out := (tcp_out client)\<lparr>w_cap := Some 0\<rparr>\<rparr>"
  let ?t1 = "\<lparr>tn_client = ?c1, tn_server = ?s1, tn_up = Copying (length x), tn_down = Copying 0\<rparr>"
  let ?t2 = "\<lparr>tn_client = ?c1, tn_server = ?s2, tn_up = Ended (Ok (length x)), tn_down = Copying 0\<rparr>"
  let ?t3 = "\<lparr>tn_client = ?c2, tn_server = ?s2, tn_up = Ended (Ok (length x)), tn_down = Ended (Ok 0)\<rparr>"
  have "copy_step (client, server, Copying 0) (?c1, ?s1, Copying (0 + length x))"
    by (rule copy_step.pass [of "length x" _ x]) (use assms in \<open>simp_all add: push_back_def\<close>)
  then have "copy_step (client, server, Copying 0) (?c1, ?s1, Copying (length x))" by simp
  from tunnel_steps(1) [OF this] have 1: "tunnel_step (tunnel_start client server) ?t1"
    by (simp add: tunnel_start_def)
  have "copy_step (?c1, ?s1, Copying (length x)) (?c1\<lparr>tcp_in := []\<rparr>, ?s2, Ended (map_res (\<lambda>_. length x) (Ok ())))"
    by (rule copy_step.finish [of 1 _ _ 0]) (use assms(4) in \<open>simp_all add: tcp_shutdown_both_def\<close>)
  then have "copy_step (?c1, ?s1, Copying (length x)) (?c1, ?s2, Ended (Ok (length x)))" by simp
  note 2 = tunnel_steps(1) [OF this]
  have "copy_step (?s2, ?c1, Copying 0) (?s2\<lparr>tcp_in := []\<rparr>, ?c2, Ended (map_res (\<lambda>_. 0) (Ok ())))"
    by (rule copy_step.finish [of 1 _ _ 0]) (use assms(3) in \<open>simp_all add: tcp_shutdown_both_def\<close>)
  moreover have "?s2\<lparr>tcp_in := []\<rparr> = ?s2" by (cases server) simp
  ultimately have "copy_step (?s2, ?c1, Copying 0) (?s2, ?c2, Ended (map_res (\<lambda>_. 0) (Ok ())))" by (simp only:)
  then have "copy_step (?s2, ?c1, Copying 0) (?s2, ?c2, Ended (Ok 0))" by simp
  note 3 = tunnel_steps(2) [OF this]
  from 1 2 [of "Copying 0"] 3 [of "Ended (Ok (length x))"] have "tunnel_step\<^sup>*\<^sup>* (tunnel_start client server) ?t3" by auto
  then show ?thesis by (intro exI [of _ ?t3]) (simp add: tunnel_result_def)
qed

theorem tunnel_half_close_cuts_witness:
  "\<exists>t. tunnel_step\<^sup>*\<^sup>* (tunnel_start ask_client reply_server) t \<and> tunnel_result t = Some (Ok (3, 0)) \<and>
     w_out (tcp_out (tn_server t)) = ''ask'' \<and> w_out (tcp_out (tn_client t)) = []"
  using tunnel_half_close_cuts [of "''ask''" ask_client reply_server]
  by (simp add: ask_client_def reply_server_def new_writer_def numeral_3_eq_3)

end
