(* ===== verification/Spec2Isabelle.thy ===== *)
theory Spec2Isabelle
  imports Body_Properties Message_Properties Server_Properties Read_Queue_System Listener_Properties
    Client_Properties Exchange Example_Properties Pool_Properties Interim Client_Tests Sse_Chat Websocket_Chat
    Example_Crates Tunnel
begin

text \<open>
  A verified model of \<^verbatim>\<open>touche\<close>, a synchronous HTTP/1.x library in Rust: the server, the client, and
  the messages between them.

  \<^bold>\<open>The program.\<close>  A \<^verbatim>\<open>Server\<close> accepts connections and runs \<^verbatim>\<open>serve\<close> on each.  That loop takes
  the connection's reader from a \<^verbatim>\<open>ReadQueue\<close>, parses a request whose body may own the reader, asks the
  application (a \<^verbatim>\<open>Service\<close>) for a response, writes it in a framing of its choice and goes on until
  one side wants the connection closed, or hands the connection to an upgrade handler.  A \<^verbatim>\<open>Client\<close> keeps
  connections, writes a request and parses the response.  Both sides share \<^verbatim>\<open>Body\<close>, the trait
  \<^verbatim>\<open>HttpBody\<close> and the type \<^verbatim>\<open>Connection\<close> over TCP, Unix and TLS streams.

  \<^bold>\<open>Theories and sources\<close> (all sources under \<^verbatim>\<open>src/src\<close>).
  \<^item> \<open>Touche_Prelude\<close>: bytes, \<^verbatim>\<open>io::Error\<close> and \<^verbatim>\<open>io::Result\<close> with a panic as a third result, the \<^verbatim>\<open>?\<close>
    operator, number formatting, list lemmas.
  \<^item> \<open>Io_Streams\<close>: the readers and writers of \<^verbatim>\<open>std::io\<close> that the code calls.
  \<^item> \<open>Crates\<close>: the functions of \<^verbatim>\<open>http\<close>, \<^verbatim>\<open>headers\<close> and \<^verbatim>\<open>httparse\<close> as a record of parameters, with the laws
    that theorems ask of them; \<open>Reference_Crates\<close> is one executable instance, for witnesses only.
  \<^item> \<open>Iterators\<close>, \<open>Chunked_Reader\<close>: the contract of a draining iterator; \<^verbatim>\<open>ChunkedReader\<close> of \<^verbatim>\<open>request.rs\<close>.
  \<^item> \<open>Body\<close>, \<open>Readers\<close>, \<open>Body_Spec\<close>, \<open>Http_Body\<close>: \<^verbatim>\<open>body.rs\<close> and \<^verbatim>\<open>body/http_body.rs\<close>, the content of a body, and the
    contracts \<open>http_body_contract\<close> and \<open>chunked_body_contract\<close>, interpreted on every implementation.
  \<^item> \<open>Wire\<close>, \<open>Request\<close>, \<open>Response\<close>: the writers and parsers of \<^verbatim>\<open>request.rs\<close> and \<^verbatim>\<open>response.rs\<close>.
  \<^item> \<open>Message_Spec\<close>, \<open>Write_Spec\<close>, \<open>Round_Trip\<close>, \<open>Sources\<close>, \<open>Panic_Freedom\<close>: heads and framings, the exact output of the
    writers, message written equals message parsed, where the connection's reader goes, absence of panics.
  \<^item> \<open>Read_Queue\<close>, \<open>Read_Queue_System\<close>: \<^verbatim>\<open>read_queue.rs\<close>, and any number of its readers as a step relation.
  \<^item> \<open>Server\<close>, \<open>Server_Spec\<close>, \<open>Server_Live\<close>, \<open>Server_Pipeline\<close>, \<open>Reader_Returned\<close>: \<^verbatim>\<open>serve\<close> of \<^verbatim>\<open>server.rs\<close>; its
    refinement to a loop without the read queue; its termination; the answers to pipelined requests; the connection's
    reader always comes back.
  \<^item> \<open>Connection\<close>: \<^verbatim>\<open>connection.rs\<close> and \<^verbatim>\<open>tls.rs\<close>.  \<open>Server_Builder\<close>: \<^verbatim>\<open>ServerBuilder\<close>, \<^verbatim>\<open>TcpAcceptor\<close> and the loops
    \<^verbatim>\<open>serve\<close>, \<^verbatim>\<open>serve_single_thread\<close> and \<^verbatim>\<open>make_service\<close> of \<^verbatim>\<open>server.rs\<close>.
  \<^item> \<open>Upgrade_Ext\<close>, \<open>Client\<close>, \<open>Client_Spec\<close>: \<^verbatim>\<open>upgrade.rs\<close> and \<^verbatim>\<open>client.rs\<close>.  \<open>Exchange\<close>: client and server together.
  \<^item> \<open>Handover\<close>: what the handler of an upgrade finds on its connection.  \<open>Interim\<close>: the client and interim responses.
  \<^item> \<open>Thread_Pool\<close>: the jobs that \<^verbatim>\<open>serve\<close> gives to its pool, as a step relation over every schedule.
  \<^item> \<open>Documented_Crates\<close>, \<open>Repository_Tests\<close>, \<open>Client_Tests\<close>: the unit tests of the repository, as definitions with the names
    of the tests; those of \<^verbatim>\<open>body.rs\<close>, \<^verbatim>\<open>request.rs\<close> and \<^verbatim>\<open>response.rs\<close> hold for all crates that keep the law
    \<open>documented\<close>, those of \<^verbatim>\<open>client.rs\<close> are evaluated.
  \<^item> \<open>Utf8\<close>, \<open>Example_Apps\<close>: the programs under \<^verbatim>\<open>src/examples\<close> that need no other crate, as applications of the model.
    \<open>Streaming\<close>, \<open>Line_Protocol\<close>: bodies that are streamed from request to response; the handler of \<^verbatim>\<open>upgrade.rs\<close>.
  \<^item> \<open>Example_Crates\<close>, \<open>Tunnel\<close>: the programs over other crates and listeners (\<^verbatim>\<open>sse\<close>, \<^verbatim>\<open>compress\<close>, \<^verbatim>\<open>unix-socket\<close>, \<^verbatim>\<open>tls\<close>,
    \<^verbatim>\<open>websocket\<close>, \<^verbatim>\<open>websocket-tokio\<close>) and the \<^verbatim>\<open>CONNECT\<close> proxy with its two threads.
  \<^item> \<open>Chat_Room\<close>, \<open>Sse_Chat\<close>, \<open>Websocket_Chat\<close>: the two chat programs, whose handlers and threads share a map of channels.
  \<^item> \<open>Body_Properties\<close>, \<open>Message_Properties\<close>, \<open>Read_Queue_System\<close>, \<open>Server_Properties\<close>, \<open>Listener_Properties\<close>,
    \<open>Client_Properties\<close>, \<open>Example_Properties\<close>, \<open>Pool_Properties\<close> and this theory hold most of the properties; the others
    stand at the end of the theory they are about.

  \<^bold>\<open>State and operations.\<close>  A source of bytes is the script of its reads: blocks and faults, in the order in
  which they arrive, and then end of file.  Theorems over all scripts with given bytes cover every way in
  which a network may cut them.  A writer is what it has accepted, how much of that was flushed explicitly, and how much
  more the peer accepts; a \<^verbatim>\<open>BufWriter\<close> is merged with the stream under it.  Operations take the
  state and return the result with the new state.  An operation that consumes or drops a body also
  returns the source that the body owned, which is how the connection's reader travels from one request
  to the next.  Waiting for a message that is not there, and a panic, are results like any other.

  \<^bold>\<open>What the lemmas show.\<close>  From below: the reading operations on fault-free scripts are functions of the
  bytes (\<open>stream_simps\<close>); every reading operation makes its script smaller; the consumptions of a body
  agree; the framing that a writer chooses is the one its headers announce; what is written is what is parsed;
  the read queue is a baton that is passed on exactly once; \<^verbatim>\<open>serve\<close> simulates a plain loop, ends, never
  panics, never loses its reader and answers in order; the accept loops serve exactly the connections that can be configured; the
  pool of the client leads where it says; a request and its response are delivered end to end; the example
  programs serve every connection to its end, and the echo and line protocol sessions return what was sent; any schedule
  of the pool computes what the sequential model computes; a chat delivers every message once and in order, and a tunnel
  passes its bytes on, in every interleaving of their threads.  Properties of kind
  \<open>error\<close> state what the code does where it departs from its documentation or from the protocol.

  \<^bold>\<open>Bounds and fuel.\<close>  Only the connection loop and \<open>write_fully\<close> use fuel.  An iteration of the loop consumes part of its
  script (\<open>parse_request_progress\<close>), so fuel above \<open>stream_size conn + 1\<close> is enough for
  every application that does not lengthen its connection: \<open>serve_terminates\<close> proves that the result is then
  never \<open>OutOfFuel\<close>.  \<open>write_fully\<close> needs as many calls as there are bytes (\<open>write_fully_all\<close>).  All other loops are total
  functions with a measure on their script.

  \<^bold>\<open>Abstractions.\<close>  A byte is a \<open>char\<close>; \<^verbatim>\<open>usize\<close> and \<^verbatim>\<open>u64\<close> are natural numbers, compared and
  subtracted as in the code (on 64-bit targets the conversions between them are the identity).  Each \<open>Avail\<close> block is
  what one read of the size of the buffer delivers.  A cloned \<^verbatim>\<open>Connection\<close> shares script and writer with its
  original; where both halves are used at once, \<open>serve\<close> reads the one and writes the other.  \<^verbatim>\<open>Mutex\<close> and
  \<^verbatim>\<open>Arc\<close> of a TLS connection are a poison flag and a reference count.  An authority is a string in the canonical
  form in which the \<^verbatim>\<open>http\<close> crate compares it.

  \<^bold>\<open>Not modelled.\<close>  The crates \<^verbatim>\<open>http\<close>, \<^verbatim>\<open>headers\<close>, \<^verbatim>\<open>httparse\<close>, \<^verbatim>\<open>rustls\<close> and \<^verbatim>\<open>threadpool\<close>, those that only examples
  use (\<^verbatim>\<open>flate2\<close>, \<^verbatim>\<open>tungstenite\<close>, \<^verbatim>\<open>tokio\<close>, \<^verbatim>\<open>serde_json\<close>) and the operating system, which are parameters; time, so that a read
  timeout is a fault of a script and a sleep nothing; \<^verbatim>\<open>lib.rs\<close>, which only re-exports; the derived trait implementations.
\<close>

section \<open>From the client to the application and back\<close>


definition uri_answer_wire :: bytes where
  "uri_answer_wire = ''HTTP/1.1 200 OK'' @ crlf @ ''date: now'' @ crlf @ ''content-length: 2'' @ crlf @ crlf @ ''/a''"

definition empty_get_headers :: header_map where
  "empty_get_headers = [(''content-length'', ''0'')]"

definition asking_conn :: "(tcp_stream \<times> stream \<times> writer) connection" where
  "asking_conn = conn_from_tcp (some_tcp [Avail (take 9 uri_answer_wire), Avail (drop 9 uri_answer_wire)])"

definition asked_wire :: bytes where
  "asked_wire = ''GET /a HTTP/1.1'' @ crlf @ ''content-length: 0'' @ crlf @ crlf"


end
